(* ===== verification/Prelude.thy ===== *)
theory Prelude
  imports Main "HOL-Library.Word" "HOL-Library.AList"
begin

text \<open>
  Vocabulary shared by every component: the Python value types the code moves around
  (\<open>bytes\<close>, \<open>str\<close>), results that are either an exception or a value, the iteration
  combinators for loops that may raise, insertion-ordered dictionaries
  (\<open>collections.OrderedDict\<close> and the builtin \<open>dict\<close>), and two interfaces that several
  components implement: a codec and a prefix codec.
\<close>

section \<open>Bytes and strings\<close>

text \<open>
  \<open>bytes\<close> is a list of 8-bit words. A Python \<open>str\<close> is a list of Unicode code points, so
  that lengths, comparisons and the UTF-8 codec are those of the language; the constant
  \<open>U\<close> turns an ASCII literal into such a string.
\<close>

type_synonym byte = "8 word"
type_synonym bytes = "byte list"
type_synonym ustr = "nat list"

definition byte_of :: "nat \<Rightarrow> byte" where
  "byte_of n = word_of_nat n"

lemma unat_byte_of [simp]: "n < 256 \<Longrightarrow> unat (byte_of n) = n"
  by (simp add: byte_of_def unat_of_nat)

lemma byte_of_unat [simp]: "byte_of (unat b) = b"
  by (simp add: byte_of_def)

lemma unat_byte_lt [simp]: "unat (b :: byte) < 256"
  by (rule order_less_le_trans [OF unsigned_less]) simp

named_theorems od_simps \<open>rewriting insertion-ordered dictionaries\<close>
named_theorems res_simps \<open>results that are an exception or a value\<close>

definition U :: "string \<Rightarrow> ustr" where
  "U s = map of_char s"

lemma U_Nil [simp]: "U [] = []"
  by (simp add: U_def)

lemma U_eq_iff [simp]: "U s = U t \<longleftrightarrow> s = t"
proof -
  have "inj (of_char :: char \<Rightarrow> nat)"
    by (simp add: inj_on_def)
  then show ?thesis
    by (simp add: U_def inj_map_eq_map)
qed

lemma U_eq_Nil_iff [simp]: "U s = [] \<longleftrightarrow> s = []" "[] = U s \<longleftrightarrow> s = []"
  by (simp_all add: U_def)

lemma length_U [simp]: "length (U s) = length s"
  by (simp add: U_def)

definition ascii :: "ustr \<Rightarrow> bool" where
  "ascii s \<longleftrightarrow> (\<forall>c \<in> set s. c < 128)"

section \<open>Results\<close>

text \<open>
  A call that may raise returns \<open>'e + 'a\<close>: \<open>Inl\<close> the exception, \<open>Inr\<close> the value.
  \<open>mapR\<close> is a list comprehension whose body may raise, \<open>foldR\<close> a \<open>for\<close> loop over an
  accumulator whose body may raise; both stop at the first exception.
\<close>

primrec mapR :: "('a \<Rightarrow> 'e + 'b) \<Rightarrow> 'a list \<Rightarrow> 'e + 'b list" where
  "mapR f [] = Inr []"
| "mapR f (x # xs) =
     (case f x of Inl e \<Rightarrow> Inl e
      | Inr y \<Rightarrow> (case mapR f xs of Inl e \<Rightarrow> Inl e | Inr ys \<Rightarrow> Inr (y # ys)))"

primrec foldR :: "('s \<Rightarrow> 'a \<Rightarrow> 'e + 's) \<Rightarrow> 's \<Rightarrow> 'a list \<Rightarrow> 'e + 's" where
  "foldR f s [] = Inr s"
| "foldR f s (x # xs) = (case f s x of Inl e \<Rightarrow> Inl e | Inr s' \<Rightarrow> foldR f s' xs)"

text \<open>\<open>bindR r f\<close>: go on with the value of \<open>r\<close>, or stop with its exception.\<close>

definition bindR :: "'e + 'a \<Rightarrow> ('a \<Rightarrow> 'e + 'b) \<Rightarrow> 'e + 'b" where
  "bindR r f = (case r of Inl e \<Rightarrow> Inl e | Inr x \<Rightarrow> f x)"

lemma bindR_simps [simp]: "bindR (Inl e) f = Inl e" "bindR (Inr x) f = f x"
  by (simp_all add: bindR_def)

lemma bindR_Inr_iff [res_simps]: "bindR r f = Inr y \<longleftrightarrow> (\<exists>x. r = Inr x \<and> f x = Inr y)"
  by (cases r) simp_all

lemma bindR_Inl_iff [res_simps]: "bindR r f = Inl e \<longleftrightarrow> r = Inl e \<or> (\<exists>x. r = Inr x \<and> f x = Inl e)"
  by (cases r) simp_all

text \<open>The same for a handler that translates the exception.\<close>

lemma caught_Inr_iff [res_simps]:
  "(case r of Inl e \<Rightarrow> Inl (h e) | Inr x \<Rightarrow> f x) = Inr y \<longleftrightarrow> (\<exists>x. r = Inr x \<and> f x = Inr y)"
  by (cases r) simp_all

lemma bindR_cong [fundef_cong]: "r = s \<Longrightarrow> (\<And>x. s = Inr x \<Longrightarrow> f x = g x) \<Longrightarrow> bindR r f = bindR s g"
  by (cases s) simp_all

lemma mapR_cong [fundef_cong]:
  "xs = ys \<Longrightarrow> (\<And>x. x \<in> set ys \<Longrightarrow> f x = g x) \<Longrightarrow> mapR f xs = mapR g ys"
  by (induction ys arbitrary: xs) (auto split: sum.splits)

lemma mapR_Inr_iff: "mapR f xs = Inr ys \<longleftrightarrow> list_all2 (\<lambda>x y. f x = Inr y) xs ys"
proof (induction xs arbitrary: ys)
  case Nil
  then show ?case by (cases ys) auto
next
  case (Cons x xs)
  show ?case
  proof (cases ys)
    case Nil
    then show ?thesis by (auto split: sum.splits)
  next
    case ys: (Cons y zs)
    show ?thesis
      by (simp add: ys Cons.IH [symmetric] split: sum.splits)
  qed
qed

lemma mapR_InrI: "(\<And>x. x \<in> set xs \<Longrightarrow> f x = Inr (g x)) \<Longrightarrow> mapR f xs = Inr (map g xs)"
  by (induction xs) auto

lemma mapR_Inl: "mapR f xs = Inl e \<Longrightarrow> \<exists>x \<in> set xs. f x = Inl e"
  by (induction xs) (auto split: sum.splits)

lemma foldR_append:
  "foldR f s (xs @ ys) = (case foldR f s xs of Inl e \<Rightarrow> Inl e | Inr s' \<Rightarrow> foldR f s' ys)"
  by (induction xs arbitrary: s) (auto split: sum.splits)

text \<open>The loop rule: what one iteration keeps, the whole loop keeps.\<close>

lemma foldR_invariant:
  assumes "foldR f s xs = Inr t" and "P s"
    and "\<And>s x s'. P s \<Longrightarrow> x \<in> set xs \<Longrightarrow> f s x = Inr s' \<Longrightarrow> P s'"
  shows "P t"
  using assms
proof (induction xs arbitrary: s)
  case (Cons x xs)
  from Cons.prems(1) obtain s' where step: "f s x = Inr s'" and rest: "foldR f s' xs = Inr t"
    by (auto split: sum.splits)
  have "P s'" by (rule Cons.prems(3) [OF Cons.prems(2) _ step]) simp
  with rest show ?case
    by (rule Cons.IH) (rule Cons.prems(3), simp_all)
qed simp

lemma foldR_Inl: "foldR f s xs = Inl e \<Longrightarrow> \<exists>s' x. x \<in> set xs \<and> f s' x = Inl e"
  by (induction xs arbitrary: s) (fastforce split: sum.splits)+

section \<open>Insertion-ordered dictionaries\<close>

text \<open>
  A \<open>dict\<close> or an \<open>OrderedDict\<close> is an association list with distinct keys, oldest entry
  first. \<open>d[k] = v\<close> replaces the value in place when the key is present and appends
  otherwise, which is what the library's \<open>AList.update\<close> does; \<open>d.pop(k, None)\<close> is
  \<open>AList.delete\<close>.
\<close>

type_synonym ('k, 'v) odict = "('k \<times> 'v) list"

definition od_wf :: "('k, 'v) odict \<Rightarrow> bool" where
  "od_wf d \<longleftrightarrow> distinct (map fst d)"

definition od_get :: "('k, 'v) odict \<Rightarrow> 'k \<Rightarrow> 'v option" where
  "od_get d k = map_of d k"

definition od_set :: "('k, 'v) odict \<Rightarrow> 'k \<Rightarrow> 'v \<Rightarrow> ('k, 'v) odict" where
  "od_set d k v = AList.update k v d"

definition od_pop :: "('k, 'v) odict \<Rightarrow> 'k \<Rightarrow> ('k, 'v) odict" where
  "od_pop d k = AList.delete k d"

definition od_move_to_end :: "('k, 'v) odict \<Rightarrow> 'k \<Rightarrow> ('k, 'v) odict" where
  \<comment> \<open>called by the code on a present key only\<close>
  "od_move_to_end d k = (case map_of d k of None \<Rightarrow> d | Some v \<Rightarrow> AList.delete k d @ [(k, v)])"

text \<open>\<open>while len(d) > n: d.popitem(last=False)\<close>\<close>

fun od_trim :: "int \<Rightarrow> ('k, 'v) odict \<Rightarrow> ('k, 'v) odict" where
  "od_trim n [] = []"
| "od_trim n (x # d) = (if int (length (x # d)) > n then od_trim n d else x # d)"

lemma od_get_Nil [simp, od_simps]: "od_get [] k = None"
  by (simp add: od_get_def)

lemma od_wf_Nil [simp, od_simps]: "od_wf []"
  by (simp add: od_wf_def)

lemma od_get_set [od_simps]: "od_get (od_set d k v) k' = (if k' = k then Some v else od_get d k')"
  by (simp add: od_get_def od_set_def update_conv')

lemma od_get_pop [od_simps]: "od_get (od_pop d k) k' = (if k' = k then None else od_get d k')"
  by (auto simp: od_get_def od_pop_def delete_conv' restrict_map_def)

lemma od_get_move [od_simps]: "od_get (od_move_to_end d k) k' = od_get d k'"
  by (auto simp: od_get_def od_move_to_end_def map_add_def delete_conv' restrict_map_def
      split: option.splits)

lemma od_wf_set [intro, od_simps]: "od_wf d \<Longrightarrow> od_wf (od_set d k v)"
  by (simp add: od_wf_def od_set_def distinct_update)

lemma od_set_new: "k \<notin> fst ` set d \<Longrightarrow> od_set d k v = d @ [(k, v)]"
  by (induction d) (auto simp: od_set_def)

lemma od_set_values: "snd ` set (od_set d k v) \<subseteq> insert v (snd ` set d)"
  by (induction d) (auto simp: od_set_def)

lemma od_wf_pop [intro, od_simps]: "od_wf d \<Longrightarrow> od_wf (od_pop d k)"
  by (simp add: od_wf_def od_pop_def distinct_delete)

lemma od_wf_move [intro, od_simps]: "od_wf d \<Longrightarrow> od_wf (od_move_to_end d k)"
  by (auto simp: od_wf_def od_move_to_end_def delete_keys distinct_removeAll
      split: option.splits)

lemma od_trim_drop: "0 \<le> n \<Longrightarrow> od_trim n d = drop (length d - nat n) d"
proof (induction d)
  case (Cons x d)
  show ?case
  proof (cases "int (length (x # d)) > n")
    case True
    with Cons.prems have "length (x # d) - nat n = Suc (length d - nat n)" by auto
    with True Cons show ?thesis by simp
  next
    case False
    then show ?thesis by auto
  qed
qed simp

lemma od_trim_id: "int (length d) \<le> n \<Longrightarrow> od_trim n d = d"
  by (cases d) auto

lemma od_trim_length: "0 \<le> n \<Longrightarrow> int (length (od_trim n d)) \<le> n"
  by (simp add: od_trim_drop)

lemma od_trim_suffix: "\<exists>p. d = p @ od_trim n d"
proof (induction d)
  case (Cons x d)
  then obtain p where "d = p @ od_trim n d" by blast
  then show ?case
    by (metis append_Cons append_Nil od_trim.simps(2))
qed simp

lemma od_trim_subset: "set (od_trim n d) \<subseteq> set d"
  by (metis od_trim_suffix set_append Un_upper2)

lemma od_wf_trim [intro, od_simps]: "od_wf d \<Longrightarrow> od_wf (od_trim n d)"
  by (metis od_trim_suffix od_wf_def distinct_append map_append)

lemma od_trim_snoc:
  assumes "0 < n"
  shows "od_trim n (d @ [x]) = od_trim (n - 1) d @ [x]"
  using assms by (induction d) auto

lemma od_get_in_set: "od_wf d \<Longrightarrow> od_get d k = Some v \<longleftrightarrow> (k, v) \<in> set d"
  by (simp add: od_get_def od_wf_def)

lemma od_get_SomeD: "od_get d k = Some v \<Longrightarrow> (k, v) \<in> set d"
  by (simp add: od_get_def map_of_SomeD)

lemma od_get_filter_value:
  assumes "od_wf d"
  shows "od_get (filter (\<lambda>p. Q (snd p)) d) k
    = (case od_get d k of Some v \<Rightarrow> if Q v then Some v else None | None \<Rightarrow> None)"
proof -
  have wf': "od_wf (filter (\<lambda>p. Q (snd p)) d)"
    using assms by (simp add: od_wf_def distinct_map_filter)
  show ?thesis
  proof (cases "od_get d k")
    case None
    then have "k \<notin> fst ` set d"
      by (simp add: od_get_def map_of_eq_None_iff)
    then have "od_get (filter (\<lambda>p. Q (snd p)) d) k = None"
      by (force simp: od_get_def map_of_eq_None_iff)
    with None show ?thesis by simp
  next
    case (Some v)
    then have mem: "(k, v) \<in> set d" using assms by (simp add: od_get_in_set)
    show ?thesis
    proof (cases "Q v")
      case True
      with mem have "(k, v) \<in> set (filter (\<lambda>p. Q (snd p)) d)" by simp
      with wf' have "od_get (filter (\<lambda>p. Q (snd p)) d) k = Some v"
        by (simp only: od_get_in_set)
      with True Some show ?thesis by simp
    next
      case False
      have "od_get (filter (\<lambda>p. Q (snd p)) d) k = None"
      proof (rule ccontr)
        assume "od_get (filter (\<lambda>p. Q (snd p)) d) k \<noteq> None"
        then obtain w where "od_get (filter (\<lambda>p. Q (snd p)) d) k = Some w" by auto
        then have "(k, w) \<in> set d" and "Q w" by (auto dest!: od_get_SomeD)
        with mem assms Some False show False by (auto simp: od_get_in_set [symmetric])
      qed
      with False Some show ?thesis by simp
    qed
  qed
qed

text \<open>Storing a key and moving it to the end puts it last, whatever was there before.\<close>

lemma od_set_move:
  assumes "od_wf d"
  shows "od_move_to_end (od_set d k v) k = od_pop d k @ [(k, v)]"
proof -
  have "AList.delete k (AList.update k v d) = AList.delete k d"
    by (induction d) auto
  then show ?thesis
    by (simp add: od_move_to_end_def od_set_def od_pop_def update_conv')
qed

lemma od_move_length: "length (od_move_to_end d k) \<le> length d" if "od_wf d"
proof (cases "map_of d k")
  case (Some v)
  then have "(k, v) \<in> set d" by (rule map_of_SomeD)
  then have "length (AList.delete k d) < length d"
    by (force simp: AList.delete_eq intro!: length_filter_less)
  with Some show ?thesis by (simp add: od_move_to_end_def)
qed (simp add: od_move_to_end_def)

text \<open>
  The store operation of both caches of the program, a least-recently-used dictionary of at
  most \<open>n\<close> entries: \<open>d[k] = v; d.move_to_end(k); while len(d) > n: d.popitem(last=False)\<close>.
\<close>

definition od_store :: "int \<Rightarrow> ('k, 'v) odict \<Rightarrow> 'k \<Rightarrow> 'v \<Rightarrow> ('k, 'v) odict" where
  "od_store n d k v = od_trim n (od_move_to_end (od_set d k v) k)"

lemma od_wf_store [intro]: "od_wf d \<Longrightarrow> od_wf (od_store n d k v)"
  by (simp add: od_store_def od_wf_trim od_wf_move od_wf_set)

lemma od_store_length: "0 \<le> n \<Longrightarrow> int (length (od_store n d k v)) \<le> n"
  by (simp add: od_store_def od_trim_length)

lemma od_store_eq:
  assumes "od_wf d" and "0 < n"
  shows "od_store n d k v = od_trim (n - 1) (od_pop d k) @ [(k, v)]"
  by (simp add: od_store_def od_set_move [OF assms(1)] od_trim_snoc [OF assms(2)])

lemma od_get_trim: "od_wf d \<Longrightarrow> od_get (od_trim n d) k \<in> {None, od_get d k}"
proof (cases "od_get (od_trim n d) k")
  case (Some v)
  assume "od_wf d"
  moreover have "(k, v) \<in> set d" using Some od_trim_subset [of n d] by (auto dest: od_get_SomeD)
  ultimately have "od_get d k = Some v" by (simp add: od_get_in_set)
  with Some show ?thesis by simp
qed simp

lemma od_get_store_same:
  assumes "od_wf d" and "0 < n"
  shows "od_get (od_store n d k v) k = Some v"
proof -
  have "od_wf (od_store n d k v)" using assms(1) by (rule od_wf_store)
  moreover have "(k, v) \<in> set (od_store n d k v)" by (simp add: od_store_eq [OF assms])
  ultimately show ?thesis by (simp add: od_get_in_set)
qed

lemma od_get_store_other:
  assumes "od_wf d" and "k' \<noteq> k"
  shows "od_get (od_store n d k v) k' \<in> {None, od_get d k'}"
proof -
  have wf: "od_wf (od_move_to_end (od_set d k v) k)"
    using assms(1) by (simp add: od_wf_move od_wf_set)
  show ?thesis
    using od_get_trim [OF wf, of n k'] assms(2) by (simp add: od_store_def od_simps)
qed

text \<open>Below the capacity nothing is evicted.\<close>

lemma od_get_store_room:
  assumes "od_wf d" and "k' \<noteq> k" and "int (length d) < n"
  shows "od_get (od_store n d k v) k' = od_get d k'"
proof -
  have "int (length (od_pop d k)) \<le> n - 1"
    using assms(3) length_delete_le [of k d] by (simp add: od_pop_def)
  then have "od_store n d k v = od_pop d k @ [(k, v)]"
    using assms(3) by (simp add: od_store_eq [OF assms(1)] od_trim_id)
  then have "od_get (od_store n d k v) k' = od_get (od_pop d k) k'"
    using assms(2) by (simp add: od_get_def map_add_def split: option.split)
  with assms(2) show ?thesis by (simp add: od_get_pop)
qed

section \<open>Interface: a bounded store\<close>

text \<open>
  What the caches promise their clients: a key just stored is found, other keys keep their
  value or are evicted, the number of entries stays within the capacity. The lemmas follow
  for every sequence of stores.
\<close>

locale bounded_store =
  fixes inv :: "'s \<Rightarrow> bool"
    and get :: "'s \<Rightarrow> 'k \<Rightarrow> 'v option"
    and put :: "'s \<Rightarrow> 'k \<Rightarrow> 'v \<Rightarrow> 's"
    and size_of :: "'s \<Rightarrow> nat"
    and cap :: nat
  assumes inv_put: "inv s \<Longrightarrow> inv (put s k v)"
    and get_put_same: "inv s \<Longrightarrow> get (put s k v) k = Some v"
    and get_put_other: "inv s \<Longrightarrow> k' \<noteq> k \<Longrightarrow> get (put s k v) k' \<in> {None, get s k'}"
    and size_put: "inv s \<Longrightarrow> size_of (put s k v) \<le> cap"
begin

definition put_all :: "('k \<times> 'v) list \<Rightarrow> 's \<Rightarrow> 's" where
  "put_all kvs s = fold (\<lambda>(k, v) s. put s k v) kvs s"

lemma inv_put_all: "inv s \<Longrightarrow> inv (put_all kvs s)"
  unfolding put_all_def by (induction kvs arbitrary: s) (auto simp: inv_put)

lemma size_put_all: "inv s \<Longrightarrow> kvs \<noteq> [] \<Longrightarrow> size_of (put_all kvs s) \<le> cap"
  using inv_put_all [of s "butlast kvs"]
  by (cases kvs rule: rev_cases) (auto simp: put_all_def size_put)

text \<open>Only the latest value stored under a key can be found under it.\<close>

lemma get_put_all:
  assumes "inv s"
  shows "get (put_all kvs s) k \<in> {None, (case map_of (rev kvs) k of Some v \<Rightarrow> Some v | None \<Rightarrow> get s k)}"
  using assms
proof (induction kvs rule: rev_induct)
  case Nil
  then show ?case by (simp add: put_all_def)
next
  case (snoc kv kvs)
  obtain k' v' where kv: "kv = (k', v')" by (cases kv)
  have eq: "put_all (kvs @ [kv]) s = put (put_all kvs s) k' v'" by (simp add: put_all_def kv)
  note inv = inv_put_all [OF snoc.prems, of kvs]
  show ?case
  proof (cases "k = k'")
    case True
    then show ?thesis by (simp add: eq [unfolded kv] kv get_put_same [OF inv])
  next
    case False
    then show ?thesis using get_put_other [OF inv, of k k' v'] snoc.IH [OF snoc.prems]
      by (auto simp: eq [unfolded kv] kv)
  qed
qed

end

section \<open>Interfaces: codecs\<close>

text \<open>
  A codec encodes the well-formed values of a type and decodes what it encoded. A prefix
  codec decodes the encoding of a value from the front of a longer input and leaves the
  rest; encodings laid end to end can then be read back one after the other.
\<close>

locale codec =
  fixes wf :: "'a \<Rightarrow> bool"
    and enc :: "'a \<Rightarrow> 'e + 'b"
    and dec :: "'b \<Rightarrow> 'f + 'a"
  assumes dec_enc: "wf x \<Longrightarrow> \<exists>b. enc x = Inr b \<and> dec b = Inr x"
begin

lemma enc_total: "wf x \<Longrightarrow> \<exists>b. enc x = Inr b"
  using dec_enc by blast

lemma enc_inj:
  assumes "wf x" and "wf y" and "enc x = enc y"
  shows "x = y"
proof -
  obtain b where "enc x = Inr b" and "dec b = Inr x"
    using dec_enc [OF assms(1)] by blast
  moreover obtain c where "enc y = Inr c" and "dec c = Inr y"
    using dec_enc [OF assms(2)] by blast
  ultimately show ?thesis using assms(3) by auto
qed

end

end
