(* ===== verification/Errors.thy ===== *)
theory Errors
  imports Prelude
begin

text \<open>
  The exceptions of the program as one datatype, so that every \<open>raise\<close> is a value: the
  application exceptions of \<open>feature_store/utils/exceptions.py\<close> (and the subclasses that
  \<open>enclave_client.py\<close> and \<open>routers/inference.py\<close> add) with their HTTP status and stable
  error code, the enclave exceptions, and the builtin or library exceptions the code
  catches or lets through. The class tests (\<open>is_ValueError\<close>, \<open>is_OSError\<close>, ...) are the
  \<open>except\<close> clauses. The exception handlers registered on the FastAPI app close the theory.
\<close>

section \<open>Application exceptions\<close>

datatype app_kind =
    AppExceptionBase
  | TenantNotFound
  | FeatureSetNotFound
  | UnauthorizedAccess
  | ForbiddenAccess
  | FeatureSetConflict
  | DataStoreError
  | EnclaveCommunicationError
  | ServiceNotImplementedError
  | EnclaveTimeoutError
  | MalformedEnclaveResponseError
  | RemoteModelNotFoundError
  | RemoteFeatureDimensionMismatchError
  | RemoteInvalidRequestError
  | ModelArtifactNotFoundError
  | ModelArtifactInvalidError

text \<open>
  A subclass that sets no \<open>status_code\<close> of its own inherits its parent's: the two
  subclasses of \<open>EnclaveCommunicationError\<close> keep 502.
\<close>

fun status_code :: "app_kind \<Rightarrow> nat" where
  "status_code AppExceptionBase = 400"
| "status_code TenantNotFound = 404"
| "status_code FeatureSetNotFound = 404"
| "status_code UnauthorizedAccess = 401"
| "status_code ForbiddenAccess = 403"
| "status_code FeatureSetConflict = 409"
| "status_code DataStoreError = 500"
| "status_code EnclaveCommunicationError = 502"
| "status_code ServiceNotImplementedError = 501"
| "status_code EnclaveTimeoutError = 502"
| "status_code MalformedEnclaveResponseError = 502"
| "status_code RemoteModelNotFoundError = 404"
| "status_code RemoteFeatureDimensionMismatchError = 400"
| "status_code RemoteInvalidRequestError = 400"
| "status_code ModelArtifactNotFoundError = 404"
| "status_code ModelArtifactInvalidError = 400"

fun error_code :: "app_kind \<Rightarrow> ustr" where
  "error_code AppExceptionBase = U ''application_error''"
| "error_code TenantNotFound = U ''tenant_not_found''"
| "error_code FeatureSetNotFound = U ''feature_set_not_found''"
| "error_code UnauthorizedAccess = U ''unauthorized_access''"
| "error_code ForbiddenAccess = U ''forbidden_access''"
| "error_code FeatureSetConflict = U ''feature_set_conflict''"
| "error_code DataStoreError = U ''data_store_error''"
| "error_code EnclaveCommunicationError = U ''enclave_communication_error''"
| "error_code ServiceNotImplementedError = U ''service_not_implemented''"
| "error_code EnclaveTimeoutError = U ''enclave_timeout''"
| "error_code MalformedEnclaveResponseError = U ''malformed_enclave_response''"
| "error_code RemoteModelNotFoundError = U ''remote_model_not_found''"
| "error_code RemoteFeatureDimensionMismatchError = U ''feature_dimension_mismatch''"
| "error_code RemoteInvalidRequestError = U ''invalid_enclave_request''"
| "error_code ModelArtifactNotFoundError = U ''model_artifact_not_found''"
| "error_code ModelArtifactInvalidError = U ''invalid_model_artifact''"

section \<open>All exceptions\<close>

text \<open>
  The argument is the message where the code builds or forwards one. \<open>ClientError\<close> carries
  the AWS error code, if the response has one. \<open>OtherError\<close> stands for any class the code
  never names in an \<open>except\<close> clause (it is caught by \<open>except Exception\<close> only).
\<close>

datatype exn =
    ValueError ustr
  | UnicodeDecodeError
  | UnicodeEncodeError
  | JSONDecodeError
  | BinasciiError
  | TypeError
  | KeyError
  | OverflowError
  | StructError
  | RecursionError
  | ImportError
  | OSError
  | ConnectionError
  | TimeoutError
  | ClientError "ustr option"
  | BotoCoreError
  | InvalidTag
  | AttestationError ustr
  | KMSProxyError ustr
  | KMSServiceError ustr
  | InferenceEngineError ustr
  | ModelLoadError ustr
  | ModelNotLoadedError ustr
  | FeatureDimensionMismatchError ustr
  | AppException app_kind ustr
  | OtherError ustr

type_synonym 'a res = "exn + 'a"

fun is_ValueError :: "exn \<Rightarrow> bool" where
  "is_ValueError (ValueError _) = True"
| "is_ValueError UnicodeDecodeError = True"
| "is_ValueError UnicodeEncodeError = True"
| "is_ValueError JSONDecodeError = True"
| "is_ValueError BinasciiError = True"
| "is_ValueError _ = False"

fun is_OSError :: "exn \<Rightarrow> bool" where
  "is_OSError OSError = True"
| "is_OSError ConnectionError = True"
| "is_OSError TimeoutError = True"
| "is_OSError _ = False"

fun is_boto_error :: "exn \<Rightarrow> bool" where
  \<comment> \<open>\<open>except (ClientError, BotoCoreError)\<close>\<close>
  "is_boto_error (ClientError _) = True"
| "is_boto_error BotoCoreError = True"
| "is_boto_error _ = False"

fun is_AttestationError :: "exn \<Rightarrow> bool" where
  "is_AttestationError (AttestationError _) = True"
| "is_AttestationError _ = False"

fun is_enclave_comm :: "exn \<Rightarrow> bool" where
  \<comment> \<open>\<open>except EnclaveCommunicationError\<close>, subclasses included\<close>
  "is_enclave_comm (AppException k _) =
     (k = EnclaveCommunicationError \<or> k = EnclaveTimeoutError \<or> k = MalformedEnclaveResponseError)"
| "is_enclave_comm _ = False"

section \<open>Exception handlers of the HTTP application\<close>

record error_body =
  eb_error :: ustr
  eb_detail :: ustr
  eb_request_id :: "ustr option"
  eb_timestamp :: ustr

record error_response =
  er_status :: nat
  er_body :: error_body

definition error_payload :: "ustr option \<Rightarrow> ustr \<Rightarrow> ustr \<Rightarrow> ustr \<Rightarrow> error_body" where
  "error_payload request_id now code detail =
     \<lparr>eb_error = code, eb_detail = detail, eb_request_id = request_id, eb_timestamp = now\<rparr>"

text \<open>
  The argument \<open>None\<close> is a \<open>RequestValidationError\<close> of FastAPI; Starlette picks the handler
  of the most specific class, so an \<open>AppException\<close> never reaches the catch-all handler.
\<close>

fun handle_exception :: "ustr option \<Rightarrow> ustr \<Rightarrow> exn option \<Rightarrow> error_response" where
  "handle_exception rid now (Some (AppException k detail)) =
     \<lparr>er_status = status_code k, er_body = error_payload rid now (error_code k) detail\<rparr>"
| "handle_exception rid now None =
     \<lparr>er_status = 422,
      er_body = error_payload rid now (U ''validation_error'') (U ''Request validation failed.'')\<rparr>"
| "handle_exception rid now (Some _) =
     \<lparr>er_status = 500,
      er_body = error_payload rid now (U ''internal_server_error'')
        (U ''An internal server error occurred.'')\<rparr>"

lemma status_code_is_error: "400 \<le> status_code k \<and> status_code k < 600"
  by (cases k) simp_all

text \<open>The stable error codes tell the exception classes apart.\<close>

lemma error_code_inj: "error_code k = error_code k' \<Longrightarrow> k = k'"
  by (cases k; cases k') simp_all

end
