(* ===== verification/Text.thy ===== *)
theory Text
  imports Errors
begin

text \<open>
  What the code uses of Python's text functions: \<open>str.strip\<close>, the UTF-8 codec, decimal
  \<open>str(int)\<close> and \<open>int(str)\<close>, \<open>bytes.hex\<close> and \<open>bytes.fromhex\<close>, and big-endian integers
  (\<open>int.to_bytes\<close>, \<open>int.from_bytes\<close>).
\<close>

section \<open>strip\<close>

definition py_space :: "nat \<Rightarrow> bool" where
  "py_space c \<longleftrightarrow> (9 \<le> c \<and> c \<le> 13) \<or> (28 \<le> c \<and> c \<le> 32) \<or> c = 0x85 \<or> c = 0xA0 \<or> c = 0x1680
     \<or> (0x2000 \<le> c \<and> c \<le> 0x200A) \<or> c = 0x2028 \<or> c = 0x2029 \<or> c = 0x202F \<or> c = 0x205F \<or> c = 0x3000"

definition strip :: "ustr \<Rightarrow> ustr" where
  "strip s = rev (dropWhile py_space (rev (dropWhile py_space s)))"

lemma strip_Nil [simp]: "strip [] = []"
  by (simp add: strip_def)

lemma strip_id: "s \<noteq> [] \<Longrightarrow> \<not> py_space (hd s) \<Longrightarrow> \<not> py_space (last s) \<Longrightarrow> strip s = s"
proof -
  assume s: "s \<noteq> []" "\<not> py_space (hd s)" "\<not> py_space (last s)"
  then have "dropWhile py_space s = s" by (cases s) auto
  moreover have "dropWhile py_space (rev s) = rev s"
    using s by (cases s rule: rev_cases) auto
  ultimately show "strip s = s" by (simp add: strip_def)
qed

lemma strip_ends:
  assumes "strip s \<noteq> []"
  shows "\<not> py_space (hd (strip s)) \<and> \<not> py_space (last (strip s))"
proof -
  let ?t = "dropWhile py_space s"
  let ?u = "dropWhile py_space (rev ?t)"
  from assms have u: "?u \<noteq> []" by (simp add: strip_def)
  then have 1: "\<not> py_space (last (strip s))"
    by (simp add: strip_def last_rev hd_dropWhile)
  obtain p where p: "rev ?t = p @ ?u"
    by (metis takeWhile_dropWhile_id)
  then have "?t = rev ?u @ rev p" by (metis rev_append rev_rev_ident)
  with u have "hd ?t = hd (rev ?u)"
    by (metis hd_append2 rev_is_Nil_conv)
  moreover have "?t \<noteq> []" using u by force
  ultimately have "\<not> py_space (hd (strip s))"
    by (metis hd_dropWhile strip_def)
  with 1 show ?thesis by blast
qed

lemma strip_idem [simp]: "strip (strip s) = strip s"
  by (cases "strip s = []") (auto intro: strip_id dest: strip_ends)

lemma set_strip: "set (strip s) \<subseteq> set s"
  by (auto simp: strip_def dest!: set_dropWhileD)

section \<open>UTF-8\<close>

text \<open>
  Strict encoding and decoding, as \<open>str.encode("utf-8")\<close> and \<open>bytes.decode("utf-8")\<close>: no
  surrogates, no overlong forms, nothing above \<open>0x10FFFF\<close>.
\<close>

definition scalar :: "nat \<Rightarrow> bool" where
  "scalar c \<longleftrightarrow> c < 0xD800 \<or> (0xE000 \<le> c \<and> c < 0x110000)"

definition utf8_char :: "nat \<Rightarrow> bytes" where
  "utf8_char c =
     (if c < 0x80 then [byte_of c]
      else if c < 0x800 then [byte_of (0xC0 + c div 64), byte_of (0x80 + c mod 64)]
      else if c < 0x10000 then
        [byte_of (0xE0 + c div 4096), byte_of (0x80 + c div 64 mod 64), byte_of (0x80 + c mod 64)]
      else [byte_of (0xF0 + c div 262144), byte_of (0x80 + c div 4096 mod 64),
            byte_of (0x80 + c div 64 mod 64), byte_of (0x80 + c mod 64)])"

definition utf8_encode :: "ustr \<Rightarrow> bytes res" where
  "utf8_encode s = (if list_all scalar s then Inr (concat (map utf8_char s)) else Inl UnicodeEncodeError)"

definition cont :: "byte \<Rightarrow> bool" where
  "cont b \<longleftrightarrow> 0x80 \<le> unat b \<and> unat b < 0xC0"

text \<open>One code point off the front of a byte string: the code point and the rest.\<close>

definition utf8_step :: "bytes \<Rightarrow> (nat \<times> bytes) option" where
  "utf8_step bs =
     (case bs of [] \<Rightarrow> None
      | b0 # r0 \<Rightarrow>
        if unat b0 < 0x80 then Some (unat b0, r0)
        else (case r0 of [] \<Rightarrow> None
          | b1 # r1 \<Rightarrow>
            if \<not> cont b1 then None
            else if 0xC2 \<le> unat b0 \<and> unat b0 < 0xE0 then
              Some ((unat b0 - 0xC0) * 64 + (unat b1 - 0x80), r1)
            else (case r1 of [] \<Rightarrow> None
              | b2 # r2 \<Rightarrow>
                if \<not> cont b2 then None
                else if 0xE0 \<le> unat b0 \<and> unat b0 < 0xF0 then
                  (let c = (unat b0 - 0xE0) * 4096 + (unat b1 - 0x80) * 64 + (unat b2 - 0x80)
                   in if 0x800 \<le> c \<and> scalar c then Some (c, r2) else None)
                else (case r2 of [] \<Rightarrow> None
                  | b3 # r3 \<Rightarrow>
                    if \<not> cont b3 then None
                    else if 0xF0 \<le> unat b0 then
                      (let c = (unat b0 - 0xF0) * 262144 + (unat b1 - 0x80) * 4096
                             + (unat b2 - 0x80) * 64 + (unat b3 - 0x80)
                       in if 0x10000 \<le> c \<and> scalar c then Some (c, r3) else None)
                    else None))))"

lemma utf8_step_length: "utf8_step bs = Some (c, r) \<Longrightarrow> length r < length bs"
  by (auto simp: utf8_step_def Let_def split: list.splits if_splits)

function utf8_decode :: "bytes \<Rightarrow> ustr res" where
  "utf8_decode bs =
     (if bs = [] then Inr []
      else case utf8_step bs of None \<Rightarrow> Inl UnicodeDecodeError
        | Some (c, r) \<Rightarrow>
          (case utf8_decode r of Inl e \<Rightarrow> Inl e | Inr cs \<Rightarrow> Inr (c # cs)))"
  by pat_completeness auto
termination
  by (relation "measure length") (auto dest: utf8_step_length)

declare utf8_decode.simps [simp del]

lemma base64_digits:
  fixes c :: nat
  shows "c = c div 64 * 64 + c mod 64"
    and "c = c div 4096 * 4096 + c div 64 mod 64 * 64 + c mod 64"
    and "c = c div 262144 * 262144 + c div 4096 mod 64 * 4096 + c div 64 mod 64 * 64 + c mod 64"
proof -
  have d: "n = n div 64 * 64 + n mod 64" for n :: nat by simp
  have e: "c div 4096 = c div 64 div 64" "c div 262144 = c div 4096 div 64"
    by (simp_all add: div_mult2_eq [symmetric])
  show "c = c div 64 * 64 + c mod 64" by (rule d)
  show 2: "c = c div 4096 * 4096 + c div 64 mod 64 * 64 + c mod 64"
    using d [of c] d [of "c div 64"] unfolding e by linarith
  show "c = c div 262144 * 262144 + c div 4096 mod 64 * 4096 + c div 64 mod 64 * 64 + c mod 64"
    using 2 d [of "c div 4096"] unfolding e(2) by linarith
qed

lemma utf8_step_char:
  assumes "scalar c"
  shows "utf8_step (utf8_char c @ r) = Some (c, r)"
proof -
  consider "c < 0x80" | "0x80 \<le> c" "c < 0x800" | "0x800 \<le> c" "c < 0x10000" | "0x10000 \<le> c"
    by linarith
  then show ?thesis
  proof cases
    case 1
    then show ?thesis by (simp add: utf8_char_def utf8_step_def)
  next
    case 2
    define a b where ab: "a = c div 64" "b = c mod 64"
    have "a < 32" "2 \<le> a" "b < 64" "a * 64 + b = c"
      using 2 by (auto simp: ab)
    moreover have "utf8_char c = [byte_of (0xC0 + a), byte_of (0x80 + b)]"
      using 2 by (simp add: utf8_char_def ab)
    ultimately show ?thesis by (simp add: utf8_step_def cont_def)
  next
    case 3
    define a b d where abd: "a = c div 4096" "b = c div 64 mod 64" "d = c mod 64"
    have "a < 16" unfolding abd using 3 by (intro less_mult_imp_div_less) simp
    moreover have "b < 64" "d < 64" by (simp_all add: abd)
    moreover have "a * 4096 + b * 64 + d = c" unfolding abd by (rule base64_digits(2) [symmetric])
    moreover have "utf8_char c = [byte_of (0xE0 + a), byte_of (0x80 + b), byte_of (0x80 + d)]"
      using 3 by (simp add: utf8_char_def abd)
    ultimately show ?thesis using 3(1) assms by (simp add: utf8_step_def cont_def)
  next
    case 4
    define a b d f where abdf:
      "a = c div 262144" "b = c div 4096 mod 64" "d = c div 64 mod 64" "f = c mod 64"
    have "c < 0x110000" using 4 assms by (auto simp: scalar_def)
    then have "a < 5" unfolding abdf by (intro less_mult_imp_div_less) simp
    moreover have "b < 64" "d < 64" "f < 64" by (simp_all add: abdf)
    moreover have "a * 262144 + b * 4096 + d * 64 + f = c" unfolding abdf by (rule base64_digits(3) [symmetric])
    moreover have "utf8_char c
        = [byte_of (0xF0 + a), byte_of (0x80 + b), byte_of (0x80 + d), byte_of (0x80 + f)]"
      using 4 by (simp add: utf8_char_def abdf)
    ultimately show ?thesis using 4 assms by (simp add: utf8_step_def cont_def)
  qed
qed

lemma utf8_char_nonempty [simp]: "utf8_char c \<noteq> []"
  by (simp add: utf8_char_def)

lemma utf8_decode_encode: "list_all scalar s \<Longrightarrow> utf8_decode (concat (map utf8_char s)) = Inr s"
proof (induction s)
  case Nil
  show ?case by (simp add: utf8_decode.simps)
next
  case (Cons c s)
  then have "utf8_step (utf8_char c @ concat (map utf8_char s)) = Some (c, concat (map utf8_char s))"
    by (simp add: utf8_step_char)
  with Cons show ?case by (subst utf8_decode.simps) simp
qed

text \<open>The decoder is strict: it accepts nothing but what the encoder writes.\<close>

lemma byte_eqI: "unat b = n \<Longrightarrow> byte_of n = b"
  by auto

lemma digit64:
  fixes w n :: nat
  assumes "w < 64"
  shows "(w + 64 * n) mod 64 = w" "(w + 64 * n) div 64 = n"
  using assms by simp_all

lemma utf8_two_bytes:
  assumes "cont b1" and "0xC2 \<le> unat b0" and "unat b0 < 0xE0" and "c = (unat b0 - 0xC0) * 64 + (unat b1 - 0x80)"
  shows "scalar c \<and> utf8_char c = [b0, b1]"
proof -
  define x y where xy: "x = unat b0 - 0xC0" "y = unat b1 - 0x80"
  have "x < 32" "2 \<le> x" "y < 64" using assms by (auto simp: xy cont_def)
  then have "utf8_char c = [byte_of (0xC0 + x), byte_of (0x80 + y)]" and "scalar c"
    using assms by (auto simp: utf8_char_def scalar_def xy [symmetric])
  moreover have "byte_of (0xC0 + x) = b0" "byte_of (0x80 + y) = b1"
    using assms by (auto simp: xy cont_def intro!: byte_eqI)
  ultimately show ?thesis by simp
qed

lemma utf8_three_bytes:
  assumes "cont b1" and "cont b2" and "0xE0 \<le> unat b0" and "unat b0 < 0xF0" and "0x800 \<le> c"
    and "c = (unat b0 - 0xE0) * 4096 + (unat b1 - 0x80) * 64 + (unat b2 - 0x80)"
  shows "utf8_char c = [b0, b1, b2]"
proof -
  define x y z where xyz: "x = unat b0 - 0xE0" "y = unat b1 - 0x80" "z = unat b2 - 0x80"
  have b: "x < 16" "y < 64" "z < 64" using assms by (auto simp: xyz cont_def)
  have c: "c = x * 4096 + y * 64 + z" using assms by (simp add: xyz)
  have c': "c = z + 64 * (y + 64 * x)" using c by simp
  have "c div 4096 = c div 64 div 64" by (simp add: div_mult2_eq [symmetric])
  then have "c div 4096 = x" "c div 64 mod 64 = y" "c mod 64 = z"
    unfolding c' digit64 [OF b(3)] digit64 [OF b(2)] by simp_all
  moreover have "c < 0x10000" using b c by simp
  ultimately have "utf8_char c = [byte_of (0xE0 + x), byte_of (0x80 + y), byte_of (0x80 + z)]"
    using assms(5) by (simp add: utf8_char_def)
  moreover have "byte_of (0xE0 + x) = b0" "byte_of (0x80 + y) = b1" "byte_of (0x80 + z) = b2"
    using assms by (auto simp: xyz cont_def intro!: byte_eqI)
  ultimately show ?thesis by simp
qed

lemma utf8_four_bytes:
  assumes "cont b1" and "cont b2" and "cont b3" and "0xF0 \<le> unat b0" and "0x10000 \<le> c"
    and "c = (unat b0 - 0xF0) * 262144 + (unat b1 - 0x80) * 4096 + (unat b2 - 0x80) * 64 + (unat b3 - 0x80)"
  shows "utf8_char c = [b0, b1, b2, b3]"
proof -
  define x y z w where xyzw: "x = unat b0 - 0xF0" "y = unat b1 - 0x80" "z = unat b2 - 0x80" "w = unat b3 - 0x80"
  have b: "y < 64" "z < 64" "w < 64" using assms by (auto simp: xyzw cont_def)
  have c: "c = x * 262144 + y * 4096 + z * 64 + w" using assms by (simp add: xyzw)
  have c': "c = w + 64 * (z + 64 * (y + 64 * x))" using c by simp
  have "c div 4096 = c div 64 div 64" "c div 262144 = c div 64 div 64 div 64"
    by (simp_all add: div_mult2_eq [symmetric])
  then have "c div 262144 = x" "c div 4096 mod 64 = y" "c div 64 mod 64 = z" "c mod 64 = w"
    unfolding c' digit64 [OF b(3)] digit64 [OF b(2)] digit64 [OF b(1)] by simp_all
  then have "utf8_char c = [byte_of (0xF0 + x), byte_of (0x80 + y), byte_of (0x80 + z), byte_of (0x80 + w)]"
    using assms(5) by (simp add: utf8_char_def)
  moreover have "byte_of (0xF0 + x) = b0" "byte_of (0x80 + y) = b1" "byte_of (0x80 + z) = b2" "byte_of (0x80 + w) = b3"
    using assms by (auto simp: xyzw cont_def intro!: byte_eqI)
  ultimately show ?thesis by simp
qed

lemma utf8_step_inverse:
  assumes "utf8_step bs = Some (c, r)"
  shows "scalar c \<and> bs = utf8_char c @ r"
proof -
  consider (one) b0 where "bs = b0 # r" "unat b0 < 0x80" "c = unat b0"
    | (two) b0 b1 where "bs = b0 # b1 # r" "cont b1" "0xC2 \<le> unat b0" "unat b0 < 0xE0"
        "c = (unat b0 - 0xC0) * 64 + (unat b1 - 0x80)"
    | (three) b0 b1 b2 where "bs = b0 # b1 # b2 # r" "cont b1" "cont b2" "0xE0 \<le> unat b0" "unat b0 < 0xF0" "0x800 \<le> c"
        "c = (unat b0 - 0xE0) * 4096 + (unat b1 - 0x80) * 64 + (unat b2 - 0x80)" "scalar c"
    | (four) b0 b1 b2 b3 where "bs = b0 # b1 # b2 # b3 # r" "cont b1" "cont b2" "cont b3" "0xF0 \<le> unat b0" "0x10000 \<le> c"
        "c = (unat b0 - 0xF0) * 262144 + (unat b1 - 0x80) * 4096 + (unat b2 - 0x80) * 64 + (unat b3 - 0x80)" "scalar c"
    using assms by (auto simp: utf8_step_def Let_def split: list.splits if_splits)
  then show ?thesis
  proof cases
    case one
    then show ?thesis by (simp add: utf8_char_def scalar_def)
  next
    case two
    with utf8_two_bytes [OF two(2-5)] show ?thesis by simp
  next
    case three
    with utf8_three_bytes [OF three(2-7)] show ?thesis by simp
  next
    case four
    with utf8_four_bytes [OF four(2-7)] show ?thesis by simp
  qed
qed

lemma utf8_decode_inverse:
  "utf8_decode bs = Inr s \<Longrightarrow> list_all scalar s \<and> bs = concat (map utf8_char s)"
proof (induction bs arbitrary: s rule: utf8_decode.induct)
  case (1 bs)
  show ?case
  proof (cases "bs = []")
    case True
    with "1.prems" show ?thesis by (simp add: utf8_decode.simps)
  next
    case False
    with "1.prems" obtain c r cs where st: "utf8_step bs = Some (c, r)"
      and r: "utf8_decode r = Inr cs" and s: "s = c # cs"
      by (subst (asm) utf8_decode.simps) (auto split: option.splits sum.splits)
    from "1.IH" [OF False st refl r] utf8_step_inverse [OF st] show ?thesis by (simp add: s)
  qed
qed

interpretation utf8: codec "list_all scalar" utf8_encode utf8_decode
  by unfold_locales (auto simp: utf8_encode_def utf8_decode_encode)

lemma utf8_decode_errors: "utf8_decode bs = Inl e \<Longrightarrow> e = UnicodeDecodeError"
  by (induction bs rule: utf8_decode.induct)
    (subst (asm) utf8_decode.simps, auto split: if_splits option.splits sum.splits)

text \<open>ASCII text is its own encoding.\<close>

lemma utf8_encode_ascii: "ascii s \<Longrightarrow> utf8_encode s = Inr (map byte_of s)"
proof (induction s)
  case (Cons c s)
  then have "ascii s" and "c < 128" by (auto simp: ascii_def)
  with Cons.IH show ?case
    by (auto simp: utf8_encode_def utf8_char_def scalar_def split: if_splits)
qed (simp add: utf8_encode_def)

section \<open>Decimal numbers\<close>

fun str_nat :: "nat \<Rightarrow> ustr" where
  "str_nat n = (if n < 10 then [48 + n] else str_nat (n div 10) @ [48 + n mod 10])"

declare str_nat.simps [simp del]

definition str_int :: "int \<Rightarrow> ustr" where
  "str_int i = (if i < 0 then 45 # str_nat (nat (- i)) else str_nat (nat i))"

definition digit :: "nat \<Rightarrow> bool" where
  "digit c \<longleftrightarrow> 48 \<le> c \<and> c \<le> 57"

definition dec_val :: "ustr \<Rightarrow> nat" where
  "dec_val ds = foldl (\<lambda>n c. 10 * n + (c - 48)) 0 ds"

lemma str_nat_digits: "\<forall>c \<in> set (str_nat n). digit c"
  by (induction n rule: str_nat.induct) (subst str_nat.simps, auto simp: digit_def)

lemma str_nat_nonempty [simp]: "str_nat n \<noteq> []"
  by (subst str_nat.simps) simp

lemma dec_val_str_nat [simp]: "dec_val (str_nat n) = n"
proof (induction n rule: str_nat.induct)
  case (1 n)
  show ?case
  proof (cases "n < 10")
    case True
    then show ?thesis by (subst str_nat.simps) (simp add: dec_val_def)
  next
    case False
    with 1 have "dec_val (str_nat (n div 10)) = n div 10" by simp
    with False show ?thesis by (subst str_nat.simps) (simp add: dec_val_def)
  qed
qed

text \<open>
  \<open>int(s)\<close>: surrounding white space, one optional sign, decimal digits with single
  underscores between them. Digits are ASCII here; Python also accepts the other decimal
  digits of Unicode.
\<close>

fun int_digits :: "bool \<Rightarrow> ustr \<Rightarrow> ustr option" where
  \<comment> \<open>the flag: the previous character was a digit\<close>
  "int_digits prev [] = (if prev then Some [] else None)"
| "int_digits prev (c # s) =
     (if digit c then map_option (Cons c) (int_digits True s)
      else if c = 95 \<and> prev then int_digits False s
      else None)"

definition int_of_str :: "ustr \<Rightarrow> int res" where
  "int_of_str s =
     (let t = strip s;
          (neg, u) = (case t of [] \<Rightarrow> (False, [])
            | c # r \<Rightarrow> if c = 45 then (True, r) else if c = 43 then (False, r) else (False, t))
      in case int_digits False u of
           None \<Rightarrow> Inl (ValueError (U ''invalid literal for int() with base 10''))
         | Some ds \<Rightarrow> Inr (if neg then - int (dec_val ds) else int (dec_val ds)))"

lemma int_digits_id: "list_all digit s \<Longrightarrow> s \<noteq> [] \<or> prev \<Longrightarrow> int_digits prev s = Some s"
  by (induction s arbitrary: prev) auto

lemma digit_not_space: "digit c \<Longrightarrow> \<not> py_space c"
  by (auto simp: digit_def py_space_def)

lemma int_of_str_int [simp]: "int_of_str (str_int i) = Inr i"
proof -
  have d: "list_all digit (str_nat n)" for n
    using str_nat_digits by (simp add: list_all_iff)
  have ends: "digit (hd (str_nat n))" "digit (last (str_nat n))" for n
    using str_nat_digits [of n] by simp_all
  have s1: "strip (str_nat n) = str_nat n" for n
    by (rule strip_id) (simp_all add: ends digit_not_space)
  have s2: "strip (45 # str_nat n) = 45 # str_nat n" for n
    by (rule strip_id) (simp_all add: ends digit_not_space, simp add: py_space_def)
  have hd: "\<exists>c r. str_nat n = c # r \<and> c \<noteq> 45 \<and> c \<noteq> 43" for n
    using ends(1) [of n] by (cases "str_nat n") (auto simp: digit_def)
  show ?thesis
  proof (cases "i < 0")
    case True
    then show ?thesis
      by (simp add: str_int_def int_of_str_def s2 int_digits_id d)
  next
    case False
    from hd [of "nat i"] obtain c r where cr: "str_nat (nat i) = c # r" "c \<noteq> 45" "c \<noteq> 43"
      by blast
    have "strip (c # r) = c # r" using s1 [of "nat i"] by (simp add: cr)
    moreover have "int_digits False (c # r) = Some (c # r)"
      using d [of "nat i"] by (simp add: int_digits_id cr)
    moreover have "dec_val (c # r) = nat i"
      using dec_val_str_nat [of "nat i"] by (simp add: cr)
    ultimately show ?thesis using False cr
      by (simp add: str_int_def int_of_str_def)
  qed
qed

lemma str_int_inj [simp]: "str_int i = str_int j \<longleftrightarrow> i = j"
  by (metis int_of_str_int sum.inject(2))

section \<open>Hexadecimal\<close>

definition hex_digit :: "nat \<Rightarrow> nat" where
  "hex_digit n = (if n < 10 then 48 + n else 87 + n)"

definition bytes_hex :: "bytes \<Rightarrow> ustr" where
  "bytes_hex bs = concat (map (\<lambda>b. [hex_digit (unat b div 16), hex_digit (unat b mod 16)]) bs)"

definition hex_val :: "nat \<Rightarrow> nat option" where
  "hex_val c = (if 48 \<le> c \<and> c \<le> 57 then Some (c - 48)
     else if 97 \<le> c \<and> c \<le> 102 then Some (c - 87)
     else if 65 \<le> c \<and> c \<le> 70 then Some (c - 55) else None)"

definition ascii_space :: "nat \<Rightarrow> bool" where
  "ascii_space c \<longleftrightarrow> (9 \<le> c \<and> c \<le> 13) \<or> c = 32"

text \<open>\<open>bytes.fromhex\<close> skips ASCII white space between (not inside) byte pairs.\<close>

fun bytes_fromhex :: "ustr \<Rightarrow> bytes res" where
  "bytes_fromhex [] = Inr []"
| "bytes_fromhex [c] =
     (if ascii_space c then Inr [] else Inl (ValueError (U ''non-hexadecimal number found in fromhex() arg'')))"
| "bytes_fromhex (c # d # s) =
     (if ascii_space c then bytes_fromhex (d # s)
      else case (hex_val c, hex_val d) of
          (Some x, Some y) \<Rightarrow>
            (case bytes_fromhex s of Inl e \<Rightarrow> Inl e | Inr bs \<Rightarrow> Inr (byte_of (16 * x + y) # bs))
        | _ \<Rightarrow> Inl (ValueError (U ''non-hexadecimal number found in fromhex() arg'')))"

lemma hex_val_digit: "n < 16 \<Longrightarrow> hex_val (hex_digit n) = Some n"
  by (auto simp: hex_val_def hex_digit_def)

lemma hex_digit_not_space: "n < 16 \<Longrightarrow> \<not> ascii_space (hex_digit n)"
  by (auto simp: ascii_space_def hex_digit_def)

lemma fromhex_hex: "bytes_fromhex (bytes_hex bs) = Inr bs"
proof (induction bs)
  case (Cons b bs)
  have "unat b div 16 < 16" by (rule less_mult_imp_div_less) simp
  moreover have "unat b mod 16 < 16" by simp
  moreover have "byte_of (16 * (unat b div 16) + unat b mod 16) = b" by simp
  ultimately show ?case using Cons
    by (simp add: bytes_hex_def hex_val_digit hex_digit_not_space)
qed (simp add: bytes_hex_def)

interpretation hex: codec "\<lambda>_. True" "\<lambda>bs. Inr (bytes_hex bs) :: exn + ustr" bytes_fromhex
  by unfold_locales (simp add: fromhex_hex)

lemma length_bytes_hex: "length (bytes_hex bs) = 2 * length bs"
  by (induction bs) (auto simp: bytes_hex_def)

lemma bytes_fromhex_errors: "bytes_fromhex s = Inl e \<Longrightarrow> is_ValueError e"
  by (induction s rule: bytes_fromhex.induct) (auto split: if_splits option.splits sum.splits)

section \<open>Big-endian integers\<close>

text \<open>\<open>int.to_bytes(n, "big")\<close> and \<open>int.from_bytes(bs, "big")\<close>\<close>

fun be_bytes :: "nat \<Rightarrow> nat \<Rightarrow> bytes" where
  "be_bytes 0 v = []"
| "be_bytes (Suc n) v = be_bytes n (v div 256) @ [byte_of (v mod 256)]"

definition to_bytes_big :: "nat \<Rightarrow> nat \<Rightarrow> bytes res" where
  "to_bytes_big n v = (if v < 256 ^ n then Inr (be_bytes n v) else Inl OverflowError)"

definition from_bytes_big :: "bytes \<Rightarrow> nat" where
  "from_bytes_big bs = foldl (\<lambda>n b. 256 * n + unat b) 0 bs"

lemma length_be_bytes [simp]: "length (be_bytes n v) = n"
  by (induction n arbitrary: v) auto

lemma from_be_bytes [simp]: "v < 256 ^ n \<Longrightarrow> from_bytes_big (be_bytes n v) = v"
proof (induction n arbitrary: v)
  case (Suc n)
  then have "v div 256 < 256 ^ n" by (simp add: less_mult_imp_div_less)
  then show ?case using Suc.IH by (simp add: from_bytes_big_def)
qed (simp add: from_bytes_big_def)

lemma from_bytes_big_bound: "from_bytes_big bs < 256 ^ length bs"
proof (induction bs rule: rev_induct)
  case (snoc b bs)
  have "unat b < 256" by (rule unat_byte_lt)
  then have "256 * from_bytes_big bs + unat b < 256 * (from_bytes_big bs + 1)" by simp
  also have "\<dots> \<le> 256 * 256 ^ length bs"
    using snoc by (intro mult_le_mono2) simp
  finally show ?case by (simp add: from_bytes_big_def)
qed (simp add: from_bytes_big_def)

end
