(* ===== verification/Cbor.thy ===== *)
theory Cbor
  imports Text
begin

unbundle bit_operations_syntax

text \<open>
  The CBOR codec of \<open>enclave/attestation.py\<close>: \<open>_cbor_encode\<close>, \<open>_encode_length\<close>, the class
  \<open>_CBORDecoder\<close> and \<open>_cbor_decode\<close>. The decoder object's state is the pair of its buffer
  and its offset; every method takes both and returns the new offset. The lemmas show that
  the encoder's output is read back as the value it came from, from any position of a longer
  buffer, that the offset only grows and never passes the end, and which exceptions the
  decoder can raise.
\<close>

section \<open>Values\<close>

text \<open>
  The Python objects that reach the codec. \<open>COther\<close> is an object of any type the encoder
  does not support. A dictionary keeps its insertion order.
\<close>

datatype cbor =
    CBool bool
  | CNone
  | CInt int
  | CBytes bytes
  | CStr ustr
  | CList "cbor list"
  | CDict "(cbor \<times> cbor) list"
  | COther

text \<open>
  Dictionary keys: lists and dictionaries are not hashable, and \<open>True\<close> and \<open>False\<close> are
  equal to \<open>1\<close> and \<open>0\<close>. Assigning to an existing key keeps the key object and its place.
\<close>

fun hashable :: "cbor \<Rightarrow> bool" where
  "hashable (CList _) = False"
| "hashable (CDict _) = False"
| "hashable _ = True"

fun key_id :: "cbor \<Rightarrow> cbor" where
  "key_id (CBool b) = CInt (if b then 1 else 0)"
| "key_id k = k"

fun dict_set :: "(cbor \<times> cbor) list \<Rightarrow> cbor \<Rightarrow> cbor \<Rightarrow> (cbor \<times> cbor) list" where
  "dict_set [] k v = [(k, v)]"
| "dict_set ((k', v') # d) k v =
     (if key_id k' = key_id k then (k', v) # d else (k', v') # dict_set d k v)"

fun dict_get :: "(cbor \<times> cbor) list \<Rightarrow> cbor \<Rightarrow> cbor option" where
  "dict_get [] k = None"
| "dict_get ((k', v) # d) k = (if key_id k' = key_id k then Some v else dict_get d k)"

section \<open>Encoder\<close>

definition encode_length :: "nat \<Rightarrow> nat \<Rightarrow> bytes res" where
  "encode_length major value =
     (if value < 24 then Inr [byte_of (push_bit 5 major OR value)]
      else if value < 2 ^ 8 then Inr [byte_of (push_bit 5 major OR 24), byte_of value]
      else if value < 2 ^ 16 then
        (case to_bytes_big 2 value of Inl e \<Rightarrow> Inl e
         | Inr bs \<Rightarrow> Inr (byte_of (push_bit 5 major OR 25) # bs))
      else if value < 2 ^ 32 then
        (case to_bytes_big 4 value of Inl e \<Rightarrow> Inl e
         | Inr bs \<Rightarrow> Inr (byte_of (push_bit 5 major OR 26) # bs))
      else
        (case to_bytes_big 8 value of Inl e \<Rightarrow> Inl e
         | Inr bs \<Rightarrow> Inr (byte_of (push_bit 5 major OR 27) # bs)))"

definition encode_sized :: "nat \<Rightarrow> nat \<Rightarrow> bytes \<Rightarrow> bytes res" where
  \<comment> \<open>\<open>_encode_length(major, n) + body\<close>\<close>
  "encode_sized major n body =
     (case encode_length major n of Inl e \<Rightarrow> Inl e | Inr h \<Rightarrow> Inr (h @ body))"

fun cbor_encode :: "cbor \<Rightarrow> bytes res" where
  "cbor_encode (CBool b) = Inr [if b then 0xf5 else 0xf4]"
| "cbor_encode CNone = Inr [0xf6]"
| "cbor_encode (CInt i) =
     (if 0 \<le> i then encode_length 0 (nat i) else encode_length 1 (nat (-1 - i)))"
| "cbor_encode (CBytes bs) = encode_sized 2 (length bs) bs"
| "cbor_encode (CStr s) =
     (case utf8_encode s of Inl e \<Rightarrow> Inl e | Inr bs \<Rightarrow> encode_sized 3 (length bs) bs)"
| "cbor_encode (CList xs) =
     (case encode_length 4 (length xs) of Inl e \<Rightarrow> Inl e
      | Inr h \<Rightarrow> (case mapR cbor_encode xs of Inl e \<Rightarrow> Inl e | Inr bss \<Rightarrow> Inr (h @ concat bss)))"
| "cbor_encode (CDict d) =
     (case mapR (\<lambda>(k, v). case cbor_encode k of Inl e \<Rightarrow> Inl e
                  | Inr kb \<Rightarrow> (case cbor_encode v of Inl e \<Rightarrow> Inl e | Inr vb \<Rightarrow> Inr (kb @ vb))) d of
        Inl e \<Rightarrow> Inl e
      | Inr bss \<Rightarrow> encode_sized 5 (length d) (concat bss))"
| "cbor_encode COther = Inl (AttestationError (U ''Unsupported CBOR value type''))"

section \<open>Decoder\<close>

definition eof_error :: exn where
  "eof_error = AttestationError (U ''Unexpected end of CBOR data.'')"

definition read_bytes :: "bytes \<Rightarrow> nat \<Rightarrow> nat \<Rightarrow> (bytes \<times> nat) res" where
  "read_bytes data off n =
     (if off + n > length data then Inl eof_error else Inr (take n (drop off data), off + n))"

definition read_uint :: "bytes \<Rightarrow> nat \<Rightarrow> nat \<Rightarrow> (nat \<times> nat) res" where
  \<comment> \<open>\<open>int.from_bytes(self._read(n), "big")\<close>\<close>
  "read_uint data off n =
     (case read_bytes data off n of Inl e \<Rightarrow> Inl e | Inr (bs, off') \<Rightarrow> Inr (from_bytes_big bs, off'))"

definition read_length :: "bytes \<Rightarrow> nat \<Rightarrow> nat \<Rightarrow> (nat \<times> nat) res" where
  "read_length data off info =
     (if info < 24 then Inr (info, off)
      else if info = 24 then read_uint data off 1
      else if info = 25 then read_uint data off 2
      else if info = 26 then read_uint data off 4
      else if info = 27 then read_uint data off 8
      else Inl (AttestationError (U ''Indefinite-length CBOR items are not supported.'')))"

text \<open>
  The two loops of \<open>decode\<close>, over the recursive call \<open>dec\<close>: the list comprehension of an
  array and the loop of a map. A map entry decodes its key, then its value, and only then
  hashes the key.
\<close>

fun decode_items :: "(nat \<Rightarrow> (cbor \<times> nat) res) \<Rightarrow> nat \<Rightarrow> nat \<Rightarrow> (cbor list \<times> nat) res" where
  "decode_items dec 0 off = Inr ([], off)"
| "decode_items dec (Suc n) off =
     (case dec off of Inl e \<Rightarrow> Inl e
      | Inr (x, off1) \<Rightarrow>
        (case decode_items dec n off1 of Inl e \<Rightarrow> Inl e
         | Inr (xs, off2) \<Rightarrow> Inr (x # xs, off2)))"

fun decode_entries :: "(nat \<Rightarrow> (cbor \<times> nat) res) \<Rightarrow> nat \<Rightarrow> (cbor \<times> cbor) list \<Rightarrow> nat
    \<Rightarrow> ((cbor \<times> cbor) list \<times> nat) res" where
  "decode_entries dec 0 m off = Inr (m, off)"
| "decode_entries dec (Suc n) m off =
     (case dec off of Inl e \<Rightarrow> Inl e
      | Inr (k, off1) \<Rightarrow>
        (case dec off1 of Inl e \<Rightarrow> Inl e
         | Inr (v, off2) \<Rightarrow>
           if hashable k then decode_entries dec n (dict_set m k v) off2 else Inl TypeError))"

text \<open>
  The branches of \<open>decode\<close> on the major type, after the initial byte; \<open>dec\<close> is the
  recursive call. The last line of the source, an unsupported major type, cannot be reached
  with a three-bit major type; it is kept.
\<close>

definition decode_item :: "(nat \<Rightarrow> (cbor \<times> nat) res) \<Rightarrow> bytes \<Rightarrow> nat \<Rightarrow> nat \<Rightarrow> nat \<Rightarrow> (cbor \<times> nat) res" where
  "decode_item dec data major_type info off =
     (if major_type = 0 \<or> major_type = 1 then
        (case read_length data off info of Inl e \<Rightarrow> Inl e
         | Inr (value, off2) \<Rightarrow>
           Inr (CInt (if major_type = 0 then int value else -1 - int value), off2))
      else if major_type = 2 then
        (case read_length data off info of Inl e \<Rightarrow> Inl e
         | Inr (n, off2) \<Rightarrow>
           (case read_bytes data off2 n of Inl e \<Rightarrow> Inl e
            | Inr (bs, off3) \<Rightarrow> Inr (CBytes bs, off3)))
      else if major_type = 3 then
        (case read_length data off info of Inl e \<Rightarrow> Inl e
         | Inr (n, off2) \<Rightarrow>
           (case read_bytes data off2 n of Inl e \<Rightarrow> Inl e
            | Inr (bs, off3) \<Rightarrow>
              (case utf8_decode bs of Inl e \<Rightarrow> Inl e | Inr s \<Rightarrow> Inr (CStr s, off3))))
      else if major_type = 4 then
        (case read_length data off info of Inl e \<Rightarrow> Inl e
         | Inr (n, off2) \<Rightarrow>
           (case decode_items dec n off2 of Inl e \<Rightarrow> Inl e
            | Inr (xs, off3) \<Rightarrow> Inr (CList xs, off3)))
      else if major_type = 5 then
        (case read_length data off info of Inl e \<Rightarrow> Inl e
         | Inr (n, off2) \<Rightarrow>
           (case decode_entries dec n [] off2 of Inl e \<Rightarrow> Inl e
            | Inr (m, off3) \<Rightarrow> Inr (CDict m, off3)))
      else if major_type = 6 then
        (case read_length data off info of Inl e \<Rightarrow> Inl e
         | Inr (_, off2) \<Rightarrow> dec off2)
      else if major_type = 7 then
        (if info = 20 then Inr (CBool False, off)
         else if info = 21 then Inr (CBool True, off)
         else if info = 22 then Inr (CNone, off)
         else Inl (AttestationError (U ''Unsupported simple CBOR value.'')))
      else Inl (AttestationError (U ''Unsupported CBOR major type.'')))"

text \<open>
  \<open>decode\<close>. Its first argument is the interpreter's remaining recursion depth: a nested
  call with none left is Python's \<open>RecursionError\<close>.
\<close>

fun decode :: "nat \<Rightarrow> bytes \<Rightarrow> nat \<Rightarrow> (cbor \<times> nat) res" where
  "decode 0 data off = Inl RecursionError"
| "decode (Suc depth) data off =
     (if off \<ge> length data then Inl eof_error
      else case read_bytes data off 1 of Inl e \<Rightarrow> Inl e
      | Inr (ib, off1) \<Rightarrow>
        (let initial_byte = unat (hd ib)
         in decode_item (decode depth data) data
              (drop_bit 5 initial_byte) (initial_byte AND 0x1F) off1))"

declare decode.simps(2) [simp del]

definition cbor_decode :: "nat \<Rightarrow> bytes \<Rightarrow> cbor res" where
  "cbor_decode depth data =
     (case decode depth data 0 of Inl e \<Rightarrow> Inl e
      | Inr (value, off) \<Rightarrow>
        if off \<noteq> length data
        then Inl (AttestationError (U ''Trailing bytes remain after CBOR decoding.''))
        else Inr value)"

section \<open>The head of an item\<close>

lemma head_byte:
  assumes "m < 8" and "v < 32"
  shows "push_bit 5 m OR v = 32 * m + (v :: nat)"
    and "drop_bit 5 (32 * m + v) = m" and "(32 * m + v) AND 0x1F = v"
proof -
  have v: "v = take_bit 5 v" using assms(2) by (simp add: take_bit_nat_eq_self)
  have "push_bit 5 m AND take_bit 5 v = 0"
    by (rule bit_eqI) (auto simp: bit_simps)
  then have "push_bit 5 m OR v = push_bit 5 m + v"
    using v by (metis disjunctive_add_eq_or)
  then show "push_bit 5 m OR v = 32 * m + v" by (simp add: push_bit_eq_mult)
  show "drop_bit 5 (32 * m + v) = m" using assms(2) by (simp add: drop_bit_eq_div)
  have "(32 * m + v) AND mask 5 = v"
    using assms(2) by (simp add: take_bit_eq_mask [symmetric] take_bit_eq_mod)
  then show "(32 * m + v) AND 0x1F = v" by (simp add: mask_eq_exp_minus_1)
qed

lemma read_bytes_at:
  "read_bytes (pre @ bs @ rest) (length pre) (length bs) = Inr (bs, length pre + length bs)"
  by (simp add: read_bytes_def)

text \<open>
  \<open>sized_head\<close>: the bytes \<open>h\<close> are a head for major type \<open>m\<close> with argument \<open>v\<close>, whatever
  surrounds them.
\<close>

definition sized_head :: "nat \<Rightarrow> nat \<Rightarrow> bytes \<Rightarrow> bool" where
  "sized_head m v h \<longleftrightarrow> (\<exists>b t. h = b # t \<and> drop_bit 5 (unat b) = m \<and>
     (\<forall>pre rest. read_length (pre @ h @ rest) (Suc (length pre)) (unat b AND 0x1F)
                   = Inr (v, length pre + length h)))"

lemma long_head:
  assumes m: "m < 8" and i: "(i, n) \<in> {(24, 1), (25, 2), (26, 4), (27, 8)}" and vn: "v < 256 ^ n"
  shows "\<exists>h. Inr (byte_of (push_bit 5 m OR i) # be_bytes n v) = Inr h \<and> sized_head m v h"
proof -
  let ?b = "byte_of (32 * m + i)"
  from i have i32: "i < 32" "24 \<le> i" by auto
  then have ub: "unat ?b = 32 * m + i" using m by simp
  have rd: "read_uint (pre @ (?b # be_bytes n v) @ rest) (Suc (length pre)) n
      = Inr (v, length pre + length (?b # be_bytes n v))" for pre rest
    using read_bytes_at [of "pre @ [?b]" "be_bytes n v" rest] vn
    by (simp add: read_uint_def)
  have "sized_head m v (?b # be_bytes n v)"
    unfolding sized_head_def
  proof (intro exI conjI allI)
    show "drop_bit 5 (unat ?b) = m" unfolding ub by (rule head_byte(2) [OF m i32(1)])
    fix pre rest
    have "unat ?b AND 0x1F = i" unfolding ub by (rule head_byte(3) [OF m i32(1)])
    then show "read_length (pre @ (?b # be_bytes n v) @ rest) (Suc (length pre)) (unat ?b AND 0x1F)
        = Inr (v, length pre + length (?b # be_bytes n v))"
      using i rd [of pre rest] by (auto simp: read_length_def)
  qed simp
  then show ?thesis using head_byte(1) [OF m i32(1)] by simp
qed

lemma encode_length_head:
  assumes m: "m < 8" and v: "v < 2 ^ 64"
  shows "\<exists>h. encode_length m v = Inr h \<and> sized_head m v h"
proof -
  note long = long_head [OF m, where v = v]
  consider "v < 24" | "24 \<le> v" "v < 2 ^ 8" | "2 ^ 8 \<le> v" "v < 2 ^ 16"
    | "2 ^ 16 \<le> v" "v < 2 ^ 32" | "2 ^ 32 \<le> v"
    by linarith
  then show ?thesis
  proof cases
    case 1
    then have ub: "unat (byte_of (32 * m + v)) = 32 * m + v" using m by simp
    have "sized_head m v [byte_of (32 * m + v)]"
      using 1 head_byte(2,3) [OF m, of v] by (simp add: sized_head_def ub read_length_def)
    with 1 show ?thesis by (simp add: encode_length_def head_byte(1) [OF m])
  next
    case 2
    then show ?thesis using long [of 24 1] by (simp add: encode_length_def)
  next
    case 3
    then show ?thesis using long [of 25 2] by (simp add: encode_length_def to_bytes_big_def)
  next
    case 4
    then show ?thesis using long [of 26 4] by (simp add: encode_length_def to_bytes_big_def)
  next
    case 5
    then show ?thesis using v long [of 27 8] by (simp add: encode_length_def to_bytes_big_def)
  qed
qed

section \<open>Round trip\<close>

text \<open>
  The values the encoder can represent: integers of at most 64 bits in sign and magnitude,
  encodable strings, lengths of at most 64 bits, and dictionaries whose keys are hashable
  and pairwise different. \<open>cbor_depth\<close> counts the nested \<open>decode\<close> calls.
\<close>

fun cbor_wf :: "cbor \<Rightarrow> bool" where
  "cbor_wf (CBool b) = True"
| "cbor_wf CNone = True"
| "cbor_wf (CInt i) = (- (2 ^ 64) \<le> i \<and> i < 2 ^ 64)"
| "cbor_wf (CBytes bs) = (length bs < 2 ^ 64)"
| "cbor_wf (CStr s) = (list_all scalar s \<and> length (concat (map utf8_char s)) < 2 ^ 64)"
| "cbor_wf (CList xs) = (length xs < 2 ^ 64 \<and> list_all cbor_wf xs)"
| "cbor_wf (CDict d) = (length d < 2 ^ 64 \<and> distinct (map (\<lambda>p. key_id (fst p)) d)
     \<and> list_all (\<lambda>(k, v). hashable k \<and> cbor_wf k \<and> cbor_wf v) d)"
| "cbor_wf COther = False"

fun cbor_depth :: "cbor \<Rightarrow> nat" where
  "cbor_depth (CList xs) = Suc (foldr (\<lambda>x n. max (cbor_depth x) n) xs 0)"
| "cbor_depth (CDict d) = Suc (foldr (\<lambda>(k, v) n. max (max (cbor_depth k) (cbor_depth v)) n) d 0)"
| "cbor_depth _ = 1"

lemma depth_list: "x \<in> set xs \<Longrightarrow> cbor_depth x \<le> foldr (\<lambda>x n. max (cbor_depth x) n) xs 0"
  by (induction xs) (auto simp: le_max_iff_disj)

lemma depth_dict: "(k, v) \<in> set d \<Longrightarrow>
   max (cbor_depth k) (cbor_depth v)
     \<le> foldr (\<lambda>(k, v) n. max (max (cbor_depth k) (cbor_depth v)) n) d 0"
  by (induction d) (auto simp: le_max_iff_disj)

definition decodes_to :: "nat \<Rightarrow> cbor \<Rightarrow> bytes \<Rightarrow> bool" where
  "decodes_to d v bs \<longleftrightarrow>
     (\<forall>pre rest. decode d (pre @ bs @ rest) (length pre) = Inr (v, length pre + length bs))"

lemma decode_items_ok:
  "list_all2 (decodes_to d) xs bss \<Longrightarrow>
   decode_items (decode d (pre @ concat bss @ rest)) (length xs) (length pre)
     = Inr (xs, length pre + length (concat bss))"
proof (induction xs bss arbitrary: pre rule: list_all2_induct)
  case (Cons x xs bs bss)
  have "decode d (pre @ bs @ concat bss @ rest) (length pre) = Inr (x, length pre + length bs)"
    using Cons(1) by (simp add: decodes_to_def)
  moreover have "decode_items (decode d (pre @ bs @ concat bss @ rest)) (length xs) (length pre + length bs)
     = Inr (xs, length pre + length bs + length (concat bss))"
    using Cons.IH [of "pre @ bs"] by simp
  ultimately show ?case by simp
qed simp

lemma dict_set_new: "key_id k \<notin> (\<lambda>p. key_id (fst p)) ` set m \<Longrightarrow> dict_set m k v = m @ [(k, v)]"
  by (induction m) auto

lemma decode_entries_ok:
  "list_all2 (\<lambda>(k, v) bs. hashable k \<and> (\<exists>kb vb. bs = kb @ vb \<and> decodes_to d k kb \<and> decodes_to d v vb)) es bss
   \<Longrightarrow> distinct (map (\<lambda>p. key_id (fst p)) (m @ es)) \<Longrightarrow>
   decode_entries (decode d (pre @ concat bss @ rest)) (length es) m (length pre)
     = Inr (m @ es, length pre + length (concat bss))"
proof (induction es bss arbitrary: pre m rule: list_all2_induct)
  case (Cons e es bs bss)
  obtain k v where e: "e = (k, v)" by (cases e)
  with Cons(1) obtain kb vb where bs: "bs = kb @ vb" and k: "hashable k"
    and dk: "decodes_to d k kb" and dv: "decodes_to d v vb" by auto
  let ?data = "pre @ concat (bs # bss) @ rest"
  have 1: "decode d ?data (length pre) = Inr (k, length pre + length kb)"
    using dk by (simp add: decodes_to_def bs)
  have "decode d ((pre @ kb) @ vb @ concat bss @ rest) (length (pre @ kb))
      = Inr (v, length (pre @ kb) + length vb)"
    using dv unfolding decodes_to_def by blast
  then have 2: "decode d ?data (length pre + length kb) = Inr (v, length pre + length bs)"
    by (simp add: bs)
  have 3: "dict_set m k v = m @ [e]"
    using Cons.prems by (auto simp: e intro!: dict_set_new)
  have 4: "decode_entries (decode d ?data) (length es) (m @ [e]) (length pre + length bs)
      = Inr (m @ e # es, length pre + length bs + length (concat bss))"
    using Cons.IH [of "m @ [e]" "pre @ bs"] Cons.prems by simp
  show ?case using 1 2 3 4 k by (simp add: e add.assoc)
qed simp

text \<open>Decoding past a head: what is left is the body for that major type.\<close>

lemma decode_head:
  assumes "sized_head m v h"
  shows "\<exists>info off. decode (Suc d) (pre @ h @ rest) (length pre)
      = decode_item (decode d (pre @ h @ rest)) (pre @ h @ rest) m info off
    \<and> read_length (pre @ h @ rest) off info = Inr (v, length pre + length h)"
proof -
  from assms obtain b t where h: "h = b # t" and m: "drop_bit 5 (unat b) = m"
    and rl: "read_length (pre @ h @ rest) (Suc (length pre)) (unat b AND 0x1F)
       = Inr (v, length pre + length h)"
    by (auto simp: sized_head_def)
  have rb: "read_bytes (pre @ h @ rest) (length pre) 1 = Inr ([b], Suc (length pre))"
    using read_bytes_at [of pre "[b]" "t @ rest"] by (simp add: h)
  show ?thesis
    using rl rb by (subst decode.simps(2)) (auto simp: m h simp del: One_nat_def)
qed

lemma decode_simple:
  "decodes_to (Suc d) (CBool False) [0xf4]"
  "decodes_to (Suc d) (CBool True) [0xf5]"
  "decodes_to (Suc d) CNone [0xf6]"
proof -
  have rb: "read_bytes (pre @ [b] @ rest) (length pre) 1 = Inr ([b], Suc (length pre))" for pre b rest
    using read_bytes_at [of pre "[b]" rest] by simp
  show "decodes_to (Suc d) (CBool False) [0xf4]"
    "decodes_to (Suc d) (CBool True) [0xf5]"
    "decodes_to (Suc d) CNone [0xf6]"
    using rb by (simp_all add: decodes_to_def decode.simps(2) decode_item_def)
qed

lemma decodes_int:
  assumes "sized_head m v h" and "m = 0 \<or> m = 1"
  shows "decodes_to (Suc d) (CInt (if m = 0 then int v else -1 - int v)) h"
  unfolding decodes_to_def
proof (intro allI)
  fix pre rest
  show "decode (Suc d) (pre @ h @ rest) (length pre)
      = Inr (CInt (if m = 0 then int v else -1 - int v), length pre + length h)"
    using decode_head [OF assms(1), of d pre rest] assms(2) by (auto simp: decode_item_def)
qed

lemma decodes_sized:
  assumes h: "sized_head m (length bs) h" and m: "m = 2 \<and> x = CBytes bs \<or> m = 3 \<and> (\<exists>s. utf8_decode bs = Inr s \<and> x = CStr s)"
  shows "decodes_to (Suc d) x (h @ bs)"
  unfolding decodes_to_def
proof (intro allI)
  fix pre rest
  have "read_bytes (pre @ h @ bs @ rest) (length pre + length h) (length bs)
      = Inr (bs, length pre + length h + length bs)"
    using read_bytes_at [of "pre @ h" bs rest] by simp
  then show "decode (Suc d) (pre @ (h @ bs) @ rest) (length pre) = Inr (x, length pre + length (h @ bs))"
    using m decode_head [OF h, of d pre "bs @ rest"] by (auto simp: decode_item_def)
qed

lemma decodes_list:
  assumes h: "sized_head 4 (length xs) h" and "list_all2 (decodes_to d) xs bss"
  shows "decodes_to (Suc d) (CList xs) (h @ concat bss)"
  unfolding decodes_to_def
proof (intro allI)
  fix pre rest
  show "decode (Suc d) (pre @ (h @ concat bss) @ rest) (length pre)
      = Inr (CList xs, length pre + length (h @ concat bss))"
    using decode_items_ok [OF assms(2), of "pre @ h" rest] decode_head [OF h, of d pre "concat bss @ rest"]
    by (auto simp: decode_item_def)
qed

lemma decodes_dict:
  assumes h: "sized_head 5 (length es) h" and "distinct (map (\<lambda>p. key_id (fst p)) es)"
    and "list_all2 (\<lambda>(k, v) bs. hashable k \<and> (\<exists>kb vb. bs = kb @ vb \<and> decodes_to d k kb \<and> decodes_to d v vb)) es bss"
  shows "decodes_to (Suc d) (CDict es) (h @ concat bss)"
  unfolding decodes_to_def
proof (intro allI)
  fix pre rest
  show "decode (Suc d) (pre @ (h @ concat bss) @ rest) (length pre)
      = Inr (CDict es, length pre + length (h @ concat bss))"
    using decode_entries_ok [OF assms(3), of "[]" "pre @ h" rest] assms(2)
      decode_head [OF h, of d pre "concat bss @ rest"]
    by (auto simp: decode_item_def)
qed

lemma encode_sized_ok:
  assumes "m < 7" and "n < 2 ^ 64"
  shows "\<exists>h. encode_sized m n body = Inr (h @ body) \<and> sized_head m n h"
  using encode_length_head [of m n] assms by (fastforce simp: encode_sized_def)

lemma list_all2_choice:
  assumes "\<And>x. x \<in> set xs \<Longrightarrow> \<exists>y. P x y"
  shows "\<exists>ys. list_all2 P xs ys"
  using assms
proof (induction xs)
  case (Cons x xs)
  then obtain y ys where "P x y" and "list_all2 P xs ys" by (metis list.set_intros)
  then show ?case by (metis list_all2_Cons)
qed (auto intro: exI [of _ "[]"])

lemma round_trip_int:
  assumes "cbor_wf (CInt i)"
  shows "\<exists>bs. cbor_encode (CInt i) = Inr bs \<and> decodes_to (Suc d) (CInt i) bs"
proof -
  define m n where "m = (if 0 \<le> i then 0 else 1 :: nat)" and "n = nat (if 0 \<le> i then i else -1 - i)"
  have "n < 2 ^ 64" "m < 8" using assms by (auto simp: n_def m_def)
  then obtain h where "encode_length m n = Inr h" "sized_head m n h"
    using encode_length_head [of m n] by blast
  then show ?thesis using decodes_int [of m n h d] by (auto simp: m_def n_def split: if_splits)
qed

lemma round_trip_list:
  assumes "length xs < 2 ^ 64" and "\<And>x. x \<in> set xs \<Longrightarrow> \<exists>bs. cbor_encode x = Inr bs \<and> decodes_to d x bs"
  shows "\<exists>bs. cbor_encode (CList xs) = Inr bs \<and> decodes_to (Suc d) (CList xs) bs"
proof -
  obtain h where h: "encode_length 4 (length xs) = Inr h" "sized_head 4 (length xs) h"
    using encode_length_head [of 4 "length xs"] assms(1) by auto
  from list_all2_choice [of xs "\<lambda>x bs. cbor_encode x = Inr bs \<and> decodes_to d x bs", OF assms(2)] obtain bss
    where "list_all2 (\<lambda>x bs. cbor_encode x = Inr bs \<and> decodes_to d x bs) xs bss" by blast
  then have "mapR cbor_encode xs = Inr bss" and "list_all2 (decodes_to d) xs bss"
    by (auto simp: mapR_Inr_iff list_all2_conv_all_nth)
  with h decodes_list show ?thesis by auto
qed

lemma round_trip_dict:
  assumes "length es < 2 ^ 64" and "distinct (map (\<lambda>p. key_id (fst p)) es)"
    and "\<And>k v. (k, v) \<in> set es \<Longrightarrow> hashable k"
    and "\<And>k v. (k, v) \<in> set es \<Longrightarrow> \<exists>bs. cbor_encode k = Inr bs \<and> decodes_to d k bs"
    and "\<And>k v. (k, v) \<in> set es \<Longrightarrow> \<exists>bs. cbor_encode v = Inr bs \<and> decodes_to d v bs"
  shows "\<exists>bs. cbor_encode (CDict es) = Inr bs \<and> decodes_to (Suc d) (CDict es) bs"
proof -
  define P where "P = (\<lambda>(k, v) bs. hashable k
    \<and> (\<exists>kb vb. bs = kb @ vb \<and> decodes_to d k kb \<and> decodes_to d v vb))"
  define f where "f = (\<lambda>(k, v). case cbor_encode k of Inl e \<Rightarrow> Inl e
     | Inr kb \<Rightarrow> (case cbor_encode v of Inl e \<Rightarrow> Inl e | Inr vb \<Rightarrow> Inr (kb @ vb)))"
  have "\<exists>bs. f p = Inr bs \<and> P p bs" if "p \<in> set es" for p
  proof -
    obtain k v where p: "p = (k, v)" by (cases p)
    with that assms(4,5) obtain kb vb where "cbor_encode k = Inr kb" "decodes_to d k kb" "cbor_encode v = Inr vb" "decodes_to d v vb"
      by blast
    with assms(3) that show ?thesis by (auto simp: f_def P_def p)
  qed
  from list_all2_choice [of es "\<lambda>p bs. f p = Inr bs \<and> P p bs", OF this] obtain bss where "list_all2 (\<lambda>p bs. f p = Inr bs \<and> P p bs) es bss" by blast
  then have enc: "mapR f es = Inr bss" and dec: "list_all2 P es bss"
    by (auto simp: mapR_Inr_iff list_all2_conv_all_nth)
  obtain h where "encode_sized 5 (length es) (concat bss) = Inr (h @ concat bss)" "sized_head 5 (length es) h"
    using encode_sized_ok [of 5 "length es" "concat bss"] assms(1) by auto
  then show ?thesis using enc decodes_dict [of es h d bss] assms(2) dec unfolding f_def P_def by auto
qed

lemma cbor_round_trip:
  "cbor_wf v \<Longrightarrow> cbor_depth v \<le> d \<Longrightarrow> \<exists>bs. cbor_encode v = Inr bs \<and> decodes_to d v bs"
proof (induction v arbitrary: d rule: cbor_encode.induct)
  case (1 b)
  then show ?case by (cases d) (auto simp: decode_simple)
next
  case 2
  then show ?case by (cases d) (auto simp: decode_simple)
next
  case (3 i)
  then show ?case by (cases d) (auto simp: round_trip_int simp del: cbor_wf.simps cbor_encode.simps)
next
  case (4 bs)
  then obtain d' where d: "d = Suc d'" by (cases d) auto
  from 4 obtain h where "encode_sized 2 (length bs) bs = Inr (h @ bs)" "sized_head 2 (length bs) h"
    using encode_sized_ok [of 2 "length bs" bs] by auto
  then show ?case using decodes_sized [of 2 bs h "CBytes bs" d'] d by auto
next
  case (5 s)
  then obtain d' where d: "d = Suc d'" by (cases d) auto
  let ?bs = "concat (map utf8_char s)"
  from 5 have s: "utf8_encode s = Inr ?bs" "utf8_decode ?bs = Inr s" "length ?bs < 2 ^ 64"
    by (auto simp: utf8_encode_def utf8_decode_encode)
  then obtain h where "encode_sized 3 (length ?bs) ?bs = Inr (h @ ?bs)" "sized_head 3 (length ?bs) h"
    using encode_sized_ok [of 3 "length ?bs" ?bs] by auto
  then show ?case using s decodes_sized [of 3 ?bs h "CStr s" d'] d by auto
next
  case (6 xs)
  then obtain d' where d: "d = Suc d'" by (cases d) auto
  obtain h where h: "encode_length 4 (length xs) = Inr h" using encode_length_head [of 4 "length xs"] 6(2) by auto
  have "\<exists>bs. cbor_encode x = Inr bs \<and> decodes_to d' x bs" if "x \<in> set xs" for x
    using "6.IH" [OF h that] "6.prems" depth_list [OF that] that d by (fastforce simp: list_all_iff)
  then show ?case unfolding d using 6(2) by (intro round_trip_list) auto
next
  case (7 es)
  then obtain d' where d: "d = Suc d'" by (cases d) auto
  have ok: "hashable k" "cbor_wf k" "cbor_wf v" "cbor_depth k \<le> d'" "cbor_depth v \<le> d'" if "(k, v) \<in> set es" for k v
    using that 7(3,4) depth_dict [of k v es] by (auto simp: d list_all_iff)
  have k: "\<exists>bs. cbor_encode k = Inr bs \<and> decodes_to d' k bs" if "(k, v) \<in> set es" for k v
    using 7(1) [OF that refl] ok(2,4) [OF that] by blast
  have "\<exists>bs. cbor_encode v = Inr bs \<and> decodes_to d' v bs" if "(k, v) \<in> set es" for k v
    using 7(2) [OF that refl] k [OF that] ok(3,5) [OF that] by blast
  with k ok(1) show ?case unfolding d using 7(3) by (intro round_trip_dict) auto
next
  case 8
  then show ?case by simp
qed

section \<open>What the decoder returns\<close>

lemma read_bytes_InrD: "read_bytes data off n = Inr (bs, off') \<Longrightarrow>
    off' = off + n \<and> off' \<le> length data \<and> length bs = n"
  by (auto simp: read_bytes_def split: if_splits)

lemma read_length_InrD: "read_length data off info = Inr (n, off') \<Longrightarrow>
    off \<le> off' \<and> n < 2 ^ 64 \<and> (off \<le> length data \<longrightarrow> off' \<le> length data)"
proof -
  have ru: "off \<le> off' \<and> v < 2 ^ 64 \<and> off' \<le> length data"
    if u: "read_uint data off k = Inr (v, off')" and k: "k \<le> 8" for k v off'
  proof -
    from u obtain bs where bs: "read_bytes data off k = Inr (bs, off')" "v = from_bytes_big bs"
      by (auto simp: read_uint_def split: sum.splits)
    have "v < 256 ^ k" using from_bytes_big_bound [of bs] read_bytes_InrD [OF bs(1)] bs(2) by simp
    also have "(256::nat) ^ k \<le> 256 ^ 8" using k by (intro power_increasing) auto
    finally show ?thesis using read_bytes_InrD [OF bs(1)] by simp
  qed
  assume "read_length data off info = Inr (n, off')"
  then show ?thesis
    by (auto simp: read_length_def split: if_splits dest: ru)
qed

text \<open>The offset strictly grows and never passes the end of the buffer.\<close>

lemma decode_items_offset:
  assumes "\<forall>off x off'. dec off = Inr (x, off') \<longrightarrow> off < off' \<and> off' \<le> m"
  shows "decode_items dec n off = Inr (xs, off') \<Longrightarrow> off \<le> m \<Longrightarrow>
    off + n \<le> off' \<and> off' \<le> m \<and> length xs = n"
proof (induction n arbitrary: off xs)
  case (Suc n)
  from Suc.prems(1) obtain x off1 ys where "dec off = Inr (x, off1)"
    and "decode_items dec n off1 = Inr (ys, off')" and "xs = x # ys"
    by (auto split: sum.splits)
  moreover have "off < off1 \<and> off1 \<le> m" using assms calculation(1) by blast
  ultimately show ?case using Suc.IH [of off1 ys] by auto
qed simp

lemma decode_entries_offset:
  assumes "\<forall>off x off'. dec off = Inr (x, off') \<longrightarrow> off < off' \<and> off' \<le> m"
  shows "decode_entries dec n es off = Inr (es', off') \<Longrightarrow> off \<le> m \<Longrightarrow>
    off + n \<le> off' \<and> off' \<le> m"
proof (induction n arbitrary: off es)
  case (Suc n)
  from Suc.prems(1) obtain k off1 v off2 where "dec off = Inr (k, off1)"
    and "dec off1 = Inr (v, off2)" and "decode_entries dec n (dict_set es k v) off2 = Inr (es', off')"
    by (auto split: sum.splits if_splits)
  moreover have "off < off1 \<and> off1 < off2 \<and> off2 \<le> m" using assms calculation(1,2) by blast
  ultimately show ?case using Suc.IH [of "dict_set es k v" off2] by auto
qed simp

text \<open>One level of \<open>decode\<close> that succeeded, by the kind of item it read.\<close>

lemma decode_InrE:
  assumes "decode (Suc d) data off = Inr (v, off')"
  obtains (int) n where "Suc off \<le> off'" "off' \<le> length data" "n < 0x10000000000000000"
      "v = CInt (int n) \<or> v = CInt (-1 - int n)"
  | (bytes) n bs off2 where "Suc off \<le> off2" "off2 \<le> length data"
      "read_bytes data off2 n = Inr (bs, off')" "n < 0x10000000000000000" "v = CBytes bs"
  | (str) n bs s off2 where "Suc off \<le> off2" "off2 \<le> length data"
      "read_bytes data off2 n = Inr (bs, off')" "n < 0x10000000000000000" "utf8_decode bs = Inr s" "v = CStr s"
  | (list) n xs off2 where "Suc off \<le> off2" "off2 \<le> length data" "n < 0x10000000000000000"
      "decode_items (decode d data) n off2 = Inr (xs, off')" "v = CList xs"
  | (dict) n es off2 where "Suc off \<le> off2" "off2 \<le> length data" "n < 0x10000000000000000"
      "decode_entries (decode d data) n [] off2 = Inr (es, off')" "v = CDict es"
  | (tag) off2 where "Suc off \<le> off2" "off2 \<le> length data" "decode d data off2 = Inr (v, off')"
  | (simple) "off' = Suc off" "Suc off \<le> length data" "v = CBool True \<or> v = CBool False \<or> v = CNone"
proof -
  from assms have lt: "Suc off \<le> length data"
    by (auto simp: decode.simps(2) split: if_splits)
  then obtain m info where eq: "decode_item (decode d data) data m info (Suc off) = Inr (v, off')"
    using assms by (auto simp: decode.simps(2) read_bytes_def Let_def)
  have rl: "Suc off \<le> o2 \<and> o2 \<le> length data \<and> n < 2 ^ 64"
    if "read_length data (Suc off) info = Inr (n, o2)" for n o2
    using read_length_InrD [OF that] lt by auto
  consider "m = 0 \<or> m = 1" | "m = 2" | "m = 3" | "m = 4" | "m = 5" | "m = 6" | "m > 6"
    by linarith
  then show thesis
  proof cases
    case 1
    with eq show ?thesis
      by (auto simp: decode_item_def split: if_splits sum.splits dest!: rl intro: int)
  next
    case 2
    with eq show ?thesis
      by (auto simp: decode_item_def split: sum.splits dest!: rl intro: bytes)
  next
    case 3
    with eq obtain n o2 bs t where "read_length data (Suc off) info = Inr (n, o2)"
      "read_bytes data o2 n = Inr (bs, off')" "utf8_decode bs = Inr t" "v = CStr t"
      by (auto simp: decode_item_def split: sum.splits)
    then show ?thesis using rl [of n o2] str [of o2 n bs t] by simp
  next
    case 4
    with eq show ?thesis
      by (auto simp: decode_item_def split: sum.splits dest!: rl intro: list)
  next
    case 5
    with eq show ?thesis
      by (auto simp: decode_item_def split: sum.splits dest!: rl intro: dict)
  next
    case 6
    with eq show ?thesis
      by (auto simp: decode_item_def split: sum.splits dest!: rl intro: tag)
  next
    case 7
    with eq lt show ?thesis
      by (auto simp: decode_item_def split: if_splits intro: simple)
  qed
qed

lemma decode_offset: "decode d data off = Inr (v, off') \<Longrightarrow> off < off' \<and> off' \<le> length data"
proof (induction d arbitrary: off v off')
  case (Suc d)
  have step: "\<forall>off x off'. decode d data off = Inr (x, off') \<longrightarrow> off < off' \<and> off' \<le> length data"
    using Suc.IH by blast
  from Suc.prems show ?case
  proof (cases rule: decode_InrE)
    case (list n xs off2)
    then show ?thesis using decode_items_offset [OF step list(4) list(2)] list(1) by simp
  next
    case (dict n es off2)
    then show ?thesis using decode_entries_offset [OF step dict(4) dict(2)] dict(1) by simp
  qed (auto dest: read_bytes_InrD Suc.IH)
qed simp

text \<open>
  Everything the decoder returns is well-formed: in particular a decoded map never has two
  equal keys, and never a list or a map as a key.
\<close>

lemma key_id_dict_set:
  "(\<lambda>p. key_id (fst p)) ` set (dict_set d k v) = insert (key_id k) ((\<lambda>p. key_id (fst p)) ` set d)"
  by (induction d k v rule: dict_set.induct) (simp_all add: insert_commute)

lemma dict_set_wf:
  assumes "distinct (map (\<lambda>p. key_id (fst p)) d)" and "list_all (\<lambda>(k, v). hashable k \<and> cbor_wf k \<and> cbor_wf v) d"
    and "hashable k" "cbor_wf k" "cbor_wf v"
  shows "distinct (map (\<lambda>p. key_id (fst p)) (dict_set d k v))
    \<and> list_all (\<lambda>(k, v). hashable k \<and> cbor_wf k \<and> cbor_wf v) (dict_set d k v)"
  using assms
proof (induction d)
  case (Cons p d)
  obtain k' v' where p: "p = (k', v')" by (cases p)
  show ?case
  proof (cases "key_id k' = key_id k")
    case True
    with Cons.prems show ?thesis by (simp add: p)
  next
    case False
    with Cons show ?thesis by (simp add: p key_id_dict_set)
  qed
qed simp

lemma length_dict_set: "length (dict_set d k v) \<le> Suc (length d)"
  by (induction d) auto

lemma decode_items_wf:
  assumes "\<forall>off x off'. dec off = Inr (x, off') \<longrightarrow> P x"
  shows "decode_items dec n off = Inr (xs, off') \<Longrightarrow> list_all P xs"
  using assms by (induction n arbitrary: off xs) (fastforce split: sum.splits)+

lemma decode_entries_wf:
  assumes dec: "\<forall>off x off'. dec off = Inr (x, off') \<longrightarrow> cbor_wf x"
  shows "decode_entries dec n es off = Inr (es', off') \<Longrightarrow>
    distinct (map (\<lambda>p. key_id (fst p)) es) \<Longrightarrow>
    list_all (\<lambda>(k, v). hashable k \<and> cbor_wf k \<and> cbor_wf v) es \<Longrightarrow>
    length es' \<le> length es + n \<and> distinct (map (\<lambda>p. key_id (fst p)) es')
      \<and> list_all (\<lambda>(k, v). hashable k \<and> cbor_wf k \<and> cbor_wf v) es'"
proof (induction n arbitrary: es off)
  case (Suc n)
  from Suc.prems(1) obtain k off1 v off2 where d: "dec off = Inr (k, off1)" "dec off1 = Inr (v, off2)"
    and k: "hashable k" and rest: "decode_entries dec n (dict_set es k v) off2 = Inr (es', off')"
    by (auto split: sum.splits if_splits)
  have kv: "cbor_wf k" "cbor_wf v" using dec d by blast+
  note wf = dict_set_wf [OF Suc.prems(2,3) k kv]
  show ?case
    using Suc.IH [OF rest wf [THEN conjunct1] wf [THEN conjunct2]] length_dict_set [of es k v]
    by simp
qed simp

lemma decode_wf: "length data < 2 ^ 64 \<Longrightarrow> decode d data off = Inr (v, off') \<Longrightarrow> cbor_wf v"
proof (induction d arbitrary: off v off')
  case (Suc d)
  have IH: "\<forall>off x off'. decode d data off = Inr (x, off') \<longrightarrow> cbor_wf x"
    using Suc.IH [OF Suc.prems(1)] by blast
  have step: "\<forall>off x off'. decode d data off = Inr (x, off') \<longrightarrow> off < off' \<and> off' \<le> length data"
    using decode_offset by blast
  from Suc.prems(2) show ?case
  proof (cases rule: decode_InrE)
    case (bytes n bs off2)
    then show ?thesis using read_bytes_InrD [of data off2 n bs off'] by simp
  next
    case (str n bs s off2)
    then show ?thesis using read_bytes_InrD [of data off2 n bs off'] utf8_decode_inverse [of bs s] by simp
  next
    case (list n xs off2)
    have "length xs = n" using decode_items_offset [OF step list(4) list(2)] by simp
    with list show ?thesis using decode_items_wf [OF IH list(4)] by simp
  next
    case (dict n es off2)
    then show ?thesis using decode_entries_wf [OF IH dict(4)] by simp
  next
    case (tag off2)
    then show ?thesis using IH by blast
  qed auto
qed simp

section \<open>Depth\<close>

text \<open>A value decoded with recursion depth \<open>d\<close> is nested at most \<open>d\<close> deep, so it can be
  encoded and decoded again under the same limit.\<close>

lemma dict_set_subset: "set (dict_set d k v) \<subseteq> set d \<union> (\<lambda>k'. (k', v)) ` insert k (fst ` set d)"
  by (induction d k v rule: dict_set.induct) auto

lemma decode_entries_all:
  assumes dec: "\<forall>off x off'. dec off = Inr (x, off') \<longrightarrow> P x"
  shows "decode_entries dec n es off = Inr (es', off') \<Longrightarrow>
    \<forall>(k, v) \<in> set es. P k \<and> P v \<Longrightarrow> \<forall>(k, v) \<in> set es'. P k \<and> P v"
proof (induction n arbitrary: es off)
  case (Suc n)
  from Suc.prems(1) obtain k off1 v off2 where d: "dec off = Inr (k, off1)" "dec off1 = Inr (v, off2)"
    and rest: "decode_entries dec n (dict_set es k v) off2 = Inr (es', off')"
    by (auto split: sum.splits if_splits)
  have kv: "P k" "P v" using dec d by blast+
  have "\<forall>(k, v) \<in> set (dict_set es k v). P k \<and> P v"
    using dict_set_subset [of es k v] Suc.prems(2) kv by fastforce
  then show ?case by (rule Suc.IH [OF rest])
qed simp

lemma foldr_max_le: "\<forall>x \<in> set xs. f x \<le> m \<Longrightarrow> foldr (\<lambda>x n. max (f x) n) xs 0 \<le> (m :: nat)"
  by (induction xs) auto

lemma foldr_max_dict_le:
  "\<forall>(k, v) \<in> set es. f k \<le> m \<and> f v \<le> (m :: nat) \<Longrightarrow>
   foldr (\<lambda>(k, v) n. max (max (f k) (f v)) n) es 0 \<le> m"
  by (induction es) auto

lemma decode_depth: "decode d data off = Inr (v, off') \<Longrightarrow> cbor_depth v \<le> d"
proof (induction d arbitrary: off v off')
  case (Suc d)
  have IH: "\<forall>off x off'. decode d data off = Inr (x, off') \<longrightarrow> cbor_depth x \<le> d"
    using Suc.IH by blast
  from Suc.prems show ?case
  proof (cases rule: decode_InrE)
    case (list n xs off2)
    then have "list_all (\<lambda>x. cbor_depth x \<le> d) xs" using decode_items_wf [OF IH list(4)] by simp
    with list show ?thesis by (simp add: foldr_max_le list_all_iff)
  next
    case (dict n es off2)
    have "\<forall>(k, v) \<in> set es. cbor_depth k \<le> d \<and> cbor_depth v \<le> d"
      using decode_entries_all [OF IH dict(4)] by simp
    with dict show ?thesis by (simp add: foldr_max_dict_le)
  next
    case (tag off2)
    with IH show ?thesis using le_SucI by blast
  qed auto
qed simp

lemma cbor_decode_canonical:
  assumes "length data < 2 ^ 64" and "cbor_decode d data = Inr v"
  shows "cbor_wf v \<and> cbor_depth v \<le> d"
  using assms by (auto simp: cbor_decode_def split: sum.splits if_splits intro: decode_wf decode_depth)

section \<open>Which exceptions the decoder raises\<close>

text \<open>
  Besides \<open>AttestationError\<close>: text that is not UTF-8, a list or map used as a key, and
  nesting beyond the interpreter's recursion depth.
\<close>

fun decoder_error :: "exn \<Rightarrow> bool" where
  "decoder_error (AttestationError _) = True"
| "decoder_error UnicodeDecodeError = True"
| "decoder_error TypeError = True"
| "decoder_error RecursionError = True"
| "decoder_error _ = False"

lemma read_bytes_Inl: "read_bytes data off n = Inl e \<Longrightarrow> decoder_error e"
  by (auto simp: read_bytes_def eof_error_def split: if_splits)

lemma read_length_Inl: "read_length data off info = Inl e \<Longrightarrow> decoder_error e"
  by (auto simp: read_length_def read_uint_def split: if_splits sum.splits dest: read_bytes_Inl)

lemma decode_items_Inl:
  assumes "\<forall>off e. dec off = Inl e \<longrightarrow> P e"
  shows "decode_items dec n off = Inl e \<Longrightarrow> P e"
  using assms by (induction n arbitrary: off) (auto split: sum.splits)

lemma decode_entries_Inl:
  assumes "\<forall>off e. dec off = Inl e \<longrightarrow> P e" and "P TypeError"
  shows "decode_entries dec n es off = Inl e \<Longrightarrow> P e"
  using assms by (induction n arbitrary: off es) (auto split: sum.splits if_splits)

lemma decode_Inl: "decode d data off = Inl e \<Longrightarrow> decoder_error e"
proof (induction d arbitrary: off e)
  case (Suc d)
  have IH: "\<forall>off e. decode d data off = Inl e \<longrightarrow> decoder_error e"
    using Suc.IH by blast
  have loops: "decode_items (decode d data) n o2 = Inl e \<Longrightarrow> decoder_error e"
    "decode_entries (decode d data) n es o2 = Inl e \<Longrightarrow> decoder_error e" for n o2 es e
    using decode_items_Inl [OF IH] decode_entries_Inl [OF IH] by auto
  have utf8: "utf8_decode bs = Inl e \<Longrightarrow> decoder_error e" for bs e
    using utf8_decode_errors by fastforce
  have item: "decode_item (decode d data) data m info o1 = Inl e \<Longrightarrow> decoder_error e" for m info o1
  proof -
    assume eq: "decode_item (decode d data) data m info o1 = Inl e"
    show ?thesis
    proof (cases "m = 3")
      case True
      with eq show ?thesis
        by (simp add: decode_item_def split: sum.splits prod.splits)
          (metis read_length_Inl read_bytes_Inl utf8 sum.inject(1))+
    next
      case False
      with eq IH show ?thesis
        by (auto simp: decode_item_def split: if_splits sum.splits
            dest: read_length_Inl read_bytes_Inl loops)
    qed
  qed
  show ?case using Suc.prems
    by (auto simp: decode.simps(2) eof_error_def Let_def split: if_splits sum.splits
        dest: read_bytes_Inl item)
qed simp

lemma cbor_decode_Inl: "cbor_decode d data = Inl e \<Longrightarrow> decoder_error e"
  by (auto simp: cbor_decode_def split: sum.splits if_splits dest: decode_Inl)

section \<open>The codec\<close>

lemma cbor_decode_encode:
  assumes "cbor_wf v" and "cbor_depth v \<le> d"
  shows "\<exists>bs. cbor_encode v = Inr bs \<and> cbor_decode d bs = Inr v"
proof -
  obtain bs where bs: "cbor_encode v = Inr bs" and d: "decodes_to d v bs"
    using cbor_round_trip [OF assms] by blast
  have "decode d bs 0 = Inr (v, length bs)"
    using d [unfolded decodes_to_def, rule_format, of "[]" "[]"] by simp
  with bs show ?thesis by (simp add: cbor_decode_def)
qed

interpretation cbor: codec "\<lambda>v. cbor_wf v \<and> cbor_depth v \<le> d" cbor_encode "cbor_decode d" for d
  by unfold_locales (simp add: cbor_decode_encode)

section \<open>Properties\<close>

text \<open>C15. Every value of the encoder's domain (64-bit integers and lengths,
  encodable strings, dictionaries with hashable and pairwise different keys) is encoded
  without an exception, and decoding the bytes under a recursion limit of at least its
  nesting gives the value back, dictionary order included.\<close>

theorem cbor_encode_decode:
  assumes "cbor_wf v" and "cbor_depth v \<le> d"
  shows "\<exists>bs. cbor_encode v = Inr bs \<and> cbor_decode d bs = Inr v"
  using assms by (intro cbor.dec_enc) simp

theorem cbor_encode_decode_witness:
  "\<exists>bs. cbor_encode (CDict [(CInt (-2), CList [CNone, CBool True]), (CStr [0x20AC], CBytes [1, 2])])
      = Inr bs
    \<and> cbor_decode 3 bs = Inr (CDict [(CInt (-2), CList [CNone, CBool True]), (CStr [0x20AC], CBytes [1, 2])])"
  by (rule cbor_encode_decode) (simp_all add: scalar_def utf8_char_def)



text \<open>C33. From any offset of any buffer a decoding step either returns a
  value and an offset that has advanced and does not pass the end of the buffer, or raises
  one of four exceptions: \<open>AttestationError\<close>, \<open>UnicodeDecodeError\<close> (text that is not UTF-8),
  \<open>TypeError\<close> (a list or map as a map key), \<open>RecursionError\<close>.\<close>

theorem cbor_decoder_total:
  "case decode d data off of
     Inr (v, off') \<Rightarrow> off < off' \<and> off' \<le> length data
   | Inl e \<Rightarrow> decoder_error e"
  by (auto split: sum.split dest: decode_offset decode_Inl)

end
