(* ===== verification/Base64.thy ===== *)
theory Base64
  imports Text
begin

text \<open>
  \<open>base64.b64encode\<close> and \<open>base64.b64decode(s, validate=True)\<close>, as far as the code uses
  them: the standard alphabet, padding required, nothing but alphabet characters, no data
  after the padding. Bits left over in the last group are dropped.
\<close>

definition b64_char :: "nat \<Rightarrow> nat" where
  "b64_char n = (if n < 26 then 65 + n else if n < 52 then 71 + n
     else if n < 62 then n - 4 else if n = 62 then 43 else 47)"

definition b64_val :: "nat \<Rightarrow> nat option" where
  "b64_val c = (if 65 \<le> c \<and> c \<le> 90 then Some (c - 65)
     else if 97 \<le> c \<and> c \<le> 122 then Some (c - 71)
     else if 48 \<le> c \<and> c \<le> 57 then Some (c + 4)
     else if c = 43 then Some 62 else if c = 47 then Some 63 else None)"

fun b64encode :: "bytes \<Rightarrow> ustr" where
  "b64encode [] = []"
| "b64encode [a] = [b64_char (unat a div 4), b64_char (unat a mod 4 * 16), 61, 61]"
| "b64encode [a, b] =
     [b64_char (unat a div 4), b64_char (unat a mod 4 * 16 + unat b div 16),
      b64_char (unat b mod 16 * 4), 61]"
| "b64encode (a # b # c # r) =
     [b64_char (unat a div 4), b64_char (unat a mod 4 * 16 + unat b div 16),
      b64_char (unat b mod 16 * 4 + unat c div 64), b64_char (unat c mod 64)] @ b64encode r"

fun b64_groups :: "ustr \<Rightarrow> bytes option" where
  "b64_groups [] = Some []"
| "b64_groups (p # q # r # s # t) =
     (case (b64_val p, b64_val q) of
        (Some x, Some y) \<Rightarrow>
          if r = 61 \<and> s = 61 \<and> t = [] then Some [byte_of (x * 4 + y div 16)]
          else (case b64_val r of None \<Rightarrow> None
            | Some z \<Rightarrow>
              if s = 61 \<and> t = [] then
                Some [byte_of (x * 4 + y div 16), byte_of (y mod 16 * 16 + z div 4)]
              else (case (b64_val s, b64_groups t) of
                  (Some w, Some bs) \<Rightarrow>
                    Some (byte_of (x * 4 + y div 16) # byte_of (y mod 16 * 16 + z div 4)
                      # byte_of (z mod 4 * 64 + w) # bs)
                | _ \<Rightarrow> None))
      | _ \<Rightarrow> None)"
| "b64_groups _ = None"

definition b64decode :: "ustr \<Rightarrow> bytes res" where
  "b64decode s =
     (if \<not> ascii s then Inl (ValueError (U ''string argument should contain only ASCII characters''))
      else case b64_groups s of None \<Rightarrow> Inl BinasciiError | Some bs \<Rightarrow> Inr bs)"

lemma b64_val_char [simp]: "n < 64 \<Longrightarrow> b64_val (b64_char n) = Some n"
  by (auto simp: b64_val_def b64_char_def)

lemma b64_char_not_pad [simp]: "n < 64 \<Longrightarrow> b64_char n \<noteq> 61"
  by (auto simp: b64_char_def)

lemma b64_char_ascii: "n < 64 \<Longrightarrow> b64_char n < 128"
  by (auto simp: b64_char_def)

lemma b64_digits:
  fixes a b c :: byte
  shows "unat a div 4 < 64" "unat a mod 4 * 16 < 64" "unat a mod 4 * 16 + unat b div 16 < 64"
    "unat b mod 16 * 4 < 64" "unat b mod 16 * 4 + unat c div 64 < 64" "unat c mod 64 < 64"
proof -
  have a: "unat a div 4 < 64" "unat b div 16 < 16" "unat c div 64 < 4"
    by (rule less_mult_imp_div_less, simp)+
  have m: "unat a mod 4 < 4" "unat b mod 16 < 16" by simp_all
  show "unat a div 4 < 64" by (rule a)
  show "unat a mod 4 * 16 < 64" using m by linarith
  show "unat a mod 4 * 16 + unat b div 16 < 64" using m a by linarith
  show "unat b mod 16 * 4 < 64" using m by linarith
  show "unat b mod 16 * 4 + unat c div 64 < 64" using m a by linarith
  show "unat c mod 64 < 64" by simp
qed

lemma b64_carries:
  fixes b c :: byte
  shows "unat b div 16 div 16 = 0" "unat b div 16 mod 16 = unat b div 16"
    "unat c div 64 div 4 = 0" "unat c div 64 mod 4 = unat c div 64"
proof -
  have "unat b div 16 < 16" and "unat c div 64 < 4"
    by (rule less_mult_imp_div_less, simp)+
  then show "unat b div 16 div 16 = 0" "unat b div 16 mod 16 = unat b div 16"
    "unat c div 64 div 4 = 0" "unat c div 64 mod 4 = unat c div 64"
    by (simp_all only: div_less mod_less)
qed

lemma b64_groups_encode: "b64_groups (b64encode bs) = Some bs"
  by (induction bs rule: b64encode.induct) (simp_all add: b64_digits b64_carries)

lemma b64encode_ascii: "ascii (b64encode bs)"
  by (induction bs rule: b64encode.induct) (simp_all add: ascii_def b64_char_ascii b64_digits)

lemma b64decode_encode [simp]: "b64decode (b64encode bs) = Inr bs"
  by (simp add: b64decode_def b64encode_ascii b64_groups_encode)

lemma b64decode_errors: "b64decode s = Inl e \<Longrightarrow> is_ValueError e"
  by (auto simp: b64decode_def split: if_splits option.splits)

interpretation base64: codec "\<lambda>_. True" "\<lambda>bs. Inr (b64encode bs) :: exn + ustr" b64decode
  by unfold_locales simp

end
