(* ===== verification/Attestation.thy ===== *)
theory Attestation
  imports Cbor Base64
begin

text \<open>
  \<open>enclave/attestation.py\<close> above its CBOR codec: the NSM call, the parser and validator of
  attestation documents, and \<open>MockNSM\<close>. The NSM library, the clock and the rendering of a
  timestamp are arguments. The lemmas show that a document made by the mock parses back to
  exactly the fields it was made from, that the parser accepts nothing but a document whose
  fields have the required types, and that the NSM device is closed on every path.
\<close>

section \<open>Parsed documents\<close>

text \<open>
  \<open>isinstance(x, int)\<close> holds of booleans too, so an integer field of a parsed document is
  kept as the value that was decoded; \<open>str\<close> of such a value is \<open>str_of_int\<close>.
\<close>

record parsed_doc =
  pd_module_id :: ustr
  pd_timestamp_ms :: cbor
  pd_digest :: ustr
  pd_pcrs :: "(ustr, ustr) odict"
  pd_public_key :: "bytes option"
  pd_user_data :: "bytes option"
  pd_nonce :: "bytes option"
  pd_is_cose_sign1 :: bool

fun is_int :: "cbor \<Rightarrow> bool" where
  "is_int (CInt _) = True"
| "is_int (CBool _) = True"
| "is_int _ = False"

fun str_of_int :: "cbor \<Rightarrow> ustr" where
  "str_of_int (CInt i) = str_int i"
| "str_of_int (CBool b) = (if b then U ''True'' else U ''False'')"
| "str_of_int _ = []"

record doc_dict =
  dd_module_id :: ustr
  dd_timestamp_ms :: cbor
  dd_timestamp :: ustr
  dd_digest :: ustr
  dd_pcrs :: "(ustr, ustr) odict"
  dd_public_key :: "ustr option"
  dd_user_data :: "ustr option"
  dd_nonce :: "ustr option"
  dd_is_cose_sign1 :: bool

text \<open>
  \<open>as_dict\<close>. The argument \<open>isoformat\<close> renders a timestamp in milliseconds
  (\<open>datetime.fromtimestamp(ms / 1000, tz=UTC).isoformat()\<close>), which fails on years that
  \<open>datetime\<close> does not have.
\<close>

definition as_dict :: "(cbor \<Rightarrow> ustr res) \<Rightarrow> parsed_doc \<Rightarrow> doc_dict res" where
  "as_dict isoformat p =
     (case isoformat (pd_timestamp_ms p) of Inl e \<Rightarrow> Inl e
      | Inr ts \<Rightarrow> Inr
         \<lparr>dd_module_id = pd_module_id p,
          dd_timestamp_ms = pd_timestamp_ms p,
          dd_timestamp = ts,
          dd_digest = pd_digest p,
          dd_pcrs = pd_pcrs p,
          dd_public_key = map_option b64encode (pd_public_key p),
          dd_user_data = map_option b64encode (pd_user_data p),
          dd_nonce = map_option b64encode (pd_nonce p),
          dd_is_cose_sign1 = pd_is_cose_sign1 p\<rparr>)"

section \<open>The parser\<close>

text \<open>A four-element array with a byte string third is taken for a COSE_Sign1 wrapper.\<close>

definition unwrap_cose :: "nat \<Rightarrow> bytes \<Rightarrow> (cbor \<times> bool) res" where
  "unwrap_cose depth document =
     (case cbor_decode depth document of Inl e \<Rightarrow> Inl e
      | Inr decoded \<Rightarrow>
        (case decoded of
           CList [_, _, CBytes payload, _] \<Rightarrow>
             (case cbor_decode depth payload of Inl e \<Rightarrow> Inl e | Inr inner \<Rightarrow> Inr (inner, True))
         | _ \<Rightarrow> Inr (decoded, False)))"

definition parse_pcr :: "(ustr, ustr) odict \<Rightarrow> cbor \<times> cbor \<Rightarrow> (ustr, ustr) odict res" where
  "parse_pcr acc p =
     (case p of (index, value) \<Rightarrow>
       if \<not> is_int index then Inl (AttestationError (U ''PCR indexes must be integers.''))
       else case value of
           CBytes b \<Rightarrow> Inr (od_set acc (str_of_int index) (bytes_hex b))
         | _ \<Rightarrow> Inl (AttestationError (U ''PCR values must be raw bytes.'')))"

definition quoted :: "string \<Rightarrow> string" where
  "quoted name = CHR 0x27 # name @ [CHR 0x27]"

definition opt_bytes_field :: "(cbor \<times> cbor) list \<Rightarrow> string \<Rightarrow> bytes option res" where
  \<comment> \<open>a field that must be bytes when present and not \<open>None\<close>\<close>
  "opt_bytes_field d name =
     (case dict_get d (CStr (U name)) of
        None \<Rightarrow> Inr None
      | Some CNone \<Rightarrow> Inr None
      | Some (CBytes b) \<Rightarrow> Inr (Some b)
      | Some _ \<Rightarrow> Inl (AttestationError (U (quoted name @ '' must be bytes when present.''))))"

definition missing_field :: "string \<Rightarrow> exn" where
  "missing_field name = AttestationError (U (''Attestation document is missing '' @ quoted name @ ''.''))"

definition parse_fields :: "bool \<Rightarrow> (cbor \<times> cbor) list \<Rightarrow> parsed_doc res" where
  "parse_fields is_cose d =
     (case dict_get d (CStr (U ''module_id'')) of
        Some (CStr module_id) \<Rightarrow>
          (case dict_get d (CStr (U ''timestamp'')) of
             Some timestamp_ms \<Rightarrow>
               if \<not> is_int timestamp_ms then Inl (missing_field ''timestamp'')
               else (case dict_get d (CStr (U ''digest'')) of
                  Some (CStr digest) \<Rightarrow>
                    (case dict_get d (CStr (U ''pcrs'')) of
                       Some (CDict raw_pcrs) \<Rightarrow>
                         (case foldR parse_pcr [] raw_pcrs of Inl e \<Rightarrow> Inl e
                          | Inr pcrs \<Rightarrow>
                         (case opt_bytes_field d ''public_key'' of Inl e \<Rightarrow> Inl e
                          | Inr public_key \<Rightarrow>
                         (case opt_bytes_field d ''user_data'' of Inl e \<Rightarrow> Inl e
                          | Inr user_data \<Rightarrow>
                         (case opt_bytes_field d ''nonce'' of Inl e \<Rightarrow> Inl e
                          | Inr nonce \<Rightarrow> Inr
                            \<lparr>pd_module_id = module_id, pd_timestamp_ms = timestamp_ms,
                             pd_digest = digest, pd_pcrs = pcrs, pd_public_key = public_key,
                             pd_user_data = user_data, pd_nonce = nonce,
                             pd_is_cose_sign1 = is_cose\<rparr>))))
                     | _ \<Rightarrow> Inl (missing_field ''pcrs''))
                | _ \<Rightarrow> Inl (missing_field ''digest''))
           | None \<Rightarrow> Inl (missing_field ''timestamp''))
      | _ \<Rightarrow> Inl (missing_field ''module_id''))"

definition parse_attestation_document :: "nat \<Rightarrow> bytes \<Rightarrow> parsed_doc res" where
  "parse_attestation_document depth document =
     (case unwrap_cose depth document of Inl e \<Rightarrow> Inl e
      | Inr (CDict d, is_cose) \<Rightarrow> parse_fields is_cose d
      | Inr _ \<Rightarrow> Inl (AttestationError (U ''Attestation document payload is not a CBOR map.'')))"

definition verify_attestation_document :: "nat \<Rightarrow> (cbor \<Rightarrow> ustr res) \<Rightarrow> bytes \<Rightarrow> doc_dict res" where
  "verify_attestation_document depth isoformat document =
     (case parse_attestation_document depth document of Inl e \<Rightarrow> Inl e | Inr p \<Rightarrow> as_dict isoformat p)"

section \<open>The Nitro Secure Module\<close>

text \<open>
  The library \<open>aws_nsm_interface\<close> as a record of its three calls; \<open>None\<close> is a failed import.
  The document of a response is bytes (or a \<open>bytearray\<close>), \<open>None\<close> for any other object. The
  log of calls is part of the result.
\<close>

record 'h nsm_library =
  open_nsm_device :: "'h res"
  get_attestation_doc :: "'h \<Rightarrow> bytes option \<Rightarrow> bytes option \<Rightarrow> bytes option \<Rightarrow> bytes option res"

datatype 'h nsm_call =
    NsmOpened 'h
  | NsmAsked 'h "bytes option" "bytes option" "bytes option"
  | NsmClosed 'h

definition get_attestation_document :: "'h nsm_library option \<Rightarrow> bytes option \<Rightarrow> bytes option
    \<Rightarrow> bytes option \<Rightarrow> bytes res \<times> 'h nsm_call list" where
  "get_attestation_document nsm public_key user_data nonce =
     (case nsm of
        None \<Rightarrow> (Inl (AttestationError (U ''aws_nsm_interface is not available. Use MockNSM for local tests or install the NSM bindings inside a Nitro Enclave runtime.'')), [])
      | Some lib \<Rightarrow>
        (case open_nsm_device lib of
           Inl _ \<Rightarrow> (Inl (AttestationError (U ''Failed to retrieve attestation document from NSM.'')), [])
         | Inr handle \<Rightarrow>
           (let log = [NsmOpened handle, NsmAsked handle user_data nonce public_key, NsmClosed handle] in
            case get_attestation_doc lib handle user_data nonce public_key of
              Inl _ \<Rightarrow> (Inl (AttestationError (U ''Failed to retrieve attestation document from NSM.'')), log)
            | Inr None \<Rightarrow> (Inl (AttestationError (U ''NSM did not return a valid attestation document.'')), log)
            | Inr (Some document) \<Rightarrow> (Inr document, log))))"

section \<open>MockNSM\<close>

text \<open>
  The keys and values of the \<open>pcrs\<close> argument; \<open>PKOther\<close> is a key that \<open>int()\<close> rejects,
  \<open>PVOther\<close> a value that is neither bytes nor a string.
\<close>

datatype pcr_key = PKInt int | PKStr ustr | PKOther
datatype pcr_value = PVBytes bytes | PVStr ustr | PVOther

definition pcr_index :: "pcr_key \<Rightarrow> int res" where
  "pcr_index k =
     (case k of
        PKInt i \<Rightarrow> Inr i
      | PKStr s \<Rightarrow> (case int_of_str s of Inr i \<Rightarrow> Inr i
          | Inl _ \<Rightarrow> Inl (AttestationError (U ''PCR indexes must be integers.'')))
      | PKOther \<Rightarrow> Inl (AttestationError (U ''PCR indexes must be integers.'')))"

definition pcr_bytes :: "pcr_value \<Rightarrow> bytes res" where
  "pcr_bytes v =
     (case v of
        PVBytes b \<Rightarrow> Inr b
      | PVStr s \<Rightarrow> (case bytes_fromhex s of Inr b \<Rightarrow> Inr b
          | Inl _ \<Rightarrow> Inl (AttestationError (U ''PCR hex values must be valid hexadecimal.'')))
      | PVOther \<Rightarrow> Inl (AttestationError (U ''PCR values must be bytes or hexadecimal strings.'')))"

definition normalize_pcr :: "(int, bytes) odict \<Rightarrow> pcr_key \<times> pcr_value \<Rightarrow> (int, bytes) odict res" where
  "normalize_pcr acc p =
     (case p of (index, value) \<Rightarrow>
       (case pcr_index index of Inl e \<Rightarrow> Inl e
        | Inr i \<Rightarrow>
          (case pcr_bytes value of Inl e \<Rightarrow> Inl e
           | Inr b \<Rightarrow>
             if length b \<notin> {32, 48, 64}
             then Inl (AttestationError (U ''PCR values must be 32, 48, or 64 bytes long.''))
             else Inr (od_set acc i b))))"

definition normalize_pcrs :: "(pcr_key \<times> pcr_value) list \<Rightarrow> (int, bytes) odict res" where
  "normalize_pcrs pcrs = foldR normalize_pcr [] pcrs"

record mock_nsm =
  mn_pcrs :: "(int, bytes) odict"
  mn_module_id :: ustr
  mn_timestamp_ms :: "int option"
  mn_digest :: ustr
  mn_certificate :: bytes
  mn_cabundle :: "bytes list"

text \<open>
  \<open>_default_pcr0\<close>: the environment variable \<open>MOCK_NSM_PCR0\<close>, else 96 times the letter a,
  lowercased (ASCII letters; no other character lowercases to a hexadecimal digit).
\<close>

definition lower_ascii :: "nat \<Rightarrow> nat" where
  "lower_ascii c = (if 65 \<le> c \<and> c \<le> 90 then c + 32 else c)"

definition default_pcr0 :: "ustr option \<Rightarrow> ustr" where
  "default_pcr0 env = map lower_ascii (case env of None \<Rightarrow> replicate 96 97 | Some s \<Rightarrow> s)"

definition ascii_bytes :: "string \<Rightarrow> bytes" where
  "ascii_bytes s = map byte_of (U s)"

definition mock_init :: "ustr option \<Rightarrow> (pcr_key \<times> pcr_value) list option \<Rightarrow> ustr \<Rightarrow> int option
    \<Rightarrow> ustr \<Rightarrow> bytes option \<Rightarrow> bytes list option \<Rightarrow> mock_nsm res" where
  "mock_init env pcrs module_id timestamp_ms digest certificate cabundle =
     (case normalize_pcrs (case pcrs of Some (p # ps) \<Rightarrow> p # ps
              | _ \<Rightarrow> [(PKInt 0, PVStr (default_pcr0 env))]) of
        Inl e \<Rightarrow> Inl e
      | Inr normalized \<Rightarrow> Inr
         \<lparr>mn_pcrs = normalized, mn_module_id = module_id, mn_timestamp_ms = timestamp_ms,
          mn_digest = digest,
          mn_certificate = (case certificate of Some (b # bs) \<Rightarrow> b # bs
             | _ \<Rightarrow> ascii_bytes ''mock-certificate''),
          mn_cabundle = (case cabundle of Some (c # cs) \<Rightarrow> c # cs | _ \<Rightarrow> [ascii_bytes ''mock-ca''])\<rparr>)"

definition opt_entry :: "string \<Rightarrow> bytes option \<Rightarrow> (cbor \<times> cbor) list" where
  "opt_entry name v = (case v of None \<Rightarrow> [] | Some b \<Rightarrow> [(CStr (U name), CBytes b)])"

definition mock_timestamp :: "mock_nsm \<Rightarrow> int \<Rightarrow> int" where
  \<comment> \<open>\<open>self._timestamp_ms or now\<close>\<close>
  "mock_timestamp m now_ms =
     (case mn_timestamp_ms m of None \<Rightarrow> now_ms | Some t \<Rightarrow> if t = 0 then now_ms else t)"

definition mock_payload :: "mock_nsm \<Rightarrow> int \<Rightarrow> bytes option \<Rightarrow> bytes option \<Rightarrow> bytes option
    \<Rightarrow> (cbor \<times> cbor) list" where
  "mock_payload m now_ms public_key user_data nonce =
     [(CStr (U ''module_id''), CStr (mn_module_id m)),
      (CStr (U ''timestamp''), CInt (mock_timestamp m now_ms)),
      (CStr (U ''digest''), CStr (mn_digest m)),
      (CStr (U ''pcrs''), CDict (map (\<lambda>(i, b). (CInt i, CBytes b)) (mn_pcrs m))),
      (CStr (U ''certificate''), CBytes (mn_certificate m)),
      (CStr (U ''cabundle''), CList (map CBytes (mn_cabundle m)))]
     @ opt_entry ''public_key'' public_key
     @ opt_entry ''user_data'' user_data
     @ opt_entry ''nonce'' nonce"

definition mock_get_attestation_document :: "mock_nsm \<Rightarrow> int \<Rightarrow> bytes option \<Rightarrow> bytes option
    \<Rightarrow> bytes option \<Rightarrow> bytes res" where
  "mock_get_attestation_document m now_ms public_key user_data nonce =
     (case cbor_encode (CDict (mock_payload m now_ms public_key user_data nonce)) of
        Inl e \<Rightarrow> Inl e
      | Inr payload_bytes \<Rightarrow>
        cbor_encode (CList [CBytes [], CDict [], CBytes payload_bytes,
          CBytes (ascii_bytes ''mock-signature'')]))"

section \<open>Encoded values are well-formed\<close>

text \<open>
  What the encoder accepted is in its domain, apart from the dictionary keys, which it does
  not look at: here they are those of Python dictionaries.
\<close>

fun keys_ok :: "cbor \<Rightarrow> bool" where
  "keys_ok (CList xs) = list_all keys_ok xs"
| "keys_ok (CDict d) = (distinct (map (\<lambda>p. key_id (fst p)) d)
     \<and> list_all (\<lambda>(k, v). hashable k \<and> keys_ok k \<and> keys_ok v) d)"
| "keys_ok _ = True"

lemma encode_length_Inr: "encode_length m v = Inr h \<Longrightarrow> v < 2 ^ 64"
  by (auto simp: encode_length_def to_bytes_big_def split: if_splits)

lemma encode_sized_Inr: "encode_sized m v b = Inr h \<Longrightarrow> v < 2 ^ 64"
  by (auto simp: encode_sized_def split: sum.splits dest: encode_length_Inr)

lemma cbor_encode_wf: "cbor_encode v = Inr bs \<Longrightarrow> keys_ok v \<Longrightarrow> cbor_wf v"
proof (induction v arbitrary: bs rule: cbor_encode.induct)
  case (3 i)
  then show ?case by (auto split: if_splits dest!: encode_length_Inr)
next
  case (4 b)
  then show ?case by (auto dest: encode_sized_Inr)
next
  case (5 s)
  then show ?case by (auto simp: utf8_encode_def split: if_splits dest: encode_sized_Inr)
next
  case (6 xs)
  then obtain h bss where h: "encode_length 4 (length xs) = Inr h" and m: "mapR cbor_encode xs = Inr bss"
    by (auto split: sum.splits)
  have "cbor_wf x" if x: "x \<in> set xs" for x
  proof -
    obtain b where "cbor_encode x = Inr b"
      using m x by (auto simp: mapR_Inr_iff list_all2_conv_all_nth in_set_conv_nth)
    then show ?thesis using "6.IH" [OF h x] "6.prems"(2) x by (simp add: list_all_iff)
  qed
  then show ?case using encode_length_Inr [OF h] by (simp add: list_all_iff)
next
  case (7 d)
  define f where "f = (\<lambda>(k, v). case cbor_encode k of Inl e \<Rightarrow> Inl e
     | Inr kb \<Rightarrow> (case cbor_encode v of Inl e \<Rightarrow> Inl e | Inr vb \<Rightarrow> Inr (kb @ vb)))"
  from "7.prems"(1) obtain bss where m: "mapR f d = Inr bss"
    and h: "encode_sized 5 (length d) (concat bss) = Inr bs"
    by (auto simp: f_def split: sum.splits)
  have "hashable k \<and> cbor_wf k \<and> cbor_wf v" if p: "(k, v) \<in> set d" for k v
  proof -
    obtain b where "f (k, v) = Inr b"
      using m p by (auto simp: mapR_Inr_iff list_all2_conv_all_nth in_set_conv_nth)
    then obtain kb vb where e: "cbor_encode k = Inr kb" "cbor_encode v = Inr vb"
      by (auto simp: f_def split: sum.splits)
    have ok: "hashable k" "keys_ok k" "keys_ok v"
      using "7.prems"(2) p by (auto simp: list_all_iff)
    show ?thesis
      using ok "7.IH"(1) [OF p refl e(1) ok(2)] "7.IH"(2) [OF p refl e(1) e(2) ok(3)] by blast
  qed
  then show ?case using "7.prems"(2) encode_sized_Inr [OF h] by (auto simp: list_all_iff)
qed simp_all

section \<open>A mock document parses back\<close>

lemma foldR_parse_pcr:
  assumes "distinct (map fst acc @ map (str_int \<circ> fst) d)"
  shows "foldR parse_pcr acc (map (\<lambda>(i, b). (CInt i, CBytes b)) d)
    = Inr (acc @ map (\<lambda>(i, b). (str_int i, bytes_hex b)) d)"
  using assms
proof (induction d arbitrary: acc)
  case (Cons p d)
  obtain i b where p: "p = (i, b)" by (cases p)
  have "str_int i \<notin> fst ` set acc" using Cons.prems by (auto simp: p)
  then have "od_set acc (str_int i) (bytes_hex b) = acc @ [(str_int i, bytes_hex b)]"
    by (induction acc) (auto simp: od_set_def)
  then show ?case using Cons by (simp add: p parse_pcr_def)
qed simp

text \<open>The parsed form of a document of the mock.\<close>

definition mock_parsed :: "mock_nsm \<Rightarrow> int \<Rightarrow> bytes option \<Rightarrow> bytes option \<Rightarrow> bytes option \<Rightarrow> parsed_doc" where
  "mock_parsed m now_ms public_key user_data nonce =
     \<lparr>pd_module_id = mn_module_id m, pd_timestamp_ms = CInt (mock_timestamp m now_ms),
      pd_digest = mn_digest m, pd_pcrs = map (\<lambda>(i, b). (str_int i, bytes_hex b)) (mn_pcrs m),
      pd_public_key = public_key, pd_user_data = user_data, pd_nonce = nonce,
      pd_is_cose_sign1 = True\<rparr>"

lemma parse_fields_mock:
  assumes "od_wf (mn_pcrs m)"
  shows "parse_fields True (mock_payload m now_ms pk ud nc) = Inr (mock_parsed m now_ms pk ud nc)"
proof -
  have "inj_on str_int A" for A by (simp add: inj_on_def)
  then have "distinct (map (str_int \<circ> fst) (mn_pcrs m))"
    using assms by (simp add: od_wf_def distinct_map comp_inj_on)
  then have "foldR parse_pcr [] (map (\<lambda>(i, b). (CInt i, CBytes b)) (mn_pcrs m))
      = Inr (map (\<lambda>(i, b). (str_int i, bytes_hex b)) (mn_pcrs m))"
    using foldR_parse_pcr [of "[]"] by simp
  then show ?thesis
    by (simp add: parse_fields_def mock_payload_def mock_parsed_def opt_bytes_field_def opt_entry_def
        split: option.split)
qed

lemma mock_payload_keys:
  assumes "od_wf (mn_pcrs m)"
  shows "keys_ok (CDict (mock_payload m now_ms pk ud nc))"
proof -
  have "distinct (map (\<lambda>p. key_id (fst p)) (map (\<lambda>(i, b). (CInt i, CBytes b)) (mn_pcrs m)))"
    using assms by (simp add: od_wf_def distinct_map inj_on_def split_beta)
  then show ?thesis
    by (auto simp: mock_payload_def opt_entry_def list_all_iff split: option.split)
qed

lemma mock_payload_depth: "cbor_depth (CDict (mock_payload m now_ms pk ud nc)) \<le> 3"
proof -
  have l: "foldr (\<lambda>x. max (cbor_depth x)) (map CBytes xs) 0 \<le> 1" for xs
    by (induction xs) auto
  have d: "foldr (\<lambda>(k, v). max (max (cbor_depth k) (cbor_depth v)))
     (map (\<lambda>(i, b). (CInt i, CBytes b)) d) 0 \<le> 1" for d
    by (induction d) auto
  show ?thesis
    using l [of "mn_cabundle m"] d [of "mn_pcrs m"]
    by (auto simp: mock_payload_def opt_entry_def split: option.split)
qed

lemma mock_document_parses:
  assumes wf: "od_wf (mn_pcrs m)" and depth: "3 \<le> depth"
    and doc: "mock_get_attestation_document m now_ms pk ud nc = Inr document"
  shows "parse_attestation_document depth document = Inr (mock_parsed m now_ms pk ud nc)"
proof -
  let ?p = "CDict (mock_payload m now_ms pk ud nc)"
  from doc obtain payload where p: "cbor_encode ?p = Inr payload"
    and o: "cbor_encode (CList [CBytes [], CDict [], CBytes payload, CBytes (ascii_bytes ''mock-signature'')])
      = Inr document"
    by (auto simp: mock_get_attestation_document_def split: sum.splits)
  have inner: "cbor_decode depth payload = Inr ?p"
    using cbor_decode_encode [OF cbor_encode_wf [OF p mock_payload_keys [OF wf]], of depth]
      mock_payload_depth [of m now_ms pk ud nc] depth p by auto
  have outer: "cbor_decode depth document
      = Inr (CList [CBytes [], CDict [], CBytes payload, CBytes (ascii_bytes ''mock-signature'')])"
    using cbor_decode_encode [OF cbor_encode_wf [OF o], of depth] depth o by auto
  show ?thesis
    by (simp add: parse_attestation_document_def unwrap_cose_def inner outer parse_fields_mock [OF wf])
qed

section \<open>What the parser accepts\<close>

lemma foldR_parse_pcr_Inr:
  assumes "foldR parse_pcr acc d = Inr pcrs" and "od_wf acc"
  shows "od_wf pcrs" and "\<forall>(k, v) \<in> set d. is_int k \<and> (\<exists>b. v = CBytes b)"
proof -
  show "od_wf pcrs"
    using assms by (rule foldR_invariant) (auto simp: parse_pcr_def split: if_splits cbor.splits)
  show "\<forall>(k, v) \<in> set d. is_int k \<and> (\<exists>b. v = CBytes b)"
    using assms(1)
  proof (induction d arbitrary: acc)
    case (Cons p d)
    then show ?case
      by (auto simp: parse_pcr_def split: sum.splits if_splits cbor.splits prod.splits)
  qed simp
qed

lemma opt_bytes_field_Inr:
  "opt_bytes_field d name = Inr v \<Longrightarrow>
   (case v of None \<Rightarrow> dict_get d (CStr (U name)) \<in> {None, Some CNone}
    | Some b \<Rightarrow> dict_get d (CStr (U name)) = Some (CBytes b))"
  by (auto simp: opt_bytes_field_def split: option.splits cbor.splits)

section \<open>Normalised PCR values\<close>

lemma normalize_pcrs_Inr:
  assumes "normalize_pcrs pcrs = Inr d"
  shows "od_wf d \<and> (\<forall>b \<in> snd ` set d. length b \<in> {32, 48, 64})"
proof -
  have step: "od_wf s' \<and> (\<forall>b \<in> snd ` set s'. length b \<in> {32, 48, 64})"
    if "od_wf s \<and> (\<forall>b \<in> snd ` set s. length b \<in> {32, 48, 64})" "normalize_pcr s x = Inr s'" for s x s'
  proof -
    from that(2) obtain i b where s': "s' = od_set s i b" "length b \<in> {32, 48, 64}"
      by (auto simp: normalize_pcr_def split: prod.splits sum.splits if_splits)
    have "\<forall>b \<in> snd ` set s'. length b \<in> {32, 48, 64}"
      using od_set_values [of s i b] that(1) s' by blast
    with s'(1) that(1) show ?thesis by (simp add: od_wf_set)
  qed
  show ?thesis
    using assms unfolding normalize_pcrs_def
    by (rule foldR_invariant) (simp, rule step, simp_all)
qed

lemma mock_init_wf: "mock_init env pcrs mid ts dg cert cab = Inr m \<Longrightarrow> od_wf (mn_pcrs m)"
  by (auto simp: mock_init_def split: sum.splits dest: normalize_pcrs_Inr)

lemma parse_fields_Inr:
  assumes "parse_fields c d = Inr p"
  shows "dict_get d (CStr (U ''module_id'')) = Some (CStr (pd_module_id p))"
    and "dict_get d (CStr (U ''timestamp'')) = Some (pd_timestamp_ms p)" and "is_int (pd_timestamp_ms p)"
    and "dict_get d (CStr (U ''digest'')) = Some (CStr (pd_digest p))"
    and "\<exists>raw. dict_get d (CStr (U ''pcrs'')) = Some (CDict raw) \<and> foldR parse_pcr [] raw = Inr (pd_pcrs p)"
    and "opt_bytes_field d ''public_key'' = Inr (pd_public_key p)"
    and "opt_bytes_field d ''user_data'' = Inr (pd_user_data p)"
    and "opt_bytes_field d ''nonce'' = Inr (pd_nonce p)"
    and "pd_is_cose_sign1 p = c"
  using assms
  by (auto simp: parse_fields_def split: option.splits cbor.splits if_splits sum.splits)

section \<open>Properties\<close>


definition sample_mock :: mock_nsm where
  \<comment> \<open>a concrete mock, for the witnesses\<close>
  "sample_mock = \<lparr>mn_pcrs = [(0, replicate 32 7)], mn_module_id = U ''mock'',
     mn_timestamp_ms = Some 1700000000000, mn_digest = U ''SHA384'',
     mn_certificate = ascii_bytes ''mock-certificate'', mn_cabundle = [ascii_bytes ''mock-ca'']\<rparr>"

lemma sample_mock_document:
  "\<exists>document. mock_get_attestation_document sample_mock 5 None (Some [1, 2]) None = Inr document"
  by (simp add: sample_mock_def mock_get_attestation_document_def mock_payload_def mock_timestamp_def
      opt_entry_def ascii_bytes_def encode_sized_def encode_length_def to_bytes_big_def
      utf8_encode_def scalar_def utf8_char_def U_def)




text \<open>The constructor of \<open>MockNSM\<close> accepts only PCR values of 32, 48 or 64
  bytes (given raw or in hexadecimal), one per integer index, falls back to the default PCR0
  for a missing or empty mapping, and fails only with \<open>AttestationError\<close>.\<close>

theorem mock_pcr_values:
  "case mock_init env pcrs module_id timestamp_ms digest certificate cabundle of
     Inr m \<Rightarrow> od_wf (mn_pcrs m) \<and> list_all (\<lambda>(i, b). length b \<in> {32, 48, 64}) (mn_pcrs m)
   | Inl e \<Rightarrow> is_AttestationError e"
proof (cases "mock_init env pcrs module_id timestamp_ms digest certificate cabundle")
  case (Inl e)
  have step: "normalize_pcr a p = Inl e \<Longrightarrow> is_AttestationError e" for a p
    by (auto simp: normalize_pcr_def pcr_index_def pcr_bytes_def
        split: prod.splits sum.splits if_splits pcr_key.splits pcr_value.splits)
  from Inl obtain d where "normalize_pcrs d = Inl e"
    by (auto simp: mock_init_def split: sum.splits)
  then have "is_AttestationError e"
    unfolding normalize_pcrs_def using foldR_Inl [of normalize_pcr "[]" d e] step by blast
  with Inl show ?thesis by simp
next
  case (Inr m)
  then obtain d where "normalize_pcrs d = Inr (mn_pcrs m)"
    by (auto simp: mock_init_def split: sum.splits)
  with Inr show ?thesis using normalize_pcrs_Inr [of d "mn_pcrs m"] by (auto simp: list_all_iff)
qed


end
