(* ===== verification/KmsService.thy ===== *)
theory KmsService
  imports Errors Text
begin

text \<open>
  \<open>feature_store/services/kms_service.py\<close>: the host-side wrapper of AWS KMS, and the request
  and response mappings it shares with the enclave's client. The boto3 client is a record of
  its three calls over a world \<open>'w\<close>; log messages are not modelled. The lemmas show that
  every call carries the encryption context of exactly one, non-blank tenant, and which
  exception each failure becomes.
\<close>

section \<open>Requests and responses\<close>

datatype resp_value = RVBytes bytes | RVOther

type_synonym kms_response = "(ustr, resp_value) odict"
type_synonym encryption_context = "(ustr, ustr) odict"

fun resp_bytes :: "resp_value option \<Rightarrow> bytes option" where
  \<comment> \<open>\<open>isinstance(value, (bytes, bytearray))\<close>, then \<open>bytes(value)\<close>\<close>
  "resp_bytes (Some (RVBytes b)) = Some b"
| "resp_bytes _ = None"

record kms_recipient =
  rc_algorithm :: ustr
  rc_document :: bytes

record kms_request =
  rq_key_id :: ustr
  rq_ciphertext :: bytes
  rq_context :: encryption_context
  rq_recipient :: kms_recipient

definition RECIPIENT_KEY_ENCRYPTION_ALGORITHM :: ustr where
  "RECIPIENT_KEY_ENCRYPTION_ALGORITHM = U ''RSAES_OAEP_SHA_256''"

record 'w kms_api =
  api_encrypt :: "ustr \<Rightarrow> bytes \<Rightarrow> encryption_context \<Rightarrow> 'w \<Rightarrow> kms_response res \<times> 'w"
  api_decrypt :: "ustr \<Rightarrow> bytes \<Rightarrow> encryption_context \<Rightarrow> 'w \<Rightarrow> kms_response res \<times> 'w"
  api_generate_data_key :: "ustr \<Rightarrow> ustr \<Rightarrow> encryption_context \<Rightarrow> 'w \<Rightarrow> kms_response res \<times> 'w"

section \<open>The service\<close>

text \<open>The service's only state of its own is the key identifier.\<close>

definition kms_service_init :: "ustr \<Rightarrow> ustr res" where
  "kms_service_init key_id =
     (if strip key_id = [] then Inl (ValueError (U ''key_id must not be empty.''))
      else Inr (strip key_id))"

definition build_encryption_context :: "ustr \<Rightarrow> encryption_context res" where
  "build_encryption_context tenant_id =
     (let normalized = strip tenant_id
      in if normalized = [] then Inl (ValueError (U ''tenant_id must not be empty.''))
         else Inr [(U ''tenant_id'', normalized)])"

definition translate_kms_error :: "string \<Rightarrow> exn \<Rightarrow> exn" where
  "translate_kms_error message e =
     (case e of
        ClientError code \<Rightarrow>
          (let error_code = (case code of Some c \<Rightarrow> c | None \<Rightarrow> U ''UnknownError'')
           in if error_code = U ''InvalidCiphertextException'' then
                KMSServiceError (U message @ U '' The ciphertext or encryption context is invalid.'')
              else if error_code = U ''AccessDeniedException'' then
                KMSServiceError (U message @ U '' Access to the requested KMS operation was denied.'')
              else if error_code = U ''DisabledException'' then
                KMSServiceError (U message @ U '' The configured KMS key is disabled.'')
              else KMSServiceError (U message @ U '' AWS KMS returned '' @ error_code @ U ''.''))
      | _ \<Rightarrow> KMSServiceError (U message))"

definition encrypt_data :: "'w kms_api \<Rightarrow> ustr \<Rightarrow> bytes \<Rightarrow> ustr \<Rightarrow> 'w \<Rightarrow> bytes res \<times> 'w" where
  "encrypt_data api key_id plaintext tenant_id w =
     (if plaintext = [] then (Inl (ValueError (U ''plaintext must not be empty.'')), w)
      else case build_encryption_context tenant_id of
        Inl e \<Rightarrow> (Inl e, w)
      | Inr context \<Rightarrow>
        (case api_encrypt api key_id plaintext context w of
           (Inl e, w') \<Rightarrow>
             (Inl (if is_boto_error e then translate_kms_error ''Failed to encrypt data with KMS.'' e else e), w')
         | (Inr response, w') \<Rightarrow>
           (case resp_bytes (od_get response (U ''CiphertextBlob'')) of
              None \<Rightarrow> (Inl (KMSServiceError (U ''KMS encrypt response did not include a ciphertext blob.'')), w')
            | Some blob \<Rightarrow> (Inr blob, w'))))"

definition decrypt_data :: "'w kms_api \<Rightarrow> ustr \<Rightarrow> bytes \<Rightarrow> ustr \<Rightarrow> 'w \<Rightarrow> bytes res \<times> 'w" where
  "decrypt_data api key_id ciphertext tenant_id w =
     (if ciphertext = [] then (Inl (ValueError (U ''ciphertext must not be empty.'')), w)
      else case build_encryption_context tenant_id of
        Inl e \<Rightarrow> (Inl e, w)
      | Inr context \<Rightarrow>
        (case api_decrypt api key_id ciphertext context w of
           (Inl e, w') \<Rightarrow>
             (Inl (if is_boto_error e then translate_kms_error ''Failed to decrypt data with KMS.'' e else e), w')
         | (Inr response, w') \<Rightarrow>
           (case resp_bytes (od_get response (U ''Plaintext'')) of
              None \<Rightarrow> (Inl (KMSServiceError (U ''KMS decrypt response did not include plaintext data.'')), w')
            | Some plaintext \<Rightarrow> (Inr plaintext, w'))))"

definition generate_data_key :: "'w kms_api \<Rightarrow> ustr \<Rightarrow> ustr \<Rightarrow> 'w \<Rightarrow> (bytes \<times> bytes) res \<times> 'w" where
  "generate_data_key api key_id tenant_id w =
     (case build_encryption_context tenant_id of
        Inl e \<Rightarrow> (Inl e, w)
      | Inr context \<Rightarrow>
        (case api_generate_data_key api key_id (U ''AES_256'') context w of
           (Inl e, w') \<Rightarrow>
             (Inl (if is_boto_error e then translate_kms_error ''Failed to generate a data key with KMS.'' e
                   else e), w')
         | (Inr response, w') \<Rightarrow>
           (case resp_bytes (od_get response (U ''Plaintext'')) of
              None \<Rightarrow> (Inl (KMSServiceError (U ''KMS generate_data_key response did not include plaintext.'')), w')
            | Some plaintext \<Rightarrow>
              (case resp_bytes (od_get response (U ''CiphertextBlob'')) of
                 None \<Rightarrow> (Inl (KMSServiceError (U ''KMS generate_data_key response did not include ciphertext.'')), w')
               | Some blob \<Rightarrow> (Inr (plaintext, blob), w')))))"

definition build_attested_recipient :: "bytes \<Rightarrow> kms_recipient res" where
  "build_attested_recipient document =
     (if document = [] then Inl (ValueError (U ''attestation_document must not be empty.''))
      else Inr \<lparr>rc_algorithm = RECIPIENT_KEY_ENCRYPTION_ALGORITHM, rc_document = document\<rparr>)"

definition prepare_attested_decrypt_request :: "ustr \<Rightarrow> bytes \<Rightarrow> ustr \<Rightarrow> bytes \<Rightarrow> kms_request res" where
  "prepare_attested_decrypt_request key_id ciphertext tenant_id document =
     (if ciphertext = [] then Inl (ValueError (U ''ciphertext must not be empty.''))
      else case build_encryption_context tenant_id of Inl e \<Rightarrow> Inl e
      | Inr context \<Rightarrow>
        (case build_attested_recipient document of Inl e \<Rightarrow> Inl e
         | Inr recipient \<Rightarrow> Inr
            \<lparr>rq_key_id = key_id, rq_ciphertext = ciphertext, rq_context = context,
             rq_recipient = recipient\<rparr>))"

section \<open>Lemmas\<close>

lemma translate_kms_error_kind: "\<exists>m. translate_kms_error message e = KMSServiceError (U message @ m)"
  by (cases e) (simp_all add: translate_kms_error_def Let_def)

lemma build_context_Inr_iff:
  "build_encryption_context t = Inr c \<longleftrightarrow> strip t \<noteq> [] \<and> c = [(U ''tenant_id'', strip t)]"
  by (auto simp: build_encryption_context_def Let_def)

text \<open>
  What a call may do with an API: leave the world as it is, or make one request whose context
  is that of the tenant.
\<close>

definition tenant_request :: "(encryption_context \<Rightarrow> 'w \<Rightarrow> kms_response res \<times> 'w) \<Rightarrow> ustr \<Rightarrow> 'w \<Rightarrow> 'w \<Rightarrow> bool" where
  "tenant_request call tenant_id w w' \<longleftrightarrow>
     w' = w \<or> (strip tenant_id \<noteq> [] \<and> w' = snd (call [(U ''tenant_id'', strip tenant_id)] w))"

section \<open>Properties\<close>

text \<open>C26. Each of \<open>encrypt_data\<close>, \<open>decrypt_data\<close> and
  \<open>generate_data_key\<close> makes at most one KMS call, under the configured key and with the
  encryption context \<open>{"tenant_id": t}\<close> of the trimmed, non-empty tenant id; what they return
  is the bytes of that response, and everything that goes wrong is a \<open>ValueError\<close> for a bad
  argument, a \<open>KMSServiceError\<close>, or an exception of the client that is not a boto error.\<close>

theorem kms_calls_tenant_bound:
  "(case encrypt_data api key_id plaintext tenant_id w of (r, w') \<Rightarrow>
      tenant_request (api_encrypt api key_id plaintext) tenant_id w w'
      \<and> (case r of Inr blob \<Rightarrow> \<exists>resp. fst (api_encrypt api key_id plaintext [(U ''tenant_id'', strip tenant_id)] w)
            = Inr resp \<and> od_get resp (U ''CiphertextBlob'') = Some (RVBytes blob)
         | Inl e \<Rightarrow> \<not> is_boto_error e))
   \<and> (case decrypt_data api key_id ciphertext tenant_id w of (r, w') \<Rightarrow>
      tenant_request (api_decrypt api key_id ciphertext) tenant_id w w'
      \<and> (case r of Inr pt \<Rightarrow> \<exists>resp. fst (api_decrypt api key_id ciphertext [(U ''tenant_id'', strip tenant_id)] w)
            = Inr resp \<and> od_get resp (U ''Plaintext'') = Some (RVBytes pt)
         | Inl e \<Rightarrow> \<not> is_boto_error e))
   \<and> (case generate_data_key api key_id tenant_id w of (r, w') \<Rightarrow>
      tenant_request (api_generate_data_key api key_id (U ''AES_256'')) tenant_id w w'
      \<and> (case r of Inr (pt, blob) \<Rightarrow>
            \<exists>resp. fst (api_generate_data_key api key_id (U ''AES_256'') [(U ''tenant_id'', strip tenant_id)] w)
              = Inr resp \<and> od_get resp (U ''Plaintext'') = Some (RVBytes pt)
              \<and> od_get resp (U ''CiphertextBlob'') = Some (RVBytes blob)
         | Inl e \<Rightarrow> \<not> is_boto_error e))"
proof -
  have rb: "resp_bytes v = Some b \<longleftrightarrow> v = Some (RVBytes b)" for v b
    by (cases v rule: resp_bytes.cases) auto
  have nb: "\<not> is_boto_error (if is_boto_error e then translate_kms_error m e else e)" for m e
    using translate_kms_error_kind [of m e] by auto
  have ctx: "\<not> is_boto_error e" if "build_encryption_context tenant_id = Inl e" for e
    using that by (auto simp: build_encryption_context_def Let_def split: if_splits)
  show ?thesis
    by (intro conjI)
      (auto simp: encrypt_data_def decrypt_data_def generate_data_key_def tenant_request_def rb nb
        build_context_Inr_iff ctx split: sum.split prod.split option.split)
qed

end
