(* ===== verification/Floats.thy ===== *)
theory Floats
  imports Text "HOL-Library.Log_Nat"
begin

text \<open>
  Python floats (IEEE 754 binary64) as far as the code computes with them: rounding to 53
  significant bits, addition, comparison, \<open>float(int)\<close> and \<open>float(str)\<close>. A finite float is
  the rational number it stands for; the sign of zero is not kept.
\<close>

datatype pyfloat = Fin rat | PInf | NInf | NaN

section \<open>Rounding\<close>

definition round_half_even :: "rat \<Rightarrow> int" where
  "round_half_even x =
     (let f = \<lfloor>x\<rfloor>; d = x - of_int f
      in if d < 1 / 2 then f else if d > 1 / 2 then f + 1 else if even f then f else f + 1)"

definition ilog2 :: "rat \<Rightarrow> int" where
  \<comment> \<open>the exponent of the leading binary digit of a positive rational\<close>
  "ilog2 a =
     (case quotient_of a of (p, q) \<Rightarrow>
       let k = bitlen p - bitlen q in if 2 powi k \<le> a then k else k - 1)"

definition round_mag :: "rat \<Rightarrow> rat" where
  \<comment> \<open>a positive rational at 53 significant bits, or at the step of the subnormal numbers\<close>
  "round_mag a =
     (let e = max (ilog2 a - 52) (-1074) in of_int (round_half_even (a / 2 powi e)) * 2 powi e)"

definition float_limit :: rat where
  "float_limit = 2 ^ 1024"

definition round_float :: "rat \<Rightarrow> pyfloat" where
  "round_float r =
     (if r = 0 then Fin 0
      else let v = round_mag \<bar>r\<bar>
           in if v \<ge> float_limit then (if r < 0 then NInf else PInf)
              else Fin (if r < 0 then - v else v))"

definition float_of_int :: "int \<Rightarrow> pyfloat res" where
  "float_of_int i =
     (case round_float (of_int i) of Fin r \<Rightarrow> Inr (Fin r) | _ \<Rightarrow> Inl OverflowError)"

text \<open>
  A number with at most 53 significant bits, in range, is its own rounding.
\<close>

lemma round_half_even_int [simp]: "round_half_even (of_int i) = i"
  by (simp add: round_half_even_def)

lemma ilog2_bounds:
  assumes "0 < a"
  shows "2 powi (ilog2 a) \<le> a" and "a < 2 powi (ilog2 a + 1)"
proof -
  obtain p q where pq: "quotient_of a = (p, q)" by (cases "quotient_of a")
  have q: "0 < q" using quotient_of_denom_pos [OF pq] .
  have a: "a = of_int p / of_int q" using quotient_of_div [OF pq] .
  have p: "0 < p" using assms q by (simp add: a zero_less_divide_iff)
  have pow: "2 powi (bitlen x - 1) \<le> (of_int x :: rat)" "(of_int x :: rat) < 2 powi bitlen x"
    if x: "0 < x" for x
  proof -
    have "1 \<le> bitlen x" using x by (simp add: bitlen_def floorlog_def)
    moreover have "2 ^ nat (bitlen x - 1) \<le> x \<and> x < 2 ^ nat (bitlen x)" using bitlen_bounds [OF x] .
    then have "(of_int (2 ^ nat (bitlen x - 1)) :: rat) \<le> of_int x" "(of_int x :: rat) < of_int (2 ^ nat (bitlen x))"
      by (simp_all only: of_int_le_iff of_int_less_iff)
    ultimately show "2 powi (bitlen x - 1) \<le> (of_int x :: rat)" "(of_int x :: rat) < 2 powi bitlen x"
      by (simp_all add: power_int_def)
  qed
  define k where "k = bitlen p - bitlen q"
  have lo: "2 powi (k - 1) \<le> a"
  proof -
    have "2 powi (k - 1) * (of_int q :: rat) \<le> 2 powi (k - 1) * 2 powi bitlen q"
      using pow(2) [OF q] by (intro mult_left_mono) auto
    also have "\<dots> = 2 powi (bitlen p - 1)" by (simp add: k_def power_int_add [symmetric])
    also have "\<dots> \<le> of_int p" by (rule pow(1) [OF p])
    finally show ?thesis using q by (simp add: a le_divide_eq)
  qed
  have hi: "a < 2 powi (k + 1)"
  proof -
    have "(of_int p :: rat) < 2 powi bitlen p" by (rule pow(2) [OF p])
    also have "\<dots> = 2 powi (k + 1) * 2 powi (bitlen q - 1)" by (simp add: k_def power_int_add [symmetric])
    also have "\<dots> \<le> 2 powi (k + 1) * of_int q"
      using pow(1) [OF q] by (intro mult_left_mono) auto
    finally show ?thesis using q by (simp add: a divide_less_eq)
  qed
  show "2 powi (ilog2 a) \<le> a" "a < 2 powi (ilog2 a + 1)"
    using lo hi by (auto simp: ilog2_def pq k_def [symmetric])
qed

lemma round_float_exact:
  assumes m: "\<bar>m\<bar> < 2 ^ 53" and e: "-1074 \<le> e" and big: "\<bar>of_int m * 2 powi e\<bar> < float_limit"
  shows "round_float (of_int m * 2 powi e) = Fin (of_int m * 2 powi e)"
proof (cases "m = 0")
  case False
  define a :: rat where "a = of_int \<bar>m\<bar> * 2 powi e"
  have a: "\<bar>of_int m * 2 powi e\<bar> = a" by (simp add: a_def abs_mult)
  have pos: "0 < a" using False by (simp add: a_def)
  have "(of_int \<bar>m\<bar> :: rat) < of_int (2 ^ 53)" using m by (simp only: of_int_less_iff)
  then have "a < 2 powi 53 * 2 powi e" by (simp add: a_def)
  also have "\<dots> = 2 powi (53 + e)" by (simp add: power_int_add)
  finally have "2 powi (ilog2 a) < (2 powi (53 + e) :: rat)"
    using ilog2_bounds(1) [OF pos] by simp
  then have "ilog2 a < 53 + e" using power_int_increasing [of "53 + e" "ilog2 a" "2 :: rat"] by (meson leI not_less one_le_numeral)
  define e' where "e' = max (ilog2 a - 52) (-1074)"
  have "e' \<le> e" using \<open>ilog2 a < 53 + e\<close> e by (simp add: e'_def)
  then have "(2 :: rat) powi (e - e') = of_int (2 ^ nat (e - e'))" by (simp add: power_int_def)
  moreover have "(2 :: rat) powi (e - e') = 2 powi e / 2 powi e'" by (simp add: power_int_diff)
  ultimately have "a / 2 powi e' = of_int (\<bar>m\<bar> * 2 ^ nat (e - e'))"
    by (simp only: a_def of_int_mult times_divide_eq_right [symmetric])
  then have "of_int (round_half_even (a / 2 powi e')) = a / 2 powi e'"
    by (simp only: round_half_even_int)
  then have "round_mag a = a" by (simp add: round_mag_def Let_def e'_def [symmetric])
  moreover have "of_int m * 2 powi e = (if m < 0 then - a else a)"
    by (simp add: a_def)
  ultimately show ?thesis
    using False pos big unfolding a by (simp add: round_float_def Let_def a)
qed (simp add: round_float_def)

lemma round_float_int: "\<bar>i\<bar> < 2 ^ 53 \<Longrightarrow> round_float (of_int i) = Fin (of_int i)"
proof -
  assume i: "\<bar>i\<bar> < 2 ^ 53"
  then have "(of_int \<bar>i\<bar> :: rat) < of_int (2 ^ 53)" by (simp only: of_int_less_iff)
  also have "\<dots> \<le> float_limit" by (simp add: float_limit_def)
  finally show ?thesis using round_float_exact [OF i, of 0] by simp
qed

section \<open>Arithmetic and comparison\<close>

fun fadd :: "pyfloat \<Rightarrow> pyfloat \<Rightarrow> pyfloat" where
  "fadd NaN y = NaN"
| "fadd x NaN = NaN"
| "fadd PInf NInf = NaN"
| "fadd NInf PInf = NaN"
| "fadd PInf y = PInf"
| "fadd x PInf = PInf"
| "fadd NInf y = NInf"
| "fadd x NInf = NInf"
| "fadd (Fin a) (Fin b) = round_float (a + b)"

fun fle :: "pyfloat \<Rightarrow> pyfloat \<Rightarrow> bool" where
  \<comment> \<open>\<open>x <= y\<close>: false when either is not a number\<close>
  "fle NaN y = False"
| "fle x NaN = False"
| "fle NInf y = True"
| "fle x PInf = True"
| "fle (Fin a) (Fin b) = (a \<le> b)"
| "fle x y = False"

lemma fle_trans: "fle x y \<Longrightarrow> fle y z \<Longrightarrow> fle x z"
  by (cases x; cases y; cases z) auto

lemma fle_refl: "x \<noteq> NaN \<Longrightarrow> fle x x"
  by (cases x) auto

fun fneg :: "pyfloat \<Rightarrow> pyfloat" where
  "fneg NaN = NaN"
| "fneg PInf = NInf"
| "fneg NInf = PInf"
| "fneg (Fin a) = Fin (- a)"

definition fsub :: "pyfloat \<Rightarrow> pyfloat \<Rightarrow> pyfloat" where
  "fsub x y = fadd x (fneg y)"

fun fsgn :: "pyfloat \<Rightarrow> rat" where
  "fsgn NaN = 0"
| "fsgn PInf = 1"
| "fsgn NInf = -1"
| "fsgn (Fin a) = sgn a"

definition fmul :: "pyfloat \<Rightarrow> pyfloat \<Rightarrow> pyfloat" where
  \<comment> \<open>infinity times zero is not a number\<close>
  "fmul x y =
     (case (x, y) of
        (Fin a, Fin b) \<Rightarrow> round_float (a * b)
      | _ \<Rightarrow> if fsgn x * fsgn y = 0 then NaN else if fsgn x * fsgn y > 0 then PInf else NInf)"

definition fmax :: "pyfloat \<Rightarrow> pyfloat \<Rightarrow> pyfloat" where
  \<comment> \<open>\<open>np.maximum\<close>\<close>
  "fmax x y = (if x = NaN \<or> y = NaN then NaN else if fle x y then y else x)"

definition np_max :: "pyfloat list \<Rightarrow> pyfloat res" where
  "np_max xs =
     (case xs of [] \<Rightarrow> Inl (ValueError (U ''zero-size array to reduction operation maximum which has no identity''))
      | x # r \<Rightarrow> Inr (foldl fmax x r))"

section \<open>float(str)\<close>

definition lower_str :: "ustr \<Rightarrow> ustr" where
  "lower_str s = map (\<lambda>c. if 65 \<le> c \<and> c \<le> 90 then c + 32 else c) s"

definition opt_digits :: "ustr \<Rightarrow> ustr option" where
  \<comment> \<open>a possibly empty run of digits with single underscores between them\<close>
  "opt_digits s = (if s = [] then Some [] else int_digits False s)"

definition split_at :: "nat \<Rightarrow> ustr \<Rightarrow> ustr \<times> ustr option" where
  \<comment> \<open>the text before the first \<open>c\<close>, and the text after it if there is one\<close>
  "split_at c s = (takeWhile (\<lambda>x. x \<noteq> c) s,
     (case dropWhile (\<lambda>x. x \<noteq> c) s of [] \<Rightarrow> None | _ # r \<Rightarrow> Some r))"

definition decimal_exponent :: "ustr option \<Rightarrow> int option" where
  "decimal_exponent e =
     (case e of None \<Rightarrow> Some 0
      | Some s \<Rightarrow>
        (let (neg, t) = (case s of [] \<Rightarrow> (False, [])
              | c # r \<Rightarrow> if c = 45 then (True, r) else if c = 43 then (False, r) else (False, s))
         in case int_digits False t of None \<Rightarrow> None
            | Some ds \<Rightarrow> Some (if neg then - int (dec_val ds) else int (dec_val ds))))"

definition decimal_of_str :: "ustr \<Rightarrow> rat option" where
  \<comment> \<open>an unsigned decimal literal, exactly\<close>
  "decimal_of_str s =
     (let (m, e) = split_at 101 s; (ip, fp) = split_at 46 m
      in case (opt_digits ip, opt_digits (case fp of None \<Rightarrow> [] | Some f \<Rightarrow> f), decimal_exponent e) of
           (Some i, Some f, Some x) \<Rightarrow>
             if i @ f = [] then None
             else Some (of_nat (dec_val (i @ f)) * 10 powi (x - int (length f)))
         | _ \<Rightarrow> None)"

definition float_of_str :: "ustr \<Rightarrow> pyfloat res" where
  "float_of_str s =
     (let t = lower_str (strip s);
          (neg, u) = (case t of [] \<Rightarrow> (False, [])
            | c # r \<Rightarrow> if c = 45 then (True, r) else if c = 43 then (False, r) else (False, t))
      in if u = U ''inf'' \<or> u = U ''infinity'' then Inr (if neg then NInf else PInf)
         else if u = U ''nan'' then Inr NaN
         else case decimal_of_str u of
                None \<Rightarrow> Inl (ValueError (U ''could not convert string to float''))
              | Some r \<Rightarrow> Inr (round_float (if neg then - r else r)))"

section \<open>repr(float)\<close>

text \<open>
  The shortest decimal that reads back as the float, the closest one if there are several,
  in Python's layout: fixed notation while the decimal point lies between the fourth zero
  and the sixteenth digit, scientific notation otherwise.
\<close>

definition ilog10 :: "rat \<Rightarrow> int" where
  "ilog10 a =
     (case quotient_of a of (p, q) \<Rightarrow>
       let k = int (length (str_nat (nat p))) - int (length (str_nat (nat q)))
       in if 10 powi k \<le> a then k else k - 1)"

definition decimal_digits :: "rat \<Rightarrow> nat \<Rightarrow> (nat \<times> int) option" where
  \<comment> \<open>an \<open>n\<close>-digit decimal \<open>m * 10^x\<close> that rounds to the positive float \<open>a\<close>\<close>
  "decimal_digits a n =
     (let x = ilog10 a - int n + 1; s = 10 powi x; q = a / s; lo = \<lfloor>q\<rfloor>;
          c1 = (if q - of_int lo \<le> 1 / 2 then lo else lo + 1);
          c2 = (if q - of_int lo \<le> 1 / 2 then lo + 1 else lo);
          reads = (\<lambda>m. round_float (of_int m * s) = Fin a)
      in if reads c1 then Some (nat c1, x) else if reads c2 then Some (nat c2, x) else None)"

definition shortest_digits :: "rat \<Rightarrow> nat \<times> int" where
  "shortest_digits a =
     (case List.find (\<lambda>r. r \<noteq> None) (map (\<lambda>n. decimal_digits a n) [1..<18]) of
        Some (Some r) \<Rightarrow> r
      | _ \<Rightarrow> (0, 0))"

definition strip_zeros :: "ustr \<Rightarrow> ustr" where
  "strip_zeros ds = rev (dropWhile (\<lambda>c. c = 48) (rev ds))"

definition layout_digits :: "ustr \<Rightarrow> int \<Rightarrow> ustr" where
  \<comment> \<open>digits \<open>ds\<close> with the decimal point after \<open>decpt\<close> of them\<close>
  "layout_digits ds decpt =
     (if -4 < decpt \<and> decpt \<le> 16 then
        (if decpt \<le> 0 then U ''0.'' @ replicate (nat (- decpt)) 48 @ ds
         else if decpt \<ge> int (length ds) then ds @ replicate (nat decpt - length ds) 48 @ U ''.0''
         else take (nat decpt) ds @ [46] @ drop (nat decpt) ds)
      else
        (let e = decpt - 1; es = str_nat (nat \<bar>e\<bar>)
         in take 1 ds @ (if length ds > 1 then 46 # drop 1 ds else []) @ [101]
            @ [if e < 0 then 45 else 43] @ (if length es < 2 then 48 # es else es)))"

definition repr_pos :: "rat \<Rightarrow> ustr" where
  "repr_pos a =
     (case shortest_digits a of (m, x) \<Rightarrow>
       let ds = str_nat m in layout_digits (strip_zeros ds) (int (length ds) + x))"

fun float_repr :: "pyfloat \<Rightarrow> ustr" where
  "float_repr NaN = U ''nan''"
| "float_repr PInf = U ''inf''"
| "float_repr NInf = U ''-inf''"
| "float_repr (Fin r) =
     (if r = 0 then U ''0.0'' else if r < 0 then 45 # repr_pos (- r) else repr_pos r)"

end
