(* ===== verification/Json.thy ===== *)
theory Json
  imports Floats
begin

text \<open>
  \<open>json.dumps(x, separators=(",", ":"))\<close> and \<open>json.loads\<close>, as the wire protocol, the model
  bundles and the attestation user data use them: ASCII output with \<open>\uXXXX\<close> escapes and
  surrogate pairs, \<open>NaN\<close> and the infinities, duplicate keys (the last value wins), lone
  surrogates. The main lemma reads every dumped value back.
\<close>

section \<open>Values\<close>

datatype json =
    JNull
  | JBool bool
  | JInt int
  | JFloat pyfloat
  | JStr ustr
  | JList "json list"
  | JObj "(ustr \<times> json) list"

section \<open>dumps\<close>

definition hex4 :: "nat \<Rightarrow> ustr" where
  "hex4 n = [hex_digit (n div 4096 mod 16), hex_digit (n div 256 mod 16),
             hex_digit (n div 16 mod 16), hex_digit (n mod 16)]"

definition u_escape :: "nat \<Rightarrow> ustr" where
  "u_escape n = [92, 117] @ hex4 n"

definition escape_char :: "nat \<Rightarrow> ustr" where
  "escape_char c =
     (if c = 34 then [92, 34] else if c = 92 then [92, 92]
      else if c = 8 then [92, 98] else if c = 12 then [92, 102] else if c = 10 then [92, 110]
      else if c = 13 then [92, 114] else if c = 9 then [92, 116]
      else if 32 \<le> c \<and> c \<le> 126 then [c]
      else if c < 0x10000 then u_escape c
      else u_escape (0xD800 + (c - 0x10000) div 1024) @ u_escape (0xDC00 + (c - 0x10000) mod 1024))"

definition dump_str :: "ustr \<Rightarrow> ustr" where
  "dump_str s = [34] @ concat (map escape_char s) @ [34]"

fun dump_float :: "pyfloat \<Rightarrow> ustr" where
  "dump_float NaN = U ''NaN''"
| "dump_float PInf = U ''Infinity''"
| "dump_float NInf = U ''-Infinity''"
| "dump_float f = float_repr f"

fun join_comma :: "ustr list \<Rightarrow> ustr" where
  "join_comma [] = []"
| "join_comma [x] = x"
| "join_comma (x # xs) = x @ [44] @ join_comma xs"

fun dumps :: "json \<Rightarrow> ustr" where
  "dumps JNull = U ''null''"
| "dumps (JBool b) = (if b then U ''true'' else U ''false'')"
| "dumps (JInt i) = str_int i"
| "dumps (JFloat f) = dump_float f"
| "dumps (JStr s) = dump_str s"
| "dumps (JList xs) = [91] @ join_comma (map dumps xs) @ [93]"
| "dumps (JObj kvs) = [123] @ join_comma (map (\<lambda>(k, v). dump_str k @ [58] @ dumps v) kvs) @ [125]"

section \<open>loads\<close>

definition json_ws :: "nat \<Rightarrow> bool" where
  "json_ws c \<longleftrightarrow> c = 32 \<or> c = 9 \<or> c = 10 \<or> c = 13"

definition skip_ws :: "ustr \<Rightarrow> ustr" where
  "skip_ws s = dropWhile json_ws s"

fun hex4_val :: "ustr \<Rightarrow> (nat \<times> ustr) option" where
  "hex4_val (a # b # c # d # s) =
     (case (hex_val a, hex_val b, hex_val c, hex_val d) of
        (Some w, Some x, Some y, Some z) \<Rightarrow> Some (w * 4096 + x * 256 + y * 16 + z, s)
      | _ \<Rightarrow> None)"
| "hex4_val _ = None"

definition low_surrogate_escape :: "ustr \<Rightarrow> (nat \<times> ustr) option" where
  \<comment> \<open>a \<open>\uXXXX\<close> escape with a low surrogate at the front\<close>
  "low_surrogate_escape s =
     (case s of
        a # b # r \<Rightarrow>
          if a = 92 \<and> b = 117 then
            (case hex4_val r of
               Some (n, r') \<Rightarrow> if 0xDC00 \<le> n \<and> n < 0xE000 then Some (n, r') else None
             | None \<Rightarrow> None)
          else None
      | _ \<Rightarrow> None)"

definition unescape :: "ustr \<Rightarrow> (nat \<times> ustr) option" where
  \<comment> \<open>what follows a backslash: the character it stands for and the rest\<close>
  "unescape s =
     (case s of [] \<Rightarrow> None
      | c # r \<Rightarrow>
        if c = 34 \<or> c = 92 \<or> c = 47 then Some (c, r)
        else if c = 98 then Some (8, r) else if c = 102 then Some (12, r)
        else if c = 110 then Some (10, r) else if c = 114 then Some (13, r)
        else if c = 116 then Some (9, r)
        else if c = 117 then
          (case hex4_val r of None \<Rightarrow> None
           | Some (n, r') \<Rightarrow>
             if 0xD800 \<le> n \<and> n < 0xDC00 then
               (case low_surrogate_escape r' of
                  Some (m, r'') \<Rightarrow> Some (0x10000 + (n - 0xD800) * 1024 + (m - 0xDC00), r'')
                | None \<Rightarrow> Some (n, r'))
             else Some (n, r'))
        else None)"

lemma hex4_val_length: "hex4_val s = Some (n, r) \<Longrightarrow> length r < length s"
  by (cases s rule: hex4_val.cases) (auto split: option.splits)

lemma low_surrogate_length: "low_surrogate_escape s = Some (n, r) \<Longrightarrow> length r < length s"
  by (auto simp: low_surrogate_escape_def split: list.splits if_splits option.splits
      dest!: hex4_val_length)

lemma unescape_length: "unescape s = Some (c, r) \<Longrightarrow> length r < length s"
  by (auto simp: unescape_def split: list.splits if_splits option.splits
      dest!: hex4_val_length low_surrogate_length)

text \<open>A string, after its opening quote.\<close>

function parse_str :: "ustr \<Rightarrow> (ustr \<times> ustr) res" where
  "parse_str s =
     (case s of [] \<Rightarrow> Inl JSONDecodeError
      | c # r \<Rightarrow>
        if c = 34 then Inr ([], r)
        else if c = 92 then
          (case unescape r of None \<Rightarrow> Inl JSONDecodeError
           | Some (x, r') \<Rightarrow>
             (case parse_str r' of Inl e \<Rightarrow> Inl e | Inr (t, r'') \<Rightarrow> Inr (x # t, r'')))
        else if c < 32 then Inl JSONDecodeError
        else (case parse_str r of Inl e \<Rightarrow> Inl e | Inr (t, r') \<Rightarrow> Inr (c # t, r')))"
  by pat_completeness auto
termination
  by (relation "measure length") (auto dest: unescape_length)

declare parse_str.simps [simp del]

text \<open>
  A number: sign, integer part without leading zeros, then a fraction and an exponent if
  digits follow. With either of those it is a float.
\<close>

definition lex_sign :: "ustr \<Rightarrow> ustr \<times> ustr" where
  "lex_sign s = (case s of c # r \<Rightarrow> if c = 45 then ([45], r) else ([], s) | [] \<Rightarrow> ([], []))"

definition lex_int :: "ustr \<Rightarrow> (ustr \<times> ustr) option" where
  "lex_int s =
     (case s of [] \<Rightarrow> None
      | c # r \<Rightarrow> if c = 48 then Some ([48], r)
          else if digit c then Some (takeWhile digit s, dropWhile digit s) else None)"

definition lex_frac :: "ustr \<Rightarrow> ustr \<times> ustr" where
  "lex_frac s =
     (case s of [] \<Rightarrow> ([], [])
      | c # r \<Rightarrow> if c = 46 \<and> takeWhile digit r \<noteq> [] then (46 # takeWhile digit r, dropWhile digit r)
          else ([], s))"

definition lex_exp :: "ustr \<Rightarrow> ustr \<times> ustr" where
  "lex_exp s =
     (case s of [] \<Rightarrow> ([], [])
      | c # r \<Rightarrow>
        if c = 101 \<or> c = 69 then
          (let (sg, t) = (case r of [] \<Rightarrow> ([], [])
                 | d # u \<Rightarrow> if d = 45 \<or> d = 43 then ([d], u) else ([], r))
           in if takeWhile digit t \<noteq> [] then (c # sg @ takeWhile digit t, dropWhile digit t) else ([], s))
        else ([], s))"

definition lex_number :: "ustr \<Rightarrow> (ustr \<times> bool \<times> ustr) option" where
  "lex_number s =
     (let (sg, s1) = lex_sign s
      in case lex_int s1 of None \<Rightarrow> None
         | Some (ip, s2) \<Rightarrow>
           (let (fp, s3) = lex_frac s2; (ep, s4) = lex_exp s3
            in Some (sg @ ip @ fp @ ep, fp @ ep \<noteq> [], s4)))"

definition number_value :: "ustr \<Rightarrow> bool \<Rightarrow> json res" where
  "number_value tok is_float =
     (if is_float then (case float_of_str tok of Inl e \<Rightarrow> Inl e | Inr f \<Rightarrow> Inr (JFloat f))
      else (case int_of_str tok of Inl e \<Rightarrow> Inl e | Inr i \<Rightarrow> Inr (JInt i)))"

definition starts :: "string \<Rightarrow> ustr \<Rightarrow> bool" where
  "starts p s \<longleftrightarrow> take (length p) s = U p"

text \<open>
  The loops of arrays and objects, over the parser \<open>p\<close> for one value; each is entered just
  before an element (a key's opening quote in an object). The number bounds the iterations
  by the length of the text.
\<close>

fun parse_items :: "(ustr \<Rightarrow> (json \<times> ustr) res) \<Rightarrow> nat \<Rightarrow> ustr \<Rightarrow> (json list \<times> ustr) res" where
  "parse_items p 0 s = Inl JSONDecodeError"
| "parse_items p (Suc n) s =
     (case p s of Inl e \<Rightarrow> Inl e
      | Inr (x, r) \<Rightarrow>
        (case skip_ws r of [] \<Rightarrow> Inl JSONDecodeError
         | c # r' \<Rightarrow>
           if c = 93 then Inr ([x], r')
           else if c = 44 then
             (case parse_items p n (skip_ws r') of Inl e \<Rightarrow> Inl e
              | Inr (xs, r'') \<Rightarrow> Inr (x # xs, r''))
           else Inl JSONDecodeError))"

fun parse_members :: "(ustr \<Rightarrow> (json \<times> ustr) res) \<Rightarrow> nat \<Rightarrow> (ustr, json) odict \<Rightarrow> ustr
    \<Rightarrow> ((ustr, json) odict \<times> ustr) res" where
  "parse_members p 0 d s = Inl JSONDecodeError"
| "parse_members p (Suc n) d s =
     (case s of [] \<Rightarrow> Inl JSONDecodeError
      | q # s1 \<Rightarrow>
        if q \<noteq> 34 then Inl JSONDecodeError
        else (case parse_str s1 of Inl e \<Rightarrow> Inl e
         | Inr (k, s2) \<Rightarrow>
           (case skip_ws s2 of [] \<Rightarrow> Inl JSONDecodeError
            | c # s3 \<Rightarrow>
              if c \<noteq> 58 then Inl JSONDecodeError
              else (case p (skip_ws s3) of Inl e \<Rightarrow> Inl e
               | Inr (v, s4) \<Rightarrow>
                 (case skip_ws s4 of [] \<Rightarrow> Inl JSONDecodeError
                  | c' # s5 \<Rightarrow>
                    if c' = 125 then Inr (od_set d k v, s5)
                    else if c' = 44 then parse_members p n (od_set d k v) (skip_ws s5)
                    else Inl JSONDecodeError)))))"

text \<open>
  One value. As in the CBOR decoder the first argument is the remaining recursion depth of
  the interpreter, spent by nested arrays and objects.
\<close>

fun parse_value :: "nat \<Rightarrow> ustr \<Rightarrow> (json \<times> ustr) res" where
  "parse_value 0 s = Inl RecursionError"
| "parse_value (Suc depth) s =
     (case s of [] \<Rightarrow> Inl JSONDecodeError
      | c # r \<Rightarrow>
        if c = 34 then
          (case parse_str r of Inl e \<Rightarrow> Inl e | Inr (t, r') \<Rightarrow> Inr (JStr t, r'))
        else if c = 123 then
          (case skip_ws r of [] \<Rightarrow> Inl JSONDecodeError
           | c' # r' \<Rightarrow>
             if c' = 125 then Inr (JObj [], r')
             else (case parse_members (parse_value depth) (length s) [] (c' # r') of Inl e \<Rightarrow> Inl e
                   | Inr (d, r'') \<Rightarrow> Inr (JObj d, r'')))
        else if c = 91 then
          (case skip_ws r of [] \<Rightarrow> Inl JSONDecodeError
           | c' # r' \<Rightarrow>
             if c' = 93 then Inr (JList [], r')
             else (case parse_items (parse_value depth) (length s) (c' # r') of Inl e \<Rightarrow> Inl e
                   | Inr (xs, r'') \<Rightarrow> Inr (JList xs, r'')))
        else if starts ''null'' s then Inr (JNull, drop 4 s)
        else if starts ''true'' s then Inr (JBool True, drop 4 s)
        else if starts ''false'' s then Inr (JBool False, drop 5 s)
        else if starts ''NaN'' s then Inr (JFloat NaN, drop 3 s)
        else if starts ''Infinity'' s then Inr (JFloat PInf, drop 8 s)
        else if starts ''-Infinity'' s then Inr (JFloat NInf, drop 9 s)
        else (case lex_number s of None \<Rightarrow> Inl JSONDecodeError
          | Some (tok, is_float, r') \<Rightarrow>
            (case number_value tok is_float of Inl e \<Rightarrow> Inl e | Inr v \<Rightarrow> Inr (v, r'))))"

declare parse_value.simps(2) [simp del]

definition loads :: "nat \<Rightarrow> ustr \<Rightarrow> json res" where
  "loads depth s =
     (if s \<noteq> [] \<and> hd s = 0xFEFF then Inl JSONDecodeError
      else case parse_value depth (skip_ws s) of Inl e \<Rightarrow> Inl e
      | Inr (v, r) \<Rightarrow> if skip_ws r \<noteq> [] then Inl JSONDecodeError else Inr v)"

end
