(* ===== verification/Sha256.thy ===== *)
theory Sha256
  imports Text
begin

unbundle bit_operations_syntax

text \<open>
  \<open>hashlib.sha256\<close>, which the key cache of \<open>enclave/kms_client.py\<close> uses for its keys: the
  FIPS 180-4 algorithm on 32-bit words. \<open>update\<close> concatenates its arguments, so a digest is
  a function of all the bytes fed to it.
\<close>

type_synonym word32 = "32 word"

definition rotr :: "nat \<Rightarrow> word32 \<Rightarrow> word32" where
  "rotr n x = drop_bit n x OR push_bit (32 - n) x"

definition sigma0 :: "word32 \<Rightarrow> word32" where
  "sigma0 x = rotr 7 x XOR rotr 18 x XOR drop_bit 3 x"

definition sigma1 :: "word32 \<Rightarrow> word32" where
  "sigma1 x = rotr 17 x XOR rotr 19 x XOR drop_bit 10 x"

text \<open>
  The constants of the standard are the first 32 bits of the fractional parts of roots of primes:
  cube roots of the first 64 primes for the rounds, square roots of the first eight for the
  initial hash. \<open>root_bits k x b r\<close> finds the integer \<open>k\<close>-th root of \<open>x\<close> bit by bit, so that the
  tables are computed. (The binary point of the roots is \<open>32\<close> bits up, and no root has more than
  40 bits.)
\<close>

primrec root_bits :: "nat \<Rightarrow> int \<Rightarrow> nat \<Rightarrow> int \<Rightarrow> int" where
  "root_bits k x 0 r = r"
| "root_bits k x (Suc b) r = root_bits k x b (if (r + 2 ^ b) ^ k \<le> x then r + 2 ^ b else r)"

definition root_fraction :: "nat \<Rightarrow> int \<Rightarrow> word32" where
  "root_fraction k p = word_of_int (root_bits k (p * 2 ^ (32 * k)) 40 0)"

definition primes_below :: "int \<Rightarrow> int list" where
  "primes_below n = filter (\<lambda>p. list_all (\<lambda>d. p mod d \<noteq> 0) [2..p - 1]) [2..n - 1]"

definition round_constants :: "word32 list" where
  "round_constants = map (root_fraction 3) (primes_below 312)"

definition initial_hash :: "word32 list" where
  "initial_hash = map (root_fraction 2) [2, 3, 5, 7, 11, 13, 17, 19]"

definition sha_pad :: "bytes \<Rightarrow> bytes" where
  "sha_pad m =
     (let l = length m
      in m @ [0x80] @ replicate (63 - (l + 8) mod 64) 0 @ be_bytes 8 (8 * l mod 2 ^ 64))"

fun words_of :: "bytes \<Rightarrow> word32 list" where
  "words_of (a # b # c # d # r) = word_of_nat (from_bytes_big [a, b, c, d]) # words_of r"
| "words_of _ = []"

text \<open>
  The message schedule, newest word first: \<open>n\<close> more words in front of the sixteen of a block.
\<close>

fun schedule :: "nat \<Rightarrow> word32 list \<Rightarrow> word32 list" where
  "schedule 0 ws = ws"
| "schedule (Suc n) ws =
     schedule n ((sigma1 (ws ! 1) + ws ! 6 + sigma0 (ws ! 14) + ws ! 15) # ws)"

fun sha_round :: "word32 list \<Rightarrow> word32 \<times> word32 \<Rightarrow> word32 list" where
  "sha_round [a, b, c, d, e, f, g, h] (k, w) =
     (let s1 = rotr 6 e XOR rotr 11 e XOR rotr 25 e;
          ch = (e AND f) XOR (NOT e AND g);
          t1 = h + s1 + ch + k + w;
          s0 = rotr 2 a XOR rotr 13 a XOR rotr 22 a;
          maj = (a AND b) XOR (a AND c) XOR (b AND c);
          t2 = s0 + maj
      in [t1 + t2, a, b, c, d + t1, e, f, g])"
| "sha_round v _ = v"

definition sha_block :: "word32 list \<Rightarrow> bytes \<Rightarrow> word32 list" where
  "sha_block h block =
     map2 (+) h (foldl sha_round h (zip round_constants (rev (schedule 48 (rev (words_of block))))))"

function sha_blocks :: "word32 list \<Rightarrow> bytes \<Rightarrow> word32 list" where
  "sha_blocks h m = (if length m < 64 then h else sha_blocks (sha_block h (take 64 m)) (drop 64 m))"
  by pat_completeness auto
termination
  by (relation "measure (length \<circ> snd)") auto

declare sha_blocks.simps [simp del]

definition sha256 :: "bytes \<Rightarrow> bytes" where
  "sha256 m = concat (map (\<lambda>w. be_bytes 4 (unat w)) (sha_blocks initial_hash (sha_pad m)))"

definition sha256_hexdigest :: "bytes \<Rightarrow> ustr" where
  "sha256_hexdigest m = bytes_hex (sha256 m)"

lemma length_sha_round: "length (sha_round v kw) = length v"
  by (cases "(v, kw)" rule: sha_round.cases) (simp_all add: Let_def)

lemma length_sha_block: "length (sha_block h m) = length h"
proof -
  have "length (foldl sha_round v kws) = length v" for v kws
    by (induction kws arbitrary: v) (simp_all add: length_sha_round)
  then show ?thesis by (simp add: sha_block_def)
qed

lemma length_sha_blocks: "length (sha_blocks h m) = length h"
proof (induction h m rule: sha_blocks.induct)
  case (1 h m)
  then show ?case by (subst sha_blocks.simps) (simp add: length_sha_block)
qed

lemma length_sha256 [simp]: "length (sha256 m) = 32"
proof -
  have "length (concat (map (\<lambda>w. be_bytes 4 (unat w)) ws)) = 4 * length ws" for ws :: "word32 list"
    by (induction ws) simp_all
  then show ?thesis by (simp add: sha256_def length_sha_blocks initial_hash_def)
qed

text \<open>The padded message fills whole blocks.\<close>

lemma length_sha_pad: "length (sha_pad m) mod 64 = 0"
proof -
  let ?r = "(length m + 8) mod 64"
  have "?r \<le> 63" by (simp add: less_Suc_eq_le [symmetric])
  then have "length (sha_pad m) = (length m + 8 - ?r) + 64"
    by (simp add: sha_pad_def Let_def)
  also have "\<dots> mod 64 = 0" by (simp add: minus_mod_eq_mult_div)
  finally show ?thesis .
qed

end
