(* ===== verification/KmsClient.thy ===== *)
theory KmsClient
  imports KmsService Json Sha256 Base64
begin

text \<open>
  \<open>enclave/kms_client.py\<close>: \<open>EnclaveKMSClient\<close>, which decrypts data keys through the host's
  KMS proxy and keeps them in a cache with a time to live and a maximal size. The
  collaborators of the constructor (attestation provider, proxy transport, unwrap handler,
  monotonic clock) are a record of functions over a world \<open>'w\<close> they may change. The sections
  under \<open>_cache_lock\<close> are the steps of a transition relation, so the invariant and the
  contents of the cache are proved for every interleaving of concurrent callers.
\<close>

section \<open>State\<close>

record cache_entry =
  ce_plaintext :: bytes
  ce_expires_at :: pyfloat

type_synonym key_cache = "(ustr, cache_entry) odict"

record kms_client =
  kc_key_id :: ustr
  kc_cache_ttl_seconds :: pyfloat
  kc_max_cache_size :: int
  kc_attestation_public_key :: "bytes option"
  kc_cache :: key_cache

record 'w kms_env =
  ke_clock :: "'w \<Rightarrow> pyfloat \<times> 'w"
  ke_attestation_provider :: "bytes option \<Rightarrow> bytes option \<Rightarrow> bytes option \<Rightarrow> 'w \<Rightarrow> bytes res \<times> 'w"
  ke_proxy_transport :: "kms_request \<Rightarrow> 'w \<Rightarrow> kms_response res \<times> 'w"
  ke_unwrap :: "(kms_response \<Rightarrow> 'w \<Rightarrow> bytes res \<times> 'w) option"

section \<open>Configuration\<close>

definition resolve_cache_ttl :: "ustr option \<Rightarrow> pyfloat option \<Rightarrow> pyfloat res" where
  \<comment> \<open>the first argument is the environment variable\<close>
  "resolve_cache_ttl env value =
     (case (case value of Some v \<Rightarrow> Inr v
            | None \<Rightarrow> float_of_str (case env of Some s \<Rightarrow> s | None \<Rightarrow> U ''60.0'')) of
        Inl e \<Rightarrow> Inl e
      | Inr resolved \<Rightarrow>
        if fle resolved (Fin 0) then Inl (ValueError (U ''cache_ttl_seconds must be greater than 0.''))
        else Inr resolved)"

definition resolve_cache_size :: "ustr option \<Rightarrow> int option \<Rightarrow> int res" where
  "resolve_cache_size env value =
     (case (case value of Some v \<Rightarrow> Inr v
            | None \<Rightarrow> int_of_str (case env of Some s \<Rightarrow> s | None \<Rightarrow> U ''128'')) of
        Inl e \<Rightarrow> Inl e
      | Inr resolved \<Rightarrow>
        if resolved \<le> 0 then Inl (ValueError (U ''max_cache_size must be greater than 0.''))
        else Inr resolved)"

definition load_public_key_from_env :: "ustr option \<Rightarrow> bytes option res" where
  "load_public_key_from_env env =
     (case env of
        None \<Rightarrow> Inr None
      | Some encoded_key \<Rightarrow>
        if encoded_key = [] then Inr None
        else (case b64decode encoded_key of
            Inl e \<Rightarrow> Inl (if is_ValueError e
              then ValueError (U ''ENCLAVE_ATTESTATION_PUBLIC_KEY_B64 is not valid base64.'') else e)
          | Inr key \<Rightarrow> Inr (Some key)))"

record kms_environ =
  env_ttl :: "ustr option"
  env_max_size :: "ustr option"
  env_public_key :: "ustr option"

definition kms_client_init :: "kms_environ \<Rightarrow> ustr \<Rightarrow> pyfloat option \<Rightarrow> int option \<Rightarrow> bytes option
    \<Rightarrow> kms_client res" where
  "kms_client_init env key_id cache_ttl_seconds max_cache_size attestation_public_key =
     (if strip key_id = [] then Inl (ValueError (U ''key_id must not be empty.''))
      else case resolve_cache_ttl (env_ttl env) cache_ttl_seconds of Inl e \<Rightarrow> Inl e
      | Inr ttl \<Rightarrow>
        (case resolve_cache_size (env_max_size env) max_cache_size of Inl e \<Rightarrow> Inl e
         | Inr max_size \<Rightarrow>
           (case (case attestation_public_key of Some (b # bs) \<Rightarrow> Inr (Some (b # bs))
                  | _ \<Rightarrow> load_public_key_from_env (env_public_key env)) of Inl e \<Rightarrow> Inl e
            | Inr public_key \<Rightarrow> Inr
               \<lparr>kc_key_id = strip key_id, kc_cache_ttl_seconds = ttl, kc_max_cache_size = max_size,
                kc_attestation_public_key = public_key, kc_cache = []\<rparr>)))"

section \<open>The cache\<close>

text \<open>The sections under the lock, on the cache alone, given the clock readings.\<close>

definition purge_expired :: "pyfloat \<Rightarrow> key_cache \<Rightarrow> key_cache" where
  "purge_expired now cache =
     foldl od_pop cache (map fst (filter (\<lambda>(_, entry). fle (ce_expires_at entry) now) cache))"

definition lookup_locked :: "pyfloat \<Rightarrow> ustr \<Rightarrow> key_cache \<Rightarrow> bytes option \<times> key_cache" where
  "lookup_locked now cache_key cache0 =
     (let cache = purge_expired now cache0
      in case od_get cache cache_key of
           None \<Rightarrow> (None, cache)
         | Some entry \<Rightarrow> (Some (ce_plaintext entry), od_move_to_end cache cache_key))"

definition store_locked :: "int \<Rightarrow> pyfloat \<Rightarrow> pyfloat \<Rightarrow> ustr \<Rightarrow> bytes \<Rightarrow> key_cache \<Rightarrow> key_cache" where
  "store_locked max_size expires_at now cache_key plaintext cache =
     od_store max_size (purge_expired now cache) cache_key
       \<lparr>ce_plaintext = plaintext, ce_expires_at = expires_at\<rparr>"

section \<open>Operations\<close>

definition with_cache :: "kms_client \<Rightarrow> key_cache \<Rightarrow> kms_client" where
  "with_cache c cache = c\<lparr>kc_cache := cache\<rparr>"

definition get_cached :: "'w kms_env \<Rightarrow> ustr \<Rightarrow> kms_client \<Rightarrow> 'w \<Rightarrow> bytes option \<times> kms_client \<times> 'w" where
  "get_cached env cache_key c w =
     (let (now, w') = ke_clock env w; (r, cache) = lookup_locked now cache_key (kc_cache c)
      in (r, with_cache c cache, w'))"

definition store_cache_entry :: "'w kms_env \<Rightarrow> ustr \<Rightarrow> bytes \<Rightarrow> kms_client \<Rightarrow> 'w \<Rightarrow> kms_client \<times> 'w" where
  "store_cache_entry env cache_key plaintext c w =
     (let (t, w') = ke_clock env w;
          expires_at = fadd t (kc_cache_ttl_seconds c);
          (now, w'') = ke_clock env w'
      in (with_cache c (store_locked (kc_max_cache_size c) expires_at now cache_key plaintext (kc_cache c)), w''))"

definition clear_cache :: "kms_client \<Rightarrow> kms_client" where
  "clear_cache c = with_cache c []"

definition cache_size :: "'w kms_env \<Rightarrow> kms_client \<Rightarrow> 'w \<Rightarrow> nat \<times> kms_client \<times> 'w" where
  "cache_size env c w =
     (let (now, w') = ke_clock env w; cache = purge_expired now (kc_cache c)
      in (length cache, with_cache c cache, w'))"

definition cache_preimage :: "bytes \<Rightarrow> ustr \<Rightarrow> bytes res" where
  "cache_preimage ciphertext_blob tenant_id =
     (case utf8_encode tenant_id of Inl e \<Rightarrow> Inl e | Inr t \<Rightarrow> Inr (t @ [0] @ ciphertext_blob))"

definition build_cache_key :: "bytes \<Rightarrow> ustr \<Rightarrow> ustr res" where
  "build_cache_key ciphertext_blob tenant_id =
     (case cache_preimage ciphertext_blob tenant_id of Inl e \<Rightarrow> Inl e
      | Inr m \<Rightarrow> Inr (sha256_hexdigest m))"

definition extract_plaintext :: "'w kms_env \<Rightarrow> kms_response \<Rightarrow> 'w \<Rightarrow> bytes res \<times> 'w" where
  "extract_plaintext env response w =
     (case resp_bytes (od_get response (U ''Plaintext'')) of
        Some b \<Rightarrow> (Inr b, w)
      | None \<Rightarrow>
        (case resp_bytes (od_get response (U ''plaintext'')) of
           Some b \<Rightarrow> (Inr b, w)
         | None \<Rightarrow>
           (case resp_bytes (od_get response (U ''CiphertextForRecipient'')) of
              Some _ \<Rightarrow>
                (case ke_unwrap env of
                   None \<Rightarrow> (Inl (KMSProxyError
                     (U ''Proxy returned CiphertextForRecipient but no unwrap handler is configured.'')), w)
                 | Some unwrap \<Rightarrow> unwrap response w)
            | None \<Rightarrow> (Inl (KMSProxyError (U ''Proxy response did not include plaintext key material.'')), w))))"

definition build_user_data :: "ustr \<Rightarrow> ustr \<Rightarrow> bytes res" where
  "build_user_data key_id tenant_id =
     utf8_encode (dumps (JObj [(U ''tenant_id'', JStr tenant_id),
       (U ''operation'', JStr (U ''kms.decrypt'')), (U ''key_id'', JStr key_id)]))"

text \<open>
  The body of \<open>decrypt_data_key\<close> after the cache: attest, ask the proxy, keep the key.
\<close>

definition request_payload :: "kms_client \<Rightarrow> bytes \<Rightarrow> ustr \<Rightarrow> bytes \<Rightarrow> kms_request" where
  "request_payload c ciphertext_blob tenant document =
     \<lparr>rq_key_id = kc_key_id c, rq_ciphertext = ciphertext_blob,
      rq_context = [(U ''tenant_id'', tenant)],
      rq_recipient = \<lparr>rc_algorithm = RECIPIENT_KEY_ENCRYPTION_ALGORITHM, rc_document = document\<rparr>\<rparr>"

definition ask_proxy :: "'w kms_env \<Rightarrow> ustr \<Rightarrow> kms_request \<Rightarrow> kms_client \<Rightarrow> 'w
    \<Rightarrow> bytes res \<times> kms_client \<times> 'w" where
  "ask_proxy env cache_key request c w =
     (case ke_proxy_transport env request w of
        (Inl e, w') \<Rightarrow>
          (Inl (if is_boto_error e then e
                else KMSProxyError (U ''Failed to reach the host-side KMS proxy.'')), c, w')
      | (Inr response, w') \<Rightarrow>
        (case extract_plaintext env response w' of
           (Inl e, w'') \<Rightarrow> (Inl e, c, w'')
         | (Inr plaintext, w'') \<Rightarrow>
           (let (c', w3) = store_cache_entry env cache_key plaintext c w''
            in (Inr plaintext, c', w3))))"

definition attest_and_decrypt :: "'w kms_env \<Rightarrow> ustr \<Rightarrow> bytes \<Rightarrow> ustr \<Rightarrow> bytes option \<Rightarrow> bytes option
    \<Rightarrow> kms_client \<Rightarrow> 'w \<Rightarrow> bytes res \<times> kms_client \<times> 'w" where
  "attest_and_decrypt env cache_key ciphertext_blob tenant user_data nonce c w =
     (case (case user_data of Some (b # bs) \<Rightarrow> Inr (b # bs)
            | _ \<Rightarrow> build_user_data (kc_key_id c) tenant) of
        Inl e \<Rightarrow> (Inl e, c, w)
      | Inr ud \<Rightarrow>
        (case ke_attestation_provider env (kc_attestation_public_key c) (Some ud) nonce w of
           (Inl e, w') \<Rightarrow> (Inl e, c, w')
         | (Inr document, w') \<Rightarrow>
           if document = [] then
             (Inl (KMSProxyError (U ''Attestation provider returned an empty document.'')), c, w')
           else ask_proxy env cache_key (request_payload c ciphertext_blob tenant document) c w'))"

definition decrypt_data_key :: "'w kms_env \<Rightarrow> bytes \<Rightarrow> ustr \<Rightarrow> bytes option \<Rightarrow> bytes option \<Rightarrow> bool
    \<Rightarrow> kms_client \<Rightarrow> 'w \<Rightarrow> bytes res \<times> kms_client \<times> 'w" where
  "decrypt_data_key env ciphertext_blob tenant_id user_data nonce force_refresh c w =
     (let tenant = strip tenant_id
      in if tenant = [] then (Inl (ValueError (U ''tenant_id must not be empty.'')), c, w)
         else if ciphertext_blob = [] then (Inl (ValueError (U ''ciphertext_blob must not be empty.'')), c, w)
         else case build_cache_key ciphertext_blob tenant of
           Inl e \<Rightarrow> (Inl e, c, w)
         | Inr cache_key \<Rightarrow>
           if force_refresh
           then attest_and_decrypt env cache_key ciphertext_blob tenant user_data nonce c w
           else (case get_cached env cache_key c w of
                (Some cached_value, c', w') \<Rightarrow> (Inr cached_value, c', w')
              | (None, c', w') \<Rightarrow>
                attest_and_decrypt env cache_key ciphertext_blob tenant user_data nonce c' w'))"

section \<open>The cache keeps its bounds and forgets what expired\<close>

lemma foldl_od_pop: "foldl od_pop d ks = filter (\<lambda>p. fst p \<notin> set ks) d"
proof (induction ks arbitrary: d)
  case (Cons k ks)
  have "od_pop d k = filter (\<lambda>p. fst p \<noteq> k) d" by (auto simp: od_pop_def AList.delete_eq intro: filter_cong)
  then show ?case using Cons by (auto intro: filter_cong)
qed simp

lemma purge_expired_eq:
  assumes "od_wf cache"
  shows "purge_expired now cache = filter (\<lambda>p. \<not> fle (ce_expires_at (snd p)) now) cache"
proof -
  have "fst p \<in> set (map fst (filter (\<lambda>(_, entry). fle (ce_expires_at entry) now) cache))
      \<longleftrightarrow> fle (ce_expires_at (snd p)) now" if "p \<in> set cache" for p
  proof
    assume "fst p \<in> set (map fst (filter (\<lambda>(_, entry). fle (ce_expires_at entry) now) cache))"
    then obtain e where "(fst p, e) \<in> set cache" "fle (ce_expires_at e) now" by auto
    moreover from this(1) that have "snd p = e"
      using assms by (metis (no_types, lifting) eq_key_imp_eq_value od_wf_def prod.collapse)
    ultimately show "fle (ce_expires_at (snd p)) now" by simp
  qed (use that in force)
  then show ?thesis
    unfolding purge_expired_def foldl_od_pop by (intro filter_cong) auto
qed

lemma od_wf_purge [intro]: "od_wf cache \<Longrightarrow> od_wf (purge_expired now cache)"
  by (simp add: purge_expired_eq od_wf_def distinct_map_filter)

lemma length_purge: "od_wf cache \<Longrightarrow> length (purge_expired now cache) \<le> length cache"
  by (simp add: purge_expired_eq)

lemma od_get_purge:
  assumes "od_wf cache"
  shows "od_get (purge_expired now cache) k
    = (case od_get cache k of Some e \<Rightarrow> if fle (ce_expires_at e) now then None else Some e | None \<Rightarrow> None)"
  using od_get_filter_value [OF assms, of "\<lambda>e. \<not> fle (ce_expires_at e) now" k]
  by (auto simp: purge_expired_eq [OF assms] split: option.split)

interpretation key_cache: bounded_store od_wf od_get
    "\<lambda>s k e. store_locked (int (Suc n)) (ce_expires_at e) now k (ce_plaintext e) s" length "Suc n" for n now
proof
  fix s :: key_cache and k k' :: ustr and e :: cache_entry
  assume wf: "od_wf s"
  note wf' = od_wf_purge [OF wf, of now]
  have e: "\<lparr>ce_plaintext = ce_plaintext e, ce_expires_at = ce_expires_at e\<rparr> = e" by simp
  show "od_wf (store_locked (int (Suc n)) (ce_expires_at e) now k (ce_plaintext e) s)"
    using wf' by (auto simp: store_locked_def)
  show "od_get (store_locked (int (Suc n)) (ce_expires_at e) now k (ce_plaintext e) s) k = Some e"
    using od_get_store_same [OF wf', of "int (Suc n)" k] by (simp add: store_locked_def e)
  show "od_get (store_locked (int (Suc n)) (ce_expires_at e) now k (ce_plaintext e) s) k' \<in> {None, od_get s k'}"
    if "k' \<noteq> k"
    using od_get_store_other [OF wf' that, of "int (Suc n)" e] od_get_purge [OF wf, of now k']
    unfolding store_locked_def e by (auto split: option.splits if_splits)
  show "length (store_locked (int (Suc n)) (ce_expires_at e) now k (ce_plaintext e) s) \<le> Suc n"
    using od_store_length [of "int (Suc n)" "purge_expired now s" k e] by (simp add: store_locked_def e)
qed

section \<open>Concurrent callers\<close>

text \<open>
  One event per section under the lock, with the clock readings that thread took and what it
  saw. Threads interleave at these sections only.
\<close>

datatype cache_event =
    Lookup pyfloat ustr "bytes option"
  | Store ustr bytes pyfloat pyfloat
  | Clear
  | Count pyfloat nat

inductive cache_step :: "kms_client \<Rightarrow> cache_event \<Rightarrow> kms_client \<Rightarrow> bool" where
  lookup: "lookup_locked now key (kc_cache c) = (r, cache) \<Longrightarrow>
    cache_step c (Lookup now key r) (with_cache c cache)"
| store: "cache_step c (Store key plaintext expires_at now)
    (with_cache c (store_locked (kc_max_cache_size c) expires_at now key plaintext (kc_cache c)))"
| clear: "cache_step c Clear (with_cache c [])"
| count: "cache_step c (Count now (length (purge_expired now (kc_cache c))))
    (with_cache c (purge_expired now (kc_cache c)))"

inductive_cases cache_stepE: "cache_step c ev c'"

inductive cache_run :: "kms_client \<Rightarrow> cache_event list \<Rightarrow> kms_client \<Rightarrow> bool" where
  start: "cache_run c [] c"
| step: "cache_run c evs c' \<Longrightarrow> cache_step c' ev c'' \<Longrightarrow> cache_run c (evs @ [ev]) c''"

text \<open>The key material a history leaves under a key: the last store since the last clear.\<close>

fun effect :: "ustr \<Rightarrow> (bytes \<times> pyfloat) option \<Rightarrow> cache_event \<Rightarrow> (bytes \<times> pyfloat) option" where
  "effect key s (Store k plaintext expires_at now) = (if k = key then Some (plaintext, expires_at) else s)"
| "effect key s Clear = None"
| "effect key s ev = s"

definition latest :: "ustr \<Rightarrow> cache_event list \<Rightarrow> (bytes \<times> pyfloat) option" where
  "latest key evs = foldl (effect key) None evs"

definition kms_inv :: "kms_client \<Rightarrow> bool" where
  "kms_inv c \<longleftrightarrow> 0 < kc_max_cache_size c \<and> od_wf (kc_cache c)
     \<and> int (length (kc_cache c)) \<le> kc_max_cache_size c"

definition mirrors :: "kms_client \<Rightarrow> cache_event list \<Rightarrow> bool" where
  "mirrors c evs \<longleftrightarrow> (\<forall>k e. od_get (kc_cache c) k = Some e
     \<longrightarrow> latest k evs = Some (ce_plaintext e, ce_expires_at e))"

lemma with_cache_sel [simp]:
  "kc_cache (with_cache c d) = d" "kc_max_cache_size (with_cache c d) = kc_max_cache_size c"
  "kc_key_id (with_cache c d) = kc_key_id c" "kc_cache_ttl_seconds (with_cache c d) = kc_cache_ttl_seconds c"
  "kc_attestation_public_key (with_cache c d) = kc_attestation_public_key c"
  by (simp_all add: with_cache_def)

lemma lookup_locked_cache:
  assumes "lookup_locked now key cache = (r, cache')" and "od_wf cache"
  shows "od_wf cache'" and "length cache' \<le> length cache"
    and "od_get cache' k = od_get (purge_expired now cache) k"
    and "r = map_option ce_plaintext (od_get (purge_expired now cache) key)"
  using assms od_wf_purge [OF assms(2), of now] length_purge [OF assms(2), of now]
    od_move_length [OF od_wf_purge [OF assms(2), of now], of key]
  by (auto simp: lookup_locked_def Let_def od_get_move od_wf_move split: option.splits intro: le_trans)

lemma cache_step_inv: "cache_step c ev c' \<Longrightarrow> kms_inv c \<Longrightarrow> kms_inv c'"
proof (induction rule: cache_step.induct)
  case (lookup now key c r cache)
  then show ?case using lookup_locked_cache [OF lookup(1)] by (auto simp: kms_inv_def)
next
  case (store c key plaintext expires_at now)
  then obtain n where n: "kc_max_cache_size c = int (Suc n)"
    by (auto simp: kms_inv_def) (metis Suc_pred' of_nat_Suc zero_less_imp_eq_int)
  then show ?case
    using store key_cache.inv_put [of "kc_cache c" n "\<lparr>ce_plaintext = plaintext, ce_expires_at = expires_at\<rparr>" now key]
      key_cache.size_put [of "kc_cache c" n "\<lparr>ce_plaintext = plaintext, ce_expires_at = expires_at\<rparr>" now key]
    by (simp add: kms_inv_def)
next
  case (count c now)
  then show ?case using length_purge [of "kc_cache c" now] by (auto simp: kms_inv_def)
qed (simp add: kms_inv_def)

lemma latest_snoc: "latest k (evs @ [ev]) = effect k (latest k evs) ev"
  by (simp add: latest_def)

lemma cache_step_mirrors:
  "cache_step c ev c' \<Longrightarrow> kms_inv c \<Longrightarrow> mirrors c evs \<Longrightarrow> mirrors c' (evs @ [ev])"
proof (induction rule: cache_step.induct)
  case (lookup now key c r cache)
  then have "od_wf (kc_cache c)" by (simp add: kms_inv_def)
  with lookup show ?case
    by (auto simp: mirrors_def latest_snoc lookup_locked_cache(3) [OF lookup(1)] od_get_purge
        split: option.splits if_splits)
next
  case (store c key plaintext expires_at now)
  then obtain n where n: "kc_max_cache_size c = int (Suc n)" and wf: "od_wf (kc_cache c)"
    by (auto simp: kms_inv_def) (metis Suc_pred' of_nat_Suc zero_less_imp_eq_int)
  let ?e = "\<lparr>ce_plaintext = plaintext, ce_expires_at = expires_at\<rparr>"
  show ?case
    unfolding mirrors_def
  proof (intro allI impI)
    fix k e
    assume "od_get (kc_cache (with_cache c (store_locked (kc_max_cache_size c) expires_at now key plaintext
      (kc_cache c)))) k = Some e"
    then show "latest k (evs @ [Store key plaintext expires_at now]) = Some (ce_plaintext e, ce_expires_at e)"
      using key_cache.get_put_same [OF wf, of n ?e now key] key_cache.get_put_other [OF wf, of k key n ?e now]
        store(2) n by (cases "k = key") (auto simp: latest_snoc mirrors_def)
  qed
next
  case (clear c)
  then show ?case by (simp add: mirrors_def)
next
  case (count c now)
  then have "od_wf (kc_cache c)" by (simp add: kms_inv_def)
  with count show ?case
    by (auto simp: mirrors_def latest_snoc od_get_purge split: option.splits if_splits)
qed

lemma cache_run_inv: "cache_run c evs c' \<Longrightarrow> kms_inv c \<Longrightarrow> kms_inv c'"
  by (induction rule: cache_run.induct) (auto intro: cache_step_inv)

lemma cache_run_mirrors: "cache_run c evs c' \<Longrightarrow> kms_inv c \<Longrightarrow> kc_cache c = [] \<Longrightarrow> mirrors c' evs"
proof (induction rule: cache_run.induct)
  case (start c)
  then show ?case by (simp add: mirrors_def)
next
  case (step c evs c' ev c'')
  then show ?case by (auto intro: cache_step_mirrors cache_run_inv)
qed

lemma cache_run_append: "cache_run c evs c' \<Longrightarrow> cache_run c' evs' c'' \<Longrightarrow> cache_run c (evs @ evs') c''"
  by (rotate_tac, induction rule: cache_run.induct)
    (auto simp flip: append_assoc intro: cache_run.intros)

section \<open>Operations as steps\<close>

lemma get_cached_step:
  assumes "get_cached env key c w = (r, c', w')"
  shows "cache_step c (Lookup (fst (ke_clock env w)) key r) c'" and "w' = snd (ke_clock env w)"
  using assms by (auto simp: get_cached_def Let_def split: prod.splits intro: cache_step.lookup)

lemma store_cache_entry_step:
  "store_cache_entry env key plaintext c w = (c', w') \<Longrightarrow>
   \<exists>expires_at now. cache_step c (Store key plaintext expires_at now) c'"
  by (auto simp: store_cache_entry_def Let_def split: prod.splits intro: cache_step.store)

lemma attest_and_decrypt_step:
  "attest_and_decrypt env key ciphertext tenant ud nonce c w = (r, c', w') \<Longrightarrow>
   (case r of Inl e \<Rightarrow> c' = c | Inr v \<Rightarrow> \<exists>expires_at now. cache_step c (Store key v expires_at now) c')"
  by (auto simp: attest_and_decrypt_def ask_proxy_def Let_def split: sum.splits prod.splits if_splits
      dest: store_cache_entry_step)

lemma run_one: "cache_step c ev c' \<Longrightarrow> cache_run c [ev] c'"
  using cache_run.step [OF cache_run.start] by fastforce

section \<open>The environment with a log of the requests\<close>

definition logged :: "'w kms_env \<Rightarrow> ('w \<times> kms_request list) kms_env" where
  "logged env =
     \<lparr>ke_clock = (\<lambda>(w, l). let (t, w') = ke_clock env w in (t, (w', l))),
      ke_attestation_provider = (\<lambda>pk ud nonce (w, l).
        let (r, w') = ke_attestation_provider env pk ud nonce w in (r, (w', l))),
      ke_proxy_transport = (\<lambda>req (w, l).
        let (r, w') = ke_proxy_transport env req w in (r, (w', l @ [req]))),
      ke_unwrap = map_option (\<lambda>u resp (w, l). let (r, w') = u resp w in (r, (w', l))) (ke_unwrap env)\<rparr>"

lemma logged_calls [simp]:
  "ke_clock (logged env) (w, l) = (fst (ke_clock env w), (snd (ke_clock env w), l))"
  "ke_attestation_provider (logged env) pk ud nonce (w, l)
    = (fst (ke_attestation_provider env pk ud nonce w), (snd (ke_attestation_provider env pk ud nonce w), l))"
  "ke_proxy_transport (logged env) req (w, l)
    = (fst (ke_proxy_transport env req w), (snd (ke_proxy_transport env req w), l @ [req]))"
  by (simp_all add: logged_def split_def Let_def)

lemma logged_extract: "snd (snd (extract_plaintext (logged env) resp (w, l))) = l"
  by (auto simp: extract_plaintext_def logged_def split_def Let_def split: option.splits)

lemma logged_store: "snd (snd (store_cache_entry (logged env) key pt c (w, l))) = l"
  by (simp add: store_cache_entry_def Let_def split_def)

lemma logged_get: "snd (snd (snd (get_cached (logged env) key c (w, l)))) = l"
  by (simp add: get_cached_def Let_def split_def)

lemma ask_proxy_log: "snd (snd (snd (ask_proxy (logged env) key req c (w, l)))) = l @ [req]"
proof -
  obtain r w1 where t: "ke_proxy_transport env req w = (r, w1)" by fastforce
  show ?thesis
  proof (cases r)
    case (Inr resp)
    obtain x w2 where e: "extract_plaintext (logged env) resp (w1, l @ [req]) = (x, w2)"
      by (cases "extract_plaintext (logged env) resp (w1, l @ [req])")
    with logged_extract [of env resp w1 "l @ [req]"] have "snd w2 = l @ [req]" by simp
    then obtain w3 where w2: "w2 = (w3, l @ [req])" by (cases w2) simp
    show ?thesis
      using logged_store [of env key _ c w3 "l @ [req]"]
      by (simp add: ask_proxy_def t Inr e w2 split_def split: sum.split)
  qed (simp add: ask_proxy_def t)
qed

lemma attest_and_decrypt_log:
  assumes "strip t \<noteq> []" and "ciphertext \<noteq> []"
    and run: "attest_and_decrypt (logged env) key ciphertext (strip t) ud nonce c (w, l) = (r, c', (w', l'))"
  shows "(l' = l \<and> isl r) \<or>
    (\<exists>document req. prepare_attested_decrypt_request (kc_key_id c) ciphertext t document = Inr req
       \<and> l' = l @ [req])"
proof -
  have prep: "prepare_attested_decrypt_request (kc_key_id c) ciphertext t document
      = Inr (request_payload c ciphertext (strip t) document)" if "document \<noteq> []" for document
    using assms(1,2) that
    by (simp add: prepare_attested_decrypt_request_def build_encryption_context_def
        build_attested_recipient_def request_payload_def)
  have log: "l' = l0 @ [req]" if "ask_proxy (logged env) key req c (w0, l0) = (r, c', (w', l'))" for req w0 l0
    using ask_proxy_log [of env key req c w0 l0] that by simp
  have islI: "Inl e = x \<Longrightarrow> isl x" for e :: exn and x :: "bytes res" by auto
  from run show ?thesis
    by (auto simp: attest_and_decrypt_def split: sum.splits if_splits dest!: log intro: prep islI)
qed

lemma decrypt_log:
  assumes "decrypt_data_key (logged env) ciphertext t ud nonce force c (w, []) = (r, c', (w', l'))"
  shows "l' = [] \<and> (isl r \<or> (\<exists>key v now. \<not> force \<and> build_cache_key ciphertext (strip t) = Inr key
      \<and> r = Inr v \<and> cache_step c (Lookup now key (Some v)) c'
      \<and> now = fst (ke_clock env w) \<and> w' = snd (ke_clock env w)))
    \<or> (\<exists>document req. prepare_attested_decrypt_request (kc_key_id c) ciphertext t document = Inr req \<and> l' = [req])"
proof (cases "strip t = [] \<or> ciphertext = []")
  case True
  with assms show ?thesis by (auto simp: decrypt_data_key_def Let_def split: if_splits)
next
  case args: False
  show ?thesis
  proof (cases "build_cache_key ciphertext (strip t)")
    case (Inl e)
    with assms args show ?thesis by (auto simp: decrypt_data_key_def Let_def)
  next
    case key: (Inr key)
    show ?thesis
    proof (cases force)
      case True
      with assms args key have "attest_and_decrypt (logged env) key ciphertext (strip t) ud nonce c (w, []) = (r, c', (w', l'))"
        by (simp add: decrypt_data_key_def Let_def)
      with args show ?thesis by (auto dest!: attest_and_decrypt_log)
    next
      case False
      obtain hit c1 w1 l1 where get: "get_cached (logged env) key c (w, []) = (hit, c1, (w1, l1))"
        by (cases "get_cached (logged env) key c (w, [])") auto
      with logged_get [of env key c w "[]"] have l1: "l1 = []" by simp
      note step = get_cached_step [OF get]
      show ?thesis
      proof (cases hit)
        case None
        with assms args key False get
        have "attest_and_decrypt (logged env) key ciphertext (strip t) ud nonce c1 (w1, l1) = (r, c', (w', l'))"
          by (simp add: decrypt_data_key_def Let_def)
        moreover have "kc_key_id c1 = kc_key_id c" using step(1) by (auto elim: cache_stepE)
        ultimately show ?thesis using args l1 by (auto dest!: attest_and_decrypt_log)
      next
        case (Some v)
        with assms args key False get step l1 show ?thesis
          by (auto simp: decrypt_data_key_def Let_def)
      qed
    qed
  qed
qed

lemma decrypt_run:
  assumes "decrypt_data_key env ciphertext t ud nonce force c w = (r, c', w')"
  shows "\<exists>evs. cache_run c evs c' \<and> length evs \<le> 2 \<and>
    (case r of
       Inl e \<Rightarrow> evs = [] \<or> (\<exists>now key. evs = [Lookup now key None])
     | Inr v \<Rightarrow> \<exists>key now. build_cache_key ciphertext (strip t) = Inr key
         \<and> (last evs = Lookup now key (Some v) \<or> (\<exists>expires_at. last evs = Store key v expires_at now))
         \<and> evs \<noteq> [])"
proof (cases "strip t = [] \<or> ciphertext = [] \<or> isl (build_cache_key ciphertext (strip t))")
  case True
  with assms show ?thesis
    by (auto simp: decrypt_data_key_def Let_def isl_def split: if_splits
        intro!: exI [of _ "[]"] cache_run.start)
next
  case False
  then obtain key where key: "build_cache_key ciphertext (strip t) = Inr key"
    by (cases "build_cache_key ciphertext (strip t)") auto
  have attest: "\<exists>evs. cache_run c0 evs c' \<and> (case r of Inl e \<Rightarrow> evs = []
      | Inr v \<Rightarrow> \<exists>expires_at now. evs = [Store key v expires_at now])"
    if "attest_and_decrypt env key ciphertext (strip t) ud nonce c0 w0 = (r, c', w')" for c0 w0
    using attest_and_decrypt_step [OF that]
    by (cases r) (auto intro: cache_run.start run_one)
  show ?thesis
  proof (cases force)
    case True
    with assms False key have "attest_and_decrypt env key ciphertext (strip t) ud nonce c w = (r, c', w')"
      by (simp add: decrypt_data_key_def Let_def)
    from attest [OF this] key show ?thesis by (cases r) force+
  next
    case nf: False
    obtain hit c1 w1 where get: "get_cached env key c w = (hit, c1, w1)"
      by (cases "get_cached env key c w") auto
    note step = run_one [OF get_cached_step(1) [OF get]]
    show ?thesis
    proof (cases hit)
      case None
      with assms False key nf get
      have "attest_and_decrypt env key ciphertext (strip t) ud nonce c1 w1 = (r, c', w')"
        by (simp add: decrypt_data_key_def Let_def)
      from attest [OF this] obtain evs where evs: "cache_run c1 evs c'" "case r of Inl e \<Rightarrow> evs = []
        | Inr v \<Rightarrow> \<exists>expires_at now. evs = [Store key v expires_at now]" by blast
      from cache_run_append [OF step evs(1)] evs(2) key None show ?thesis
        by (intro exI [of _ "[Lookup (fst (ke_clock env w)) key hit] @ evs"]) (cases r; auto)
    next
      case (Some v)
      with assms False key nf get step show ?thesis
        by (intro exI [of _ "[Lookup (fst (ke_clock env w)) key hit]"])
          (auto simp: decrypt_data_key_def Let_def)
    qed
  qed
qed

section \<open>Cache keys\<close>

lemma utf8_char_no_nul: "scalar c \<Longrightarrow> 0 \<in> set (utf8_char c) \<Longrightarrow> c = 0"
proof -
  have byte0: "byte_of n = 0 \<longleftrightarrow> n = 0" if "n < 256" for n
    using unat_byte_of [OF that] by (metis unat_0 unat_eq_zero)
  assume "scalar c" "0 \<in> set (utf8_char c)"
  then show "c = 0"
    by (auto simp: utf8_char_def scalar_def byte0 dest!: sym [of 0] split: if_splits)
qed

lemma utf8_no_nul: "utf8_encode t = Inr b \<Longrightarrow> 0 \<notin> set t \<Longrightarrow> 0 \<notin> set b"
  using utf8_char_no_nul by (fastforce simp: utf8_encode_def list_all_iff split: if_splits)

lemma split_at_nul:
  assumes "a @ [x] @ c = b @ [x] @ d" and "x \<notin> set a" and "x \<notin> set b"
  shows "a = b \<and> c = d"
  using assms
proof (induction a arbitrary: b)
  case Nil
  then show ?case by (cases b) auto
next
  case (Cons y a)
  then show ?case by (cases b) auto
qed

lemma cache_preimage_inj:
  assumes "cache_preimage ct t = Inr m" "cache_preimage ct' t' = Inr m" and "0 \<notin> set t" "0 \<notin> set t'"
  shows "t = t' \<and> ct = ct'"
proof -
  obtain b b' where b: "utf8_encode t = Inr b" "utf8_encode t' = Inr b'"
    and m: "m = b @ [0] @ ct" "m = b' @ [0] @ ct'"
    using assms(1,2) by (auto simp: cache_preimage_def split: sum.splits)
  have "b = b' \<and> ct = ct'"
    using split_at_nul [of b 0 ct b' ct'] m utf8_no_nul [OF b(1) assms(3)] utf8_no_nul [OF b(2) assms(4)] by simp
  moreover have "t = t'"
    using utf8.enc_inj [of t t'] b \<open>b = b' \<and> ct = ct'\<close> by (auto simp: utf8_encode_def split: if_splits)
  ultimately show ?thesis by blast
qed

text \<open>
  With a NUL character in a tenant id the separator is ambiguous: two different tenants get
  the same cache key for different ciphertexts.
\<close>

lemma nul_tenant_shares_key:
  assumes "list_all scalar a" and "list_all scalar b"
  shows "build_cache_key ct (a @ [0] @ b) = build_cache_key (concat (map utf8_char b) @ [0] @ ct) a"
proof -
  have "utf8_char 0 = [0]" by (simp add: utf8_char_def byte_of_def)
  with assms show ?thesis
    by (simp add: build_cache_key_def cache_preimage_def utf8_encode_def scalar_def)
qed

section \<open>Properties\<close>

text \<open>C9. For every interleaving of concurrent users of a client that the
  constructor made, and whatever their clocks read: the cache keeps distinct keys and never
  exceeds its size, and a lookup that finds a key returns the plaintext last stored under it
  since the last \<open>clear_cache\<close>, whose expiry time the clock has not reached.\<close>

theorem key_cache_freshness:
  assumes "kms_client_init env key_id ttl max_size public_key = Inr c0"
    and "cache_run c0 evs c" and "cache_step c (Lookup now key (Some v)) c'"
  shows "kms_inv c' \<and> (\<exists>expires_at. latest key evs = Some (v, expires_at) \<and> \<not> fle expires_at now)"
proof -
  have inv: "kms_inv c0" and empty: "kc_cache c0 = []"
    using assms(1)
    by (auto simp: kms_client_init_def kms_inv_def resolve_cache_size_def split: if_splits sum.splits)
  note inv' = cache_run_inv [OF assms(2) inv] and m = cache_run_mirrors [OF assms(2) inv empty]
  from assms(3) obtain cache where look: "lookup_locked now key (kc_cache c) = (Some v, cache)"
    by (auto elim: cache_stepE)
  have "od_wf (kc_cache c)" using inv' by (simp add: kms_inv_def)
  with lookup_locked_cache(4) [OF look] m show ?thesis
    using cache_step_inv [OF assms(3) inv']
    by (auto simp: od_get_purge mirrors_def split: option.splits if_splits)
qed

theorem key_cache_freshness_witness:
  "\<exists>c0 c c'. kms_client_init \<lparr>env_ttl = None, env_max_size = None, env_public_key = None\<rparr> (U ''key'')
       (Some (Fin 60)) (Some 1) None = Inr c0
     \<and> cache_run c0 [Store (U ''k'') [1] (Fin 61) (Fin 1), Store (U ''k'') [2] (Fin 70) (Fin 10)] c
     \<and> cache_step c (Lookup (Fin 69) (U ''k'') (Some [2])) c' \<and> kms_inv c'"
proof -
  let ?c0 = "\<lparr>kc_key_id = U ''key'', kc_cache_ttl_seconds = Fin 60, kc_max_cache_size = 1,
     kc_attestation_public_key = None, kc_cache = []\<rparr>"
  let ?e = "\<lambda>b t. \<lparr>ce_plaintext = [b], ce_expires_at = Fin t\<rparr>"
  have init: "kms_client_init \<lparr>env_ttl = None, env_max_size = None, env_public_key = None\<rparr> (U ''key'')
       (Some (Fin 60)) (Some 1) None = Inr ?c0"
    by (simp add: kms_client_init_def resolve_cache_ttl_def resolve_cache_size_def load_public_key_from_env_def
        strip_def U_def py_space_def)
  let ?c1 = "with_cache ?c0 [(U ''k'', ?e 1 61)]" and ?c2 = "with_cache ?c0 [(U ''k'', ?e 2 70)]"
  note ops = store_locked_def lookup_locked_def purge_expired_def od_store_def od_set_def
    od_move_to_end_def od_get_def with_cache_def
  have s1: "cache_step ?c0 (Store (U ''k'') [1] (Fin 61) (Fin 1)) ?c1"
    using cache_step.store [of ?c0 "U ''k''" "[1]" "Fin 61" "Fin 1"] by (simp add: ops)
  have s2: "cache_step ?c1 (Store (U ''k'') [2] (Fin 70) (Fin 10)) ?c2"
    using cache_step.store [of ?c1 "U ''k''" "[2]" "Fin 70" "Fin 10"] by (simp add: ops)
  have s3: "cache_step ?c2 (Lookup (Fin 69) (U ''k'') (Some [2])) ?c2"
    using cache_step.lookup [of "Fin 69" "U ''k''" ?c2 "Some [2]" "[(U ''k'', ?e 2 70)]"] by (simp add: ops)
  have run: "cache_run ?c0 [Store (U ''k'') [1] (Fin 61) (Fin 1), Store (U ''k'') [2] (Fin 70) (Fin 10)] ?c2"
    using cache_run.step [OF run_one [OF s1] s2] by simp
  from key_cache_freshness [OF init run s3] init run s3 show ?thesis by blast
qed



text \<open>C37. Two calls share a cache key only if they are for the same
  tenant and the same ciphertext, or if their two different inputs collide under SHA-256;
  provided no tenant id contains the NUL character that separates the two parts.\<close>

theorem cache_key_tenant_isolation:
  assumes "build_cache_key ct t = Inr key" and "build_cache_key ct' t' = Inr key"
    and "0 \<notin> set t" and "0 \<notin> set t'"
  shows "(t = t' \<and> ct = ct') \<or>
    (\<exists>m m'. cache_preimage ct t = Inr m \<and> cache_preimage ct' t' = Inr m' \<and> m \<noteq> m' \<and> sha256 m = sha256 m')"
proof -
  obtain m m' where m: "cache_preimage ct t = Inr m" "cache_preimage ct' t' = Inr m'"
    and "bytes_hex (sha256 m) = bytes_hex (sha256 m')"
    using assms(1,2) by (auto simp: build_cache_key_def sha256_hexdigest_def split: sum.splits)
  then have "sha256 m = sha256 m'" using hex.enc_inj [of "sha256 m" "sha256 m'"] by simp
  with m cache_preimage_inj [of ct t m ct' t'] assms(3,4) show ?thesis by blast
qed

theorem cache_key_tenant_isolation_witness:
  "\<exists>key. build_cache_key [1, 2] (U ''a'') = Inr key \<and>
     ((U ''a'' = U ''a'' \<and> [1, 2 :: byte] = [1, 2]) \<or>
     (\<exists>m m'. cache_preimage [1, 2] (U ''a'') = Inr m \<and> cache_preimage [1, 2] (U ''a'') = Inr m'
        \<and> m \<noteq> m' \<and> sha256 m = sha256 m'))"
proof -
  obtain key where key: "build_cache_key [1, 2] (U ''a'') = Inr key"
    by (simp add: build_cache_key_def cache_preimage_def utf8_encode_def scalar_def U_def)
  from cache_key_tenant_isolation [OF key key] key show ?thesis by (simp add: U_def)
qed

lemma float_of_str_Inl: "float_of_str s = Inl e \<Longrightarrow> is_ValueError e"
  by (auto simp: float_of_str_def Let_def split: prod.splits if_splits option.splits)

lemma int_of_str_Inl: "int_of_str s = Inl e \<Longrightarrow> is_ValueError e"
  by (auto simp: int_of_str_def Let_def split: prod.splits option.splits)

lemma resolve_cache_ttl_spec:
  "resolve_cache_ttl env ttl = Inl e \<Longrightarrow> is_ValueError e"
  "resolve_cache_ttl env ttl = Inr t \<Longrightarrow> \<not> fle t (Fin 0) \<and> (ttl = None \<or> ttl = Some t)"
  by (auto simp: resolve_cache_ttl_def split: sum.splits option.splits if_splits dest: float_of_str_Inl)

lemma resolve_cache_size_spec:
  "resolve_cache_size env n' = Inl e \<Longrightarrow> is_ValueError e"
  "resolve_cache_size env n' = Inr n \<Longrightarrow> 0 < n \<and> (n' = None \<or> n' = Some n)"
  by (auto simp: resolve_cache_size_def split: sum.splits option.splits if_splits dest: int_of_str_Inl)

lemma load_public_key_spec: "load_public_key_from_env env = Inl e \<Longrightarrow> is_ValueError e"
  by (auto simp: load_public_key_from_env_def split: option.splits if_splits sum.splits dest: b64decode_errors)

text \<open>The constructor fails only with \<open>ValueError\<close>; a client it makes has a
  non-blank trimmed key id, a positive cache size, an empty cache, a time to live that is not
  zero or negative, and the public key given, else the decoded environment variable.\<close>

theorem kms_client_config:
  "case kms_client_init env key_id ttl max_size public_key of
     Inl e \<Rightarrow> is_ValueError e
   | Inr c \<Rightarrow> kms_inv c \<and> kc_cache c = [] \<and> kc_key_id c = strip key_id \<and> strip key_id \<noteq> []
       \<and> \<not> fle (kc_cache_ttl_seconds c) (Fin 0)
       \<and> (ttl = None \<or> ttl = Some (kc_cache_ttl_seconds c))
       \<and> (max_size = None \<or> max_size = Some (kc_max_cache_size c))
       \<and> (public_key \<in> {None, Some []} \<or> kc_attestation_public_key c = public_key)"
proof (cases "kms_client_init env key_id ttl max_size public_key")
  case (Inl e)
  then show ?thesis
    by (auto simp: kms_client_init_def split: sum.splits if_splits option.splits list.splits
        dest: resolve_cache_ttl_spec resolve_cache_size_spec load_public_key_spec)
next
  case (Inr c)
  then obtain t n pk where t: "resolve_cache_ttl (env_ttl env) ttl = Inr t"
    and n: "resolve_cache_size (env_max_size env) max_size = Inr n"
    and c: "c = \<lparr>kc_key_id = strip key_id, kc_cache_ttl_seconds = t, kc_max_cache_size = n,
      kc_attestation_public_key = pk, kc_cache = []\<rparr>" "strip key_id \<noteq> []"
    and pk: "public_key \<in> {None, Some []} \<or> pk = public_key"
    by (auto simp: kms_client_init_def split: sum.splits if_splits option.splits list.splits)
  with resolve_cache_ttl_spec(2) [OF t] resolve_cache_size_spec(2) [OF n] Inr show ?thesis
    by (simp add: kms_inv_def)
qed

text \<open>
  The check does not exclude a time to live that is not a number: entries stored with it never
  expire.
\<close>

lemma nan_ttl_accepted:
  "resolve_cache_ttl (Some (U ''nan'')) None = Inr NaN"
  "fle (fadd now NaN) later = False"
  by (simp_all add: resolve_cache_ttl_def float_of_str_def strip_def U_def py_space_def lower_str_def)
    (cases now; simp)

end
