(* ===== verification/FloatRepr.thy ===== *)
theory FloatRepr
  imports Floats
begin

text \<open>
  \<open>float(repr(x)) == x\<close> for every finite float: seventeen significant digits always suffice to
  tell a float from its neighbours, so the search for the shortest ones succeeds, and the text
  laid out from them is read back as the decimal number it stands for. The codecs that send
  floats as text (JSON, and \<open>Decimal(str(x))\<close> for DynamoDB) rest on it.
\<close>

definition is_float :: "rat \<Rightarrow> bool" where
  "is_float r \<longleftrightarrow> round_float r = Fin r"

section \<open>Powers\<close>

lemma powi_less_iff: "1 < (b :: rat) \<Longrightarrow> b powi m < b powi n \<longleftrightarrow> m < n"
  by (metis linorder_not_less power_int_increasing power_int_strict_increasing less_imp_le)

lemma powi_le_iff: "1 < (b :: rat) \<Longrightarrow> b powi m \<le> b powi n \<longleftrightarrow> m \<le> n"
  by (metis linorder_not_less powi_less_iff)

lemma powi_Suc: "(b :: rat) \<noteq> 0 \<Longrightarrow> b powi (n + 1) = b * b powi n"
  by (simp add: power_int_add)

section \<open>Rounding a number close to a float\<close>

lemma round_half_even_near:
  assumes "\<bar>q - of_int k\<bar> < 1 / 2"
  shows "round_half_even q = k"
proof (cases "of_int k \<le> q")
  case True
  with assms have "\<lfloor>q\<rfloor> = k" by (intro floor_unique) auto
  with assms True show ?thesis by (simp add: round_half_even_def Let_def)
next
  case False
  with assms have "\<lfloor>q\<rfloor> = k - 1" by (intro floor_unique) (auto simp: abs_if split: if_splits)
  with assms False show ?thesis
    by (simp add: round_half_even_def Let_def abs_if split: if_splits)
qed

lemma ilog2_unique:
  assumes "2 powi e \<le> (a :: rat)" and "a < 2 powi (e + 1)"
  shows "ilog2 a = e"
proof -
  have "0 < a" using assms(1) by (rule less_le_trans [rotated]) simp
  note b = ilog2_bounds [OF this]
  have "e < ilog2 a + 1"
    using le_less_trans [OF assms(1) b(2)] by (simp add: powi_less_iff)
  moreover have "ilog2 a < e + 1"
    using le_less_trans [OF b(1) assms(2)] by (simp add: powi_less_iff)
  ultimately show ?thesis by simp
qed

lemma round_mag_eq:
  assumes "\<bar>y - of_int k * 2 powi E\<bar> < 2 powi E / 2" and "E = max (ilog2 y - 52) (-1074)"
  shows "round_mag y = of_int k * 2 powi E"
proof -
  have "y / 2 powi E - of_int k = (y - of_int k * 2 powi E) / 2 powi E"
    by (simp add: diff_divide_distrib)
  then have "\<bar>y / 2 powi E - of_int k\<bar> = \<bar>y - of_int k * 2 powi E\<bar> / 2 powi E"
    by (simp only: abs_divide abs_of_pos [OF zero_less_power_int [of 2]])
  also have "\<dots> < 1 / 2" using assms(1) by (simp add: divide_less_eq)
  finally show ?thesis by (simp add: round_mag_def Let_def assms(2) [symmetric] round_half_even_near)
qed

text \<open>
  A positive float is an integer multiple of the step at its exponent, with at most 53 bits.
\<close>

lemma float_grid:
  assumes "is_float a" and "0 < a"
  obtains k where "a = of_int k * 2 powi max (ilog2 a - 52) (-1074)" and "0 < k"
proof -
  have "round_mag a = a" using assms by (auto simp: is_float_def round_float_def Let_def split: if_splits)
  then have *: "a = of_int (round_half_even (a / 2 powi max (ilog2 a - 52) (-1074))) * 2 powi max (ilog2 a - 52) (-1074)"
    by (simp add: round_mag_def Let_def)
  then have "0 < (of_int (round_half_even (a / 2 powi max (ilog2 a - 52) (-1074))) :: rat)"
    using assms(2) by (metis zero_less_mult_pos2 zero_less_power_int zero_less_numeral)
  with * that show thesis by simp
qed

lemma float_ilog2_lower:
  assumes "is_float a" and "0 < a"
  shows "-1074 \<le> ilog2 a"
proof -
  obtain k where k: "a = of_int k * 2 powi max (ilog2 a - 52) (-1074)" "0 < k"
    using float_grid [OF assms] .
  have "2 powi (-1074) \<le> (2 :: rat) powi max (ilog2 a - 52) (-1074)" by (subst powi_le_iff) simp_all
  also have "\<dots> \<le> of_int k * 2 powi max (ilog2 a - 52) (-1074)" using k(2) by simp
  also have "\<dots> < 2 powi (ilog2 a + 1)" using ilog2_bounds(2) [OF assms(2)] k(1) by simp
  finally show ?thesis by (subst (asm) powi_less_iff) simp_all
qed

lemma float_below_next:
  assumes "is_float a" and "0 < a"
  shows "a + 2 powi max (ilog2 a - 52) (-1074) \<le> 2 powi (ilog2 a + 1)"
proof -
  define E where "E = max (ilog2 a - 52) (-1074)"
  obtain k where k: "a = of_int k * 2 powi E" using float_grid [OF assms] E_def by metis
  have E: "E \<le> ilog2 a + 1" using float_ilog2_lower [OF assms] by (simp add: E_def)
  then have "(2 :: rat) powi (ilog2 a + 1) = of_int (2 ^ nat (ilog2 a + 1 - E)) * 2 powi E"
    by (simp add: power_int_add [symmetric] flip: power_int_of_nat)
  moreover from this have "of_int k * 2 powi E < of_int (2 ^ nat (ilog2 a + 1 - E)) * (2 :: rat) powi E"
    using ilog2_bounds(2) [OF assms(2)] k by simp
  then have "k < 2 ^ nat (ilog2 a + 1 - E)" by simp
  then have "of_int (k + 1) * (2 :: rat) powi E \<le> of_int (2 ^ nat (ilog2 a + 1 - E)) * 2 powi E"
    by (intro mult_right_mono) (simp_all only: of_int_le_iff, auto)
  ultimately have "of_int k * 2 powi E + 2 powi E \<le> (2 :: rat) powi (ilog2 a + 1)"
    by (simp add: distrib_right)
  then show ?thesis unfolding E_def [symmetric] using k by simp
qed

lemma powi_steps:
  fixes e :: int
  defines "t \<equiv> (2 :: rat) powi (e - 53)"
  shows "2 powi (e - 52) = 2 * t" "2 powi (e - 1) = 4503599627370496 * t"
    "2 powi e = 9007199254740992 * t" "2 powi (e + 1) = 18014398509481984 * t" "0 < t"
proof -
  have step: "(2 :: rat) powi (e - 53 + k) = 2 powi k * t" for k
    by (simp add: t_def power_int_add)
  show "2 powi (e - 52) = 2 * t" using step [of 1] by (simp add: algebra_simps)
  show "2 powi (e - 1) = 4503599627370496 * t" using step [of 52] by simp
  show "2 powi e = 9007199254740992 * t" using step [of 53] by simp
  show "2 powi (e + 1) = 18014398509481984 * t" using step [of 54] by (simp add: add.commute)
qed (simp add: t_def)

lemma round_mag_near:
  assumes fl: "is_float a" and pos: "0 < a" and near: "\<bar>y - a\<bar> \<le> a / 20000000000000000"
  shows "round_mag y = a"
proof -
  define e where "e = ilog2 a"
  define E where "E = max (e - 52) (-1074)"
  define t where "t = (2 :: rat) powi (e - 53)"
  note steps = powi_steps [of e, folded t_def]
  have near12: "y - a \<le> a / 20000000000000000" "a - y \<le> a / 20000000000000000"
    using near by (simp_all only: abs_le_iff minus_diff_eq)
  obtain k where k: "a = of_int k * 2 powi E" using float_grid [OF fl pos] by (metis E_def e_def)
  have lo: "9007199254740992 * t \<le> a" using ilog2_bounds(1) [OF pos] by (simp add: e_def [symmetric] steps(3))
  have nx: "a + 2 powi E \<le> 18014398509481984 * t"
    using float_below_next [OF fl pos] unfolding e_def [symmetric] E_def [symmetric] steps(4) .
  have E2: "2 * t \<le> 2 powi E" unfolding steps(1) [symmetric] E_def by (subst powi_le_iff) auto
  have hi: "y < 2 powi (e + 1)" using near12 nx E2 steps(5) unfolding steps(4) by linarith
  show ?thesis
  proof (cases "2 powi e \<le> y")
    case True
    have "ilog2 y = e" by (rule ilog2_unique [OF True hi])
    moreover have "\<bar>y - a\<bar> < 2 powi E / 2" using near12 nx E2 steps(5) by (simp only: abs_less_iff) linarith
    ultimately show ?thesis using round_mag_eq [of y k E] k by (simp add: E_def)
  next
    case False
    define E' where "E' = max (e - 1 - 52) (-1074)"
    have "2 powi (e - 1) \<le> y" using near12 lo steps(5) unfolding steps(2) by linarith
    moreover have "y < 2 powi (e - 1 + 1)" using False by simp
    ultimately have "ilog2 y = e - 1" by (rule ilog2_unique)
    moreover have "t \<le> 2 powi E'" unfolding t_def E'_def by (subst powi_le_iff) auto
    then have "\<bar>y - a\<bar> < 2 powi E' / 2"
      using near12 False steps(5) unfolding steps(3) by (simp only: abs_less_iff) linarith
    moreover have "a = of_int (k * 2 ^ nat (E - E')) * 2 powi E'"
    proof -
      have "E' \<le> E" by (simp add: E'_def E_def)
      then have "(2 :: rat) powi E = of_int (2 ^ nat (E - E')) * 2 powi E'"
        by (simp add: power_int_add [symmetric] flip: power_int_of_nat)
      with k show ?thesis by simp
    qed
    ultimately show ?thesis using round_mag_eq [of y "k * 2 ^ nat (E - E')" E'] by (simp add: E'_def)
  qed
qed

lemma round_float_near:
  assumes fl: "is_float a" and pos: "0 < a" and near: "\<bar>y - a\<bar> \<le> a / 20000000000000000"
  shows "round_float y = Fin a"
proof -
  have "a < float_limit"
  proof (rule ccontr)
    assume "\<not> a < float_limit"
    moreover have "round_mag a = a" by (rule round_mag_near [OF fl pos]) (use pos in simp)
    ultimately have "round_float a = PInf" using pos by (simp add: round_float_def Let_def)
    with fl show False by (simp add: is_float_def)
  qed
  moreover have "a - y \<le> a / 20000000000000000" using near by (simp only: abs_le_iff minus_diff_eq)
  then have "0 < y" using pos by linarith
  ultimately show ?thesis using round_mag_near [OF assms] pos by (simp add: round_float_def Let_def)
qed

section \<open>Seventeen digits\<close>

lemma length_str_nat_bounds:
  "0 < n \<Longrightarrow> 10 ^ (length (str_nat n) - 1) \<le> n \<and> n < 10 ^ length (str_nat n)"
proof (induction n rule: str_nat.induct)
  case (1 n)
  show ?case
  proof (cases "n < 10")
    case True
    with 1 show ?thesis by (subst (1 2) str_nat.simps) simp
  next
    case False
    define l where "l = length (str_nat (n div 10))"
    have l: "0 < l" by (simp add: l_def)
    have len: "length (str_nat n) = Suc l" using False by (subst str_nat.simps) (simp add: l_def)
    have "10 ^ (l - 1) \<le> n div 10" "n div 10 < 10 ^ l"
      using 1(1) [OF False] False by (simp_all add: l_def)
    then have "10 * 10 ^ (l - 1) \<le> n" "n < 10 * 10 ^ l" by simp_all
    moreover have "10 * 10 ^ (l - 1) = (10 :: nat) ^ l" using l by (cases l) simp_all
    ultimately show ?thesis by (simp add: len)
  qed
qed

lemma ilog10_bounds:
  assumes "0 < a"
  shows "10 powi ilog10 a \<le> a" and "a < 10 powi (ilog10 a + 1)"
proof -
  obtain p q where pq: "quotient_of a = (p, q)" by (cases "quotient_of a")
  have q: "0 < q" using quotient_of_denom_pos [OF pq] .
  have a: "a = of_int p / of_int q" using quotient_of_div [OF pq] .
  have p: "0 < p" using assms q by (simp add: a zero_less_divide_iff)
  define lp lq where "lp = length (str_nat (nat p))" and "lq = length (str_nat (nat q))"
  have dec: "(10 :: rat) powi (int (length (str_nat (nat x))) - 1) \<le> of_int x"
    "(of_int x :: rat) < 10 powi (int (length (str_nat (nat x))))" if "0 < x" for x
  proof -
    have "0 < length (str_nat (nat x))" by simp
    then have e: "(10 :: rat) powi (int (length (str_nat (nat x))) - 1) = of_nat (10 ^ (length (str_nat (nat x)) - 1))"
      "(10 :: rat) powi (int (length (str_nat (nat x)))) = of_nat (10 ^ length (str_nat (nat x)))"
      by (simp_all add: power_int_def nat_diff_distrib)
    have x: "(of_int x :: rat) = of_nat (nat x)" using that by simp
    show "(10 :: rat) powi (int (length (str_nat (nat x))) - 1) \<le> of_int x"
      "(of_int x :: rat) < 10 powi (int (length (str_nat (nat x))))"
      unfolding e x using length_str_nat_bounds [of "nat x"] that
      by (simp_all only: of_nat_le_iff of_nat_less_iff)
  qed
  define k where "k = int lp - int lq"
  have lo: "10 powi (k - 1) \<le> a"
  proof -
    have "10 powi (k - 1) * (of_int q :: rat) \<le> 10 powi (k - 1) * 10 powi (int lq)"
      using dec(2) [OF q] by (intro mult_left_mono) (auto simp: lq_def)
    also have "\<dots> = 10 powi (k - 1 + int lq)" by (subst power_int_add) simp_all
    also have "10 powi (k - 1 + int lq) = (10 :: rat) powi (int lp - 1)" by (simp add: k_def)
    also have "\<dots> \<le> of_int p" using dec(1) [OF p] by (simp add: lp_def)
    finally show ?thesis using q by (simp add: a le_divide_eq)
  qed
  have hi: "a < 10 powi (k + 1)"
  proof -
    have "(of_int p :: rat) < 10 powi (int lp)" using dec(2) [OF p] by (simp add: lp_def)
    also have "\<dots> = 10 powi (k + 1) * 10 powi (int lq - 1)" by (simp add: k_def power_int_add [symmetric])
    also have "\<dots> \<le> 10 powi (k + 1) * of_int q"
      using dec(1) [OF q] by (intro mult_left_mono) (auto simp: lq_def)
    finally show ?thesis using q by (simp add: a divide_less_eq)
  qed
  show "10 powi ilog10 a \<le> a" "a < 10 powi (ilog10 a + 1)"
    using lo hi by (auto simp: ilog10_def pq k_def lp_def lq_def Let_def)
qed

lemma decimal_digits_17:
  assumes "is_float a" and "0 < a"
  shows "decimal_digits a 17 \<noteq> None"
proof -
  define x where "x = ilog10 a - 16"
  define s :: rat where "s = 10 powi x"
  define q where "q = a / s"
  define c where "c = (if q - of_int \<lfloor>q\<rfloor> \<le> 1 / 2 then \<lfloor>q\<rfloor> else \<lfloor>q\<rfloor> + 1)"
  have s: "0 < s" by (simp add: s_def)
  have "10 powi (x + 16) \<le> a" using ilog10_bounds(1) [OF assms(2)] by (simp add: x_def)
  then have big: "10000000000000000 * s \<le> a" by (simp add: s_def power_int_add)
  have "\<bar>of_int c - q\<bar> \<le> 1 / 2"
  proof (cases "q - of_int \<lfloor>q\<rfloor> \<le> 1 / 2")
    case True
    moreover have "of_int \<lfloor>q\<rfloor> \<le> q" by simp
    ultimately show ?thesis unfolding c_def abs_le_iff by (simp only: if_True) linarith
  next
    case False
    moreover have "q < of_int \<lfloor>q\<rfloor> + 1" using floor_correct [of q] by simp
    ultimately show ?thesis unfolding c_def abs_le_iff by simp
  qed
  then have "\<bar>of_int c - q\<bar> * s \<le> 1 / 2 * s" using s by (intro mult_right_mono) auto
  moreover have "\<bar>of_int c - q\<bar> * s = \<bar>of_int c * s - a\<bar>"
    using s by (subst abs_mult_pos) (simp_all add: q_def left_diff_distrib)
  ultimately have "\<bar>of_int c * s - a\<bar> \<le> a / 20000000000000000" using big by simp
  then have "round_float (of_int c * s) = Fin a" by (rule round_float_near [OF assms])
  note reads = this
  have x: "ilog10 a - int 17 + 1 = x" by (simp add: x_def)
  show ?thesis
    unfolding decimal_digits_def Let_def x s_def [symmetric] q_def [symmetric] c_def [symmetric]
    by (simp only: reads simp_thms if_True option.simps not_False_eq_True)
qed

lemma decimal_digits_reads:
  assumes "decimal_digits a n = Some (m, x)" and "0 < a"
  shows "round_float (of_nat m * 10 powi x) = Fin a"
proof -
  define s :: rat where "s = 10 powi (ilog10 a - int n + 1)"
  have "0 \<le> \<lfloor>a / s\<rfloor>" using assms(2) by (simp add: s_def)
  then have nat: "of_nat (nat \<lfloor>a / s\<rfloor>) = (of_int \<lfloor>a / s\<rfloor> :: rat)"
    "of_nat (nat (\<lfloor>a / s\<rfloor> + 1)) = (of_int (\<lfloor>a / s\<rfloor> + 1) :: rat)" by simp_all
  show ?thesis
    using assms(1) unfolding decimal_digits_def Let_def s_def [symmetric]
    by (auto simp: s_def nat [unfolded s_def] split: if_splits)
qed

lemma shortest_digits_reads:
  assumes "is_float a" and "0 < a" and "shortest_digits a = (m, x)"
  shows "round_float (of_nat m * 10 powi x) = Fin a"
proof -
  let ?ds = "map (\<lambda>n. decimal_digits a n) [1..<18]"
  have "decimal_digits a 17 \<in> set ?ds" by simp
  with decimal_digits_17 [OF assms(1,2)] have "List.find (\<lambda>r. r \<noteq> None) ?ds \<noteq> None"
    unfolding find_None_iff by blast
  then obtain r where r: "List.find (\<lambda>r. r \<noteq> None) ?ds = Some r" by blast
  then have "r \<noteq> None" "r \<in> set ?ds" unfolding find_Some_iff by (metis, metis nth_mem)
  then obtain n m' x' where "decimal_digits a n = Some (m', x')" "r = Some (m', x')" by auto
  with r assms(3) decimal_digits_reads [OF _ assms(2)] show ?thesis by (auto simp: shortest_digits_def)
qed

section \<open>Reading a number back from its text\<close>

lemma dec_val_append: "dec_val (xs @ ys) = dec_val xs * 10 ^ length ys + dec_val ys"
proof (induction ys rule: rev_induct)
  case (snoc y ys)
  have "dec_val (xs @ ys @ [y]) = 10 * dec_val (xs @ ys) + (y - 48)"
    by (simp add: dec_val_def)
  moreover have "dec_val (ys @ [y]) = 10 * dec_val ys + (y - 48)" by (simp add: dec_val_def)
  ultimately show ?case using snoc.IH by (simp add: algebra_simps)
qed (simp add: dec_val_def)

lemma dec_val_zeros [simp]: "dec_val (replicate n 48) = 0"
  by (induction n) (simp_all add: dec_val_def)

lemma dec_val_0 [simp]: "dec_val [] = 0" "dec_val [48] = 0"
  by (simp_all add: dec_val_def)

lemma split_at_here: "c \<notin> set xs \<Longrightarrow> split_at c (xs @ c # ys) = (xs, Some ys)"
proof -
  assume "c \<notin> set xs"
  then have "takeWhile (\<lambda>x. x \<noteq> c) (xs @ c # ys) = xs" "dropWhile (\<lambda>x. x \<noteq> c) (xs @ c # ys) = c # ys"
    by (simp_all add: takeWhile_append dropWhile_append)
  then show ?thesis by (simp add: split_at_def)
qed

lemma split_at_none: "c \<notin> set xs \<Longrightarrow> split_at c xs = (xs, None)"
proof -
  assume "c \<notin> set xs"
  then have *: "dropWhile (\<lambda>x. x \<noteq> c) xs = []" "takeWhile (\<lambda>x. x \<noteq> c) xs = xs" by auto
  show ?thesis unfolding split_at_def * by simp
qed

lemma opt_digits_id: "list_all digit ds \<Longrightarrow> opt_digits ds = Some ds"
  by (simp add: opt_digits_def int_digits_id)

lemma digit_not_sep: "list_all digit ds \<Longrightarrow> 46 \<notin> set ds \<and> 101 \<notin> set ds"
  by (auto simp: list_all_iff digit_def)

lemma decimal_of_parts:
  assumes "list_all digit ip" "list_all digit fp" "ip \<noteq> []" "decimal_exponent ex = Some x"
    and "s = ip @ (case pt of False \<Rightarrow> [] | True \<Rightarrow> 46 # fp) @ (case ex of None \<Rightarrow> [] | Some e \<Rightarrow> 101 # e)"
    and "pt \<or> fp = []"
  shows "decimal_of_str s = Some (of_nat (dec_val (ip @ fp)) * 10 powi (x - int (length fp)))"
proof -
  define m where "m = ip @ (case pt of False \<Rightarrow> [] | True \<Rightarrow> 46 # fp)"
  note sep = digit_not_sep [OF assms(1)] digit_not_sep [OF assms(2)]
  have "101 \<notin> set m" using sep by (auto simp: m_def split: bool.split)
  then have "split_at 101 s = (m, ex)"
    by (cases ex) (simp_all add: assms(5) m_def [symmetric] split_at_here split_at_none flip: append_assoc)
  moreover have "split_at 46 m = (ip, if pt then Some fp else None)"
    using sep by (simp add: m_def split_at_here split_at_none split: bool.split)
  ultimately show ?thesis
    using assms(1-4,6) by (auto simp: decimal_of_str_def Let_def opt_digits_id split: if_splits)
qed

lemma decimal_exponent_layout:
  "decimal_exponent (Some ((if e < 0 then 45 else 43)
     # (if length (str_nat (nat \<bar>e\<bar>)) < 2 then 48 # str_nat (nat \<bar>e\<bar>) else str_nat (nat \<bar>e\<bar>)))) = Some e"
proof -
  let ?es = "str_nat (nat \<bar>e\<bar>)"
  let ?ds = "if length ?es < 2 then 48 # ?es else ?es"
  have "list_all digit ?ds" using str_nat_digits [of "nat \<bar>e\<bar>"] by (auto simp: list_all_iff digit_def)
  then have "int_digits False ?ds = Some ?ds" by (intro int_digits_id) auto
  moreover have "dec_val ?ds = nat \<bar>e\<bar>"
    using dec_val_append [of "[48]" ?es] by simp
  ultimately show ?thesis by (auto simp: decimal_exponent_def Let_def digit_def)
qed

lemma digits_part: "list_all digit z \<Longrightarrow> list_all digit (take n z) \<and> list_all digit (drop n z)"
  by (auto simp: list_all_iff dest: in_set_takeD in_set_dropD)

lemma decimal_layout_scientific:
  assumes "list_all digit z" and "z \<noteq> []" and "d \<le> -4 \<or> 16 < d"
  shows "decimal_of_str (layout_digits z d) = Some (of_nat (dec_val z) * 10 powi (d - int (length z)))"
proof -
  define ex where "ex = (if d - 1 < 0 then 45 else 43)
    # (if length (str_nat (nat \<bar>d - 1\<bar>)) < 2 then 48 # str_nat (nat \<bar>d - 1\<bar>) else str_nat (nat \<bar>d - 1\<bar>))"
  have "decimal_exponent (Some ex) = Some (d - 1)" unfolding ex_def by (rule decimal_exponent_layout)
  then have "decimal_of_str (layout_digits z d)
      = Some (of_nat (dec_val (take 1 z @ drop 1 z)) * 10 powi (d - 1 - int (length (drop 1 z))))"
    using assms digits_part [OF assms(1)]
    by (intro decimal_of_parts [where pt = "1 < length z" and ex = "Some ex"])
      (auto simp: layout_digits_def Let_def ex_def split: bool.split)
  moreover have "d - 1 - int (length (drop 1 z)) = d - int (length z)"
    using assms(2) by (cases z) auto
  ultimately show ?thesis by simp
qed

lemma decimal_layout:
  assumes "list_all digit z" and "z \<noteq> []"
  shows "decimal_of_str (layout_digits z d) = Some (of_nat (dec_val z) * 10 powi (d - int (length z)))"
proof -
  have zeros: "list_all digit (replicate n 48)" for n by (simp add: list_all_iff digit_def)
  have none: "decimal_exponent None = Some 0" by (simp add: decimal_exponent_def)
  consider (small) "-4 < d" "d \<le> 0" | (right) "0 < d" "d \<le> 16" "int (length z) \<le> d"
    | (inside) "0 < d" "d \<le> 16" "d < int (length z)" | (sci) "d \<le> -4 \<or> 16 < d" by linarith
  then show ?thesis
  proof cases
    case small
    let ?fp = "replicate (nat (- d)) 48 @ z"
    have "decimal_of_str (layout_digits z d) = Some (of_nat (dec_val ([48] @ ?fp)) * 10 powi (0 - int (length ?fp)))"
      using small assms zeros
      by (intro decimal_of_parts [where pt = True, OF _ _ _ none])
        (auto simp: layout_digits_def U_def digit_def list_all_iff)
    then show ?thesis using small by (simp add: dec_val_append [of "48 # _"] dec_val_append [of "[48]", simplified] dec_val_append algebra_simps)
  next
    case right
    let ?ip = "z @ replicate (nat d - length z) 48"
    have "decimal_of_str (layout_digits z d) = Some (of_nat (dec_val (?ip @ [48])) * 10 powi (0 - int (length [48 :: nat])))"
      using right assms zeros
      by (intro decimal_of_parts [where pt = True, OF _ _ _ none])
        (auto simp: layout_digits_def U_def digit_def list_all_iff)
    moreover have "(10 :: rat) powi (d - int (length z)) = of_nat (10 ^ (nat d - length z))"
      using right by (simp add: power_int_def nat_diff_distrib)
    ultimately show ?thesis by (simp add: dec_val_append)
  next
    case inside
    have "decimal_of_str (layout_digits z d)
        = Some (of_nat (dec_val (take (nat d) z @ drop (nat d) z)) * 10 powi (0 - int (length (drop (nat d) z))))"
      using inside assms digits_part [OF assms(1)]
      by (intro decimal_of_parts [where pt = True, OF _ _ _ none]) (auto simp: layout_digits_def)
    moreover have "0 - int (length (drop (nat d) z)) = d - int (length z)" using inside by simp
    ultimately show ?thesis using inside by simp
  next
    case sci
    then show ?thesis by (rule decimal_layout_scientific [OF assms])
  qed
qed

text \<open>The text of a number: its characters, and where it starts.\<close>

definition number_char :: "nat \<Rightarrow> bool" where
  "number_char c \<longleftrightarrow> digit c \<or> c = 43 \<or> c = 45 \<or> c = 46 \<or> c = 101"

lemma list_all_number_digits: "list_all digit ds \<Longrightarrow> list_all number_char ds"
  by (auto simp: list_all_iff number_char_def)

lemma layout_chars:
  assumes "list_all digit z" and "z \<noteq> []"
  shows "list_all number_char (layout_digits z d)" and "layout_digits z d \<noteq> []"
    and "digit (hd (layout_digits z d))"
proof -
  have es: "list_all digit (str_nat n)" for n using str_nat_digits by (auto simp: list_all_iff)
  obtain c z' where z: "z = c # z'" using assms(2) by (cases z) auto
  have part: "list_all digit (take n z)" "list_all digit (drop n z)" for n
    using assms(1) by (auto simp: list_all_iff dest: in_set_takeD in_set_dropD)
  note digits = part [THEN list_all_number_digits] es [THEN list_all_number_digits]
    assms(1) [THEN list_all_number_digits]
  have c: "number_char 48" "number_char 46" "number_char 101" "number_char 43" "number_char 45"
    by (simp_all add: number_char_def digit_def)
  have rep: "list_all number_char (replicate n 48)" for n using c(1) by (induction n) simp_all
  show "list_all number_char (layout_digits z d)"
    using digits digits(2) [of 1] rep c by (auto simp: layout_digits_def Let_def U_def)
  show "layout_digits z d \<noteq> []" using z by (auto simp: layout_digits_def Let_def)
  have "digit c" using assms(1) z by simp
  then show "digit (hd (layout_digits z d))"
    using z by (cases "nat d") (auto simp: layout_digits_def Let_def U_def digit_def)
qed

lemma strip_zeros_decomp:
  assumes "list_all digit ds"
  obtains j where "ds = strip_zeros ds @ replicate j 48" and "list_all digit (strip_zeros ds)"
proof -
  define p where "p = takeWhile (\<lambda>c. c = 48) (rev ds)"
  have "rev ds = p @ rev (strip_zeros ds)" by (simp add: strip_zeros_def p_def)
  then have ds: "ds = strip_zeros ds @ rev p" by (metis rev_append rev_rev_ident)
  have "\<forall>c \<in> set (rev p). c = 48" by (auto simp: p_def dest: set_takeWhileD)
  then have "rev p = replicate (length p) 48" by (metis length_rev replicate_eqI)
  moreover have "list_all digit (strip_zeros ds)" using assms by (subst (asm) ds) simp
  ultimately show thesis using that ds by metis
qed

text \<open>What \<open>repr\<close> writes for a positive float: characters, first digit, and value.\<close>

lemma repr_pos_spec:
  assumes "is_float a" and "0 < a"
  shows "list_all number_char (repr_pos a)" "repr_pos a \<noteq> []" "digit (hd (repr_pos a))"
    and "\<exists>r. decimal_of_str (repr_pos a) = Some r \<and> round_float r = Fin a"
    and "\<exists>z d m j. repr_pos a = layout_digits z d \<and> list_all digit z \<and> z \<noteq> []
      \<and> str_nat m = z @ replicate j 48 \<and> m \<noteq> 0"
proof -
  obtain m x where mx: "shortest_digits a = (m, x)" by fastforce
  note reads = shortest_digits_reads [OF assms mx]
  have "m \<noteq> 0"
  proof
    assume "m = 0"
    with reads have "Fin 0 = Fin a" by (simp add: round_float_def)
    with assms(2) show False by simp
  qed
  have "list_all digit (str_nat m)" using str_nat_digits by (auto simp: list_all_iff)
  then obtain j where j: "str_nat m = strip_zeros (str_nat m) @ replicate j 48"
    and z: "list_all digit (strip_zeros (str_nat m))" by (rule strip_zeros_decomp)
  define z where "z = strip_zeros (str_nat m)"
  have m: "m = dec_val z * 10 ^ j"
    using j dec_val_append [of z "replicate j 48"] by (metis add.right_neutral dec_val_str_nat dec_val_zeros length_replicate z_def)
  then have zne: "z \<noteq> []" using \<open>m \<noteq> 0\<close> by auto
  have len: "length (str_nat m) = length z + j" using j by (metis length_append length_replicate z_def)
  have r: "repr_pos a = layout_digits z (int (length (str_nat m)) + x)"
    by (simp add: repr_pos_def mx z_def Let_def)
  show "list_all number_char (repr_pos a)" "repr_pos a \<noteq> []" "digit (hd (repr_pos a))"
    unfolding r using layout_chars [OF z [folded z_def] zne] by blast+
  show "\<exists>z d m j. repr_pos a = layout_digits z d \<and> list_all digit z \<and> z \<noteq> []
      \<and> str_nat m = z @ replicate j 48 \<and> m \<noteq> 0"
    using r z [folded z_def] zne j [folded z_def] \<open>m \<noteq> 0\<close> by blast
  have "decimal_of_str (repr_pos a) = Some (of_nat (dec_val z) * 10 powi (int j + x))"
    unfolding r decimal_layout [OF z [folded z_def] zne] by (simp add: len)
  moreover have "of_nat (dec_val z) * 10 powi (int j + x) = (of_nat m * 10 powi x :: rat)"
    by (simp add: m power_int_add)
  ultimately show "\<exists>r. decimal_of_str (repr_pos a) = Some r \<and> round_float r = Fin a" using reads by simp
qed

lemma number_char_lower: "list_all number_char s \<Longrightarrow> lower_str s = s"
  by (induction s) (auto simp: lower_str_def number_char_def digit_def)

lemma number_char_strip: "list_all number_char s \<Longrightarrow> strip s = s"
proof (cases s)
  case (Cons c t)
  assume a: "list_all number_char s"
  have "\<not> py_space c" if "number_char c" for c
    using that by (auto simp: number_char_def digit_def py_space_def)
  moreover have "number_char (hd s)" "number_char (last s)"
    using a Cons by (auto simp: list_all_iff)
  ultimately show ?thesis using Cons by (intro strip_id) auto
qed simp

lemma is_float_minus: "is_float r \<Longrightarrow> is_float (- r)"
  by (auto simp: is_float_def round_float_def Let_def split: if_splits)

lemma round_float_minus: "round_float r = Fin a \<Longrightarrow> round_float (- r) = Fin (- a)"
  by (auto simp: round_float_def Let_def split: if_splits)

lemma float_of_str_unsigned:
  assumes "list_all number_char s" "s \<noteq> []" "digit (hd s)" "decimal_of_str s = Some r"
  shows "float_of_str s = Inr (round_float r)" and "float_of_str (45 # s) = Inr (round_float (- r))"
proof -
  obtain c t where s: "s = c # t" using assms(2) by (cases s) auto
  have c: "c \<noteq> 45" "c \<noteq> 43" "c \<noteq> 105" "c \<noteq> 110" using assms(3) s by (auto simp: digit_def)
  have words: "s \<noteq> U ''inf''" "s \<noteq> U ''infinity''" "s \<noteq> U ''nan''" using c s by (auto simp: U_def)
  have all: "list_all number_char (45 # s)" using assms(1) by (simp add: number_char_def)
  show "float_of_str s = Inr (round_float r)"
    using c words assms(4) unfolding float_of_str_def number_char_strip [OF assms(1)] number_char_lower [OF assms(1)]
    by (simp add: s Let_def)
  show "float_of_str (45 # s) = Inr (round_float (- r))"
    using words assms(4) unfolding float_of_str_def number_char_strip [OF all] number_char_lower [OF all]
    by (simp add: Let_def)
qed

lemma float_of_repr:
  assumes "is_float r"
  shows "float_of_str (float_repr (Fin r)) = Inr (Fin r)"
proof -
  consider "r = 0" | "0 < r" | "r < 0" by linarith
  then show ?thesis
  proof cases
    case 1
    have "decimal_of_str (U ''0.0'') = Some 0"
      by (simp add: decimal_of_str_def U_def split_at_def opt_digits_def decimal_exponent_def digit_def dec_val_def)
    then have "float_of_str (U ''0.0'') = Inr (round_float 0)"
      by (intro float_of_str_unsigned) (simp_all add: U_def number_char_def digit_def)
    with 1 show ?thesis by (simp add: round_float_def)
  next
    case 2
    with repr_pos_spec [OF assms 2] show ?thesis
      by (auto simp: float_of_str_unsigned(1))
  next
    case 3
    then have "0 < - r" by simp
    note spec = repr_pos_spec [OF is_float_minus [OF assms] this]
    from spec(4) obtain q where "decimal_of_str (repr_pos (- r)) = Some q" "round_float q = Fin (- r)" by blast
    with float_of_str_unsigned(2) [OF spec(1-3)] round_float_minus [of q "- r"] 3 show ?thesis by simp
  qed
qed

end
