(* ===== verification/JsonText.thy ===== *)
theory JsonText
  imports Json FloatRepr
begin

text \<open>
  \<open>json.loads(json.dumps(x)) == x\<close>: the text of every well-formed value is read back from the
  front of a longer text, up to the delimiter that follows it.
\<close>

section \<open>Strings\<close>

definition high_surrogate :: "nat \<Rightarrow> bool" where
  "high_surrogate c \<longleftrightarrow> 0xD800 \<le> c \<and> c < 0xDC00"

definition low_surrogate :: "nat \<Rightarrow> bool" where
  "low_surrogate c \<longleftrightarrow> 0xDC00 \<le> c \<and> c < 0xE000"

text \<open>
  Lone surrogates survive; a high one directly before a low one would be read back as the
  character the pair stands for.
\<close>

fun str_wf :: "ustr \<Rightarrow> bool" where
  "str_wf [] = True"
| "str_wf [c] = (c < 0x110000)"
| "str_wf (c # d # s) = (c < 0x110000 \<and> \<not> (high_surrogate c \<and> low_surrogate d) \<and> str_wf (d # s))"

lemma hex_val_digit_mod [simp]: "hex_val (hex_digit (n mod 16)) = Some (n mod 16)"
  by (rule hex_val_digit) simp

lemma hex4_val_hex4:
  assumes "n < 0x10000"
  shows "hex4_val (hex4 n @ r) = Some (n, r)"
proof -
  have "n div 4096 mod 16 * 4096 + n div 256 mod 16 * 256 + n div 16 mod 16 * 16 + n mod 16 = n"
  proof -
    have "n div 256 = n div 16 div 16" "n div 4096 = n div 256 div 16"
      by (simp_all flip: div_mult2_eq)
    moreover have "n div 4096 mod 16 = n div 4096" using assms by simp
    ultimately show ?thesis
      using div_mult_mod_eq [of n 16] div_mult_mod_eq [of "n div 16" 16] div_mult_mod_eq [of "n div 256" 16]
      by linarith
  qed
  then show ?thesis
    by (simp only: hex4_def append.simps hex4_val.simps hex_val_digit_mod prod.case option.case)
qed

lemma unescape_u: "n < 0x10000 \<Longrightarrow> \<not> high_surrogate n \<Longrightarrow> unescape (117 # hex4 n @ r) = Some (n, r)"
  by (auto simp: unescape_def hex4_val_hex4 high_surrogate_def)

lemma unescape_lone:
  assumes "high_surrogate n" and "low_surrogate_escape r = None"
  shows "unescape (117 # hex4 n @ r) = Some (n, r)"
  using assms by (simp add: unescape_def hex4_val_hex4 high_surrogate_def)

lemma unescape_pair:
  assumes "high_surrogate n" and "low_surrogate m"
  shows "unescape (117 # hex4 n @ 92 # 117 # hex4 m @ r) = Some (0x10000 + (n - 0xD800) * 1024 + (m - 0xDC00), r)"
  using assms
  by (simp add: unescape_def hex4_val_hex4 high_surrogate_def low_surrogate_def low_surrogate_escape_def)

lemma low_surrogate_escape_char:
  assumes "c < 0x110000" and "\<not> low_surrogate c"
  shows "low_surrogate_escape (escape_char c @ r) = None"
proof -
  have "hex4_val (hex4 (0xD800 + (c - 0x10000) div 1024) @ r) = Some (0xD800 + (c - 0x10000) div 1024, r)"
    if "c \<ge> 0x10000" for r
    using assms(1) by (intro hex4_val_hex4) simp
  moreover have "0xD800 + (c - 0x10000) div 1024 < 0xDC00" using assms(1) by simp
  ultimately show ?thesis
    using assms
    by (auto simp: low_surrogate_escape_def escape_char_def u_escape_def hex4_val_hex4 low_surrogate_def
        split: list.split)
qed

lemma parse_str_escape:
  assumes "c < 0x110000" and "high_surrogate c \<Longrightarrow> low_surrogate_escape r = None"
    and "parse_str r = Inr (s, r')"
  shows "parse_str (escape_char c @ r) = Inr (c # s, r')"
proof -
  have step: "parse_str (92 # t) = Inr (c # s, r')" if "unescape t = Some (c, r)" for t
    using that assms(3) by (subst parse_str.simps) simp
  consider (simple) "c \<in> {34, 92, 8, 12, 10, 13, 9}" | (plain) "c \<notin> {34, 92, 8, 12, 10, 13, 9}" "32 \<le> c" "c \<le> 126"
    | (u) "c \<notin> {34, 92, 8, 12, 10, 13, 9}" "c < 32 \<or> 126 < c" "c < 0x10000" | (pair) "0x10000 \<le> c"
    by linarith
  then show ?thesis
  proof cases
    case simple
    then show ?thesis using step by (auto simp: escape_char_def unescape_def)
  next
    case plain
    then show ?thesis using assms(3) by (subst parse_str.simps) (simp add: escape_char_def)
  next
    case u
    have "unescape (117 # hex4 c @ r) = Some (c, r)"
      using u(3) assms(2) by (cases "high_surrogate c") (simp_all add: unescape_u unescape_lone)
    with u show ?thesis using step by (auto simp: escape_char_def u_escape_def)
  next
    case pair
    define n m where "n = 0xD800 + (c - 0x10000) div 1024" and "m = 0xDC00 + (c - 0x10000) mod 1024"
    have "high_surrogate n" "low_surrogate m"
      using assms(1) pair by (simp_all add: n_def m_def high_surrogate_def low_surrogate_def)
    then have "unescape (117 # hex4 n @ 92 # 117 # hex4 m @ r) = Some (c, r)"
      using pair by (simp add: unescape_pair n_def m_def)
    moreover have "escape_char c @ r = 92 # 117 # hex4 n @ 92 # 117 # hex4 m @ r"
      using pair by (simp add: escape_char_def u_escape_def n_def m_def)
    ultimately show ?thesis using step by simp
  qed
qed

lemma parse_str_dump: "str_wf s \<Longrightarrow> parse_str (concat (map escape_char s) @ 34 # r) = Inr (s, r)"
proof (induction s rule: str_wf.induct)
  case 1
  show ?case by (subst parse_str.simps) simp
next
  case (2 c)
  have "parse_str (34 # r) = Inr ([], r)" by (subst parse_str.simps) simp
  moreover have "low_surrogate_escape (34 # r) = None" by (auto simp: low_surrogate_escape_def split: list.split)
  ultimately show ?case using 2 by (simp add: parse_str_escape)
next
  case (3 c d s)
  have "d < 0x110000" using 3(2) by (cases s) simp_all
  then have "high_surrogate c \<Longrightarrow> low_surrogate_escape (escape_char d @ concat (map escape_char s) @ 34 # r) = None"
    using 3(2) by (intro low_surrogate_escape_char) auto
  moreover have "parse_str (escape_char d @ concat (map escape_char s) @ 34 # r) = Inr (d # s, r)"
    using 3 by simp
  ultimately show ?case using 3(2) by (simp add: parse_str_escape)
qed

section \<open>Numbers\<close>

text \<open>What may follow a value: nothing, or the comma or bracket of an enclosing structure.\<close>

definition delim :: "ustr \<Rightarrow> bool" where
  "delim r \<longleftrightarrow> r = [] \<or> hd r = 44 \<or> hd r = 93 \<or> hd r = 125"

lemma takeWhile_digits:
  assumes "list_all digit ds" and "r = [] \<or> \<not> digit (hd r)"
  shows "takeWhile digit (ds @ r) = ds" and "dropWhile digit (ds @ r) = r"
  using assms by (induction ds; cases r; auto)+

lemma delim_not: "delim r \<Longrightarrow> r = [] \<or> \<not> digit (hd r)"
  by (auto simp: delim_def digit_def)

definition canonical_digits :: "ustr \<Rightarrow> bool" where
  \<comment> \<open>digits, no leading zero unless it is the only one\<close>
  "canonical_digits ds \<longleftrightarrow> list_all digit ds \<and> ds \<noteq> [] \<and> (hd ds = 48 \<longrightarrow> ds = [48])"

lemma str_nat_canonical: "canonical_digits (str_nat n)"
proof (induction n rule: str_nat.induct)
  case (1 n)
  show ?case
  proof (cases "n < 10")
    case True
    then show ?thesis by (subst str_nat.simps) (auto simp: canonical_digits_def digit_def)
  next
    case False
    have "str_nat (n div 10) \<noteq> [48]"
    proof
      assume "str_nat (n div 10) = [48]"
      then have "dec_val (str_nat (n div 10)) = 0" by simp
      with False show False by simp
    qed
    with 1 False show ?thesis
      by (subst str_nat.simps) (auto simp: canonical_digits_def digit_def)
  qed
qed

lemma lex_int_digits:
  assumes "canonical_digits ds" and "r = [] \<or> \<not> digit (hd r)"
  shows "lex_int (ds @ r) = Some (ds, r)"
proof (cases "hd ds = 48")
  case True
  then show ?thesis using assms(1) by (simp add: canonical_digits_def lex_int_def)
next
  case False
  obtain c t where ds: "ds = c # t" using assms(1) by (cases ds) (auto simp: canonical_digits_def)
  have dig: "list_all digit ds" using assms(1) by (simp add: canonical_digits_def)
  show ?thesis
    using False takeWhile_digits [OF dig assms(2)] dig unfolding lex_int_def by (simp add: ds)
qed

lemma lex_sign_digit: "ds \<noteq> [] \<Longrightarrow> digit (hd ds) \<Longrightarrow> lex_sign (ds @ r) = ([], ds @ r)"
  by (cases ds) (auto simp: lex_sign_def digit_def)

lemma lex_sign_minus: "lex_sign (45 # r) = ([45], r)"
  by (simp add: lex_sign_def)

lemma lex_frac_none: "r = [] \<or> hd r \<noteq> 46 \<Longrightarrow> lex_frac r = ([], r)"
  by (cases r) (simp_all add: lex_frac_def)

lemma lex_frac_digits:
  assumes "list_all digit ds" and "ds \<noteq> []" and "r = [] \<or> \<not> digit (hd r)"
  shows "lex_frac (46 # ds @ r) = (46 # ds, r)"
  using takeWhile_digits [OF assms(1,3)] assms(2) by (simp add: lex_frac_def)

lemma lex_exp_none: "r = [] \<or> (hd r \<noteq> 101 \<and> hd r \<noteq> 69) \<Longrightarrow> lex_exp r = ([], r)"
  by (cases r) (simp_all add: lex_exp_def)

lemma lex_exp_digits:
  assumes "list_all digit ds" and "ds \<noteq> []" and "r = [] \<or> \<not> digit (hd r)" and "sg = 45 \<or> sg = 43"
  shows "lex_exp (101 # sg # ds @ r) = (101 # sg # ds, r)"
  using takeWhile_digits [OF assms(1,3)] assms(2,4) by (auto simp: lex_exp_def)

lemma lex_number_int:
  assumes "delim r"
  shows "lex_number (str_int i @ r) = Some (str_int i, False, r)"
proof -
  have r: "r = [] \<or> \<not> digit (hd r)" "lex_frac r = ([], r)" "lex_exp r = ([], r)"
    using assms by (auto simp: delim_def digit_def intro!: lex_frac_none lex_exp_none)
  have d: "str_nat n \<noteq> []" "digit (hd (str_nat n))" for n
    using str_nat_canonical [of n] by (auto simp: canonical_digits_def list_all_iff)
  show ?thesis
    using lex_int_digits [OF str_nat_canonical r(1)] lex_sign_digit [OF d, of _ r]
    by (auto simp: lex_number_def str_int_def lex_sign_minus r(2,3))
qed

text \<open>Number texts with a fraction or an exponent: the shapes \<open>repr\<close> lays out.\<close>

lemma lex_number_parts:
  assumes ip: "canonical_digits ip" and fp: "list_all digit fp" and "delim r"
    and ex: "ex = [] \<or> (\<exists>sg es. ex = 101 # sg # es \<and> (sg = 45 \<or> sg = 43) \<and> list_all digit es \<and> es \<noteq> [])"
    and pt: "fpart = (if fp = [] then [] else 46 # fp)" and fl: "fp \<noteq> [] \<or> ex \<noteq> []"
  shows "lex_number (ip @ fpart @ ex @ r) = Some (ip @ fpart @ ex, True, r)"
proof -
  have r: "r = [] \<or> \<not> digit (hd r)" "lex_exp r = ([], r)"
    using \<open>delim r\<close> by (auto simp: delim_def digit_def intro!: lex_exp_none)
  have e: "lex_exp (ex @ r) = (ex, r)" using ex r lex_exp_digits [OF _ _ r(1)] by auto
  have hd_er: "ex @ r = [] \<or> (\<not> digit (hd (ex @ r)) \<and> hd (ex @ r) \<noteq> 46)"
    using ex \<open>delim r\<close> by (auto simp: delim_def digit_def)
  have f: "lex_frac (fpart @ ex @ r) = (fpart, ex @ r)"
    using hd_er lex_frac_digits [OF fp, of "ex @ r"] lex_frac_none [of "ex @ r"] by (auto simp: pt)
  have hd_fer: "fpart @ ex @ r = [] \<or> \<not> digit (hd (fpart @ ex @ r))"
    using hd_er by (auto simp: pt digit_def)
  have d: "ip \<noteq> []" "digit (hd ip)" using ip by (auto simp: canonical_digits_def list_all_iff)
  show ?thesis
  proof -
    have "fpart @ ex \<noteq> []" using fl pt by auto
    moreover have "lex_sign (ip @ fpart @ ex @ r) = ([], ip @ fpart @ ex @ r)" by (rule lex_sign_digit [OF d])
    moreover have "lex_int (ip @ fpart @ ex @ r) = Some (ip, fpart @ ex @ r)" by (rule lex_int_digits [OF ip hd_fer])
    ultimately show ?thesis by (simp add: lex_number_def f e)
  qed
qed

lemma lex_number_minus:
  assumes "lex_number s = Some (t, b, r)" and "s \<noteq> []" and "digit (hd s)"
  shows "lex_number (45 # s) = Some (45 # t, b, r)"
proof -
  have "lex_sign s = ([], s)" using lex_sign_digit [OF assms(2,3), of "[]"] by simp
  with assms(1) show ?thesis
    by (auto simp: lex_number_def lex_sign_minus Let_def split: option.splits prod.splits)
qed

lemma lex_layout:
  assumes z: "list_all digit z" "z \<noteq> []" "hd z \<noteq> 48" and r: "delim r"
  shows "lex_number (layout_digits z d @ r) = Some (layout_digits z d, True, r)"
proof -
  obtain c t where zc: "z = c # t" using z(2) by (cases z) auto
  have c: "digit c" "c \<noteq> 48" "list_all digit t" using z by (auto simp: zc)
  have part: "list_all digit (take n z)" "list_all digit (drop n z)" for n
    using z(1) by (auto simp: list_all_iff dest: in_set_takeD in_set_dropD)
  have zeros: "list_all digit (replicate n 48)" for n by (simp add: list_all_iff digit_def)
  consider (small) "-4 < d" "d \<le> 0" | (right) "0 < d" "d \<le> 16" "int (length z) \<le> d"
    | (inside) "0 < d" "d \<le> 16" "d < int (length z)" | (sci) "d \<le> -4 \<or> 16 < d" by linarith
  then show ?thesis
  proof cases
    case small
    have "canonical_digits [48]" by (simp add: canonical_digits_def digit_def)
    from lex_number_parts [OF this _ r, of "replicate (nat (- d)) 48 @ z" "[]"] small z zeros
    show ?thesis by (simp add: layout_digits_def U_def)
  next
    case right
    have "canonical_digits (z @ replicate (nat d - length z) 48)"
      using z zeros by (simp add: canonical_digits_def)
    from lex_number_parts [OF this _ r, of "[48]" "[]"] right show ?thesis
      by (simp add: layout_digits_def U_def digit_def)
  next
    case inside
    then have n: "nat d \<noteq> 0" "nat d < length z" by auto
    then have "canonical_digits (take (nat d) z)" using z part by (auto simp: canonical_digits_def)
    from lex_number_parts [OF this part(2) [of "nat d"] r, of "[]"] inside n show ?thesis
      by (simp add: layout_digits_def)
  next
    case sci
    let ?e = "d - 1"
    define es where "es = (if length (str_nat (nat \<bar>?e\<bar>)) < 2 then 48 # str_nat (nat \<bar>?e\<bar>) else str_nat (nat \<bar>?e\<bar>))"
    have "list_all digit es" "es \<noteq> []"
      using str_nat_digits [of "nat \<bar>?e\<bar>"] by (auto simp: es_def list_all_iff digit_def)
    moreover have "canonical_digits [c]" using c by (simp add: canonical_digits_def)
    ultimately show ?thesis
      using lex_number_parts [of "[c]" t r "101 # (if ?e < 0 then 45 else 43) # es"] sci c r
      by (auto simp: layout_digits_def Let_def zc es_def)
  qed
qed

lemma lex_repr_pos:
  assumes "is_float a" and "0 < a" and "delim r"
  shows "lex_number (repr_pos a @ r) = Some (repr_pos a, True, r)"
proof -
  obtain z d m j where zd: "repr_pos a = layout_digits z d" "list_all digit z" "z \<noteq> []"
    and m: "str_nat m = z @ replicate j 48" "m \<noteq> 0"
    using repr_pos_spec(5) [OF assms(1,2)] by blast
  have "hd z \<noteq> 48"
  proof
    assume "hd z = 48"
    with m(1) zd(3) have "hd (str_nat m) = 48" by simp
    with str_nat_canonical [of m] have "str_nat m = [48]" by (simp add: canonical_digits_def)
    then have "dec_val (str_nat m) = 0" by simp
    with m(2) show False by simp
  qed
  with zd assms(3) show ?thesis by (simp add: lex_layout)
qed

lemma lex_float_repr:
  assumes "is_float q" and "delim r"
  shows "lex_number (float_repr (Fin q) @ r) = Some (float_repr (Fin q), True, r)"
proof -
  consider "q = 0" | "0 < q" | "q < 0" by linarith
  then show ?thesis
  proof cases
    case 1
    have "canonical_digits [48]" by (simp add: canonical_digits_def digit_def)
    from lex_number_parts [OF this _ assms(2), of "[48]" "[]"] 1 show ?thesis by (simp add: U_def digit_def)
  next
    case 2
    then show ?thesis using lex_repr_pos [OF assms(1) _ assms(2)] by simp
  next
    case 3
    then have pos: "0 < - q" by simp
    note fl = is_float_minus [OF assms(1)]
    note spec = repr_pos_spec [OF fl pos]
    have "lex_number (45 # repr_pos (- q) @ r) = Some (45 # repr_pos (- q), True, r)"
      using lex_number_minus [OF lex_repr_pos [OF fl pos assms(2)]] spec(2,3) by simp
    with 3 show ?thesis by simp
  qed
qed

section \<open>Values\<close>

fun json_wf :: "json \<Rightarrow> bool" where
  "json_wf (JFloat (Fin q)) = is_float q"
| "json_wf (JStr s) = str_wf s"
| "json_wf (JList xs) = list_all json_wf xs"
| "json_wf (JObj kvs) = (distinct (map fst kvs) \<and> list_all (\<lambda>(k, v). str_wf k \<and> json_wf v) kvs)"
| "json_wf _ = True"

fun json_depth :: "json \<Rightarrow> nat" where
  "json_depth (JList xs) = Suc (foldr (\<lambda>x n. max (json_depth x) n) xs 0)"
| "json_depth (JObj kvs) = Suc (foldr (\<lambda>(k, v) n. max (json_depth v) n) kvs 0)"
| "json_depth _ = 1"

lemma json_depth_list: "x \<in> set xs \<Longrightarrow> json_depth x \<le> foldr (\<lambda>x n. max (json_depth x) n) xs 0"
  by (induction xs) (auto simp: le_max_iff_disj)

lemma json_depth_obj: "(k, v) \<in> set kvs \<Longrightarrow> json_depth v \<le> foldr (\<lambda>(k, v) n. max (json_depth v) n) kvs 0"
  by (induction kvs) (auto simp: le_max_iff_disj)

text \<open>The first character of a value's text tells its kind, and is not white space.\<close>

definition number_start :: "ustr \<Rightarrow> bool" where
  "number_start s \<longleftrightarrow> s \<noteq> [] \<and> (digit (hd s) \<or> (hd s = 45 \<and> tl s \<noteq> [] \<and> digit (hd (tl s))))"

lemma number_start_append: "number_start s \<Longrightarrow> number_start (s @ r)"
  by (auto simp: number_start_def)

lemma parse_number:
  assumes "lex_number s = Some (tok, fl, r)" and "number_value tok fl = Inr v" and "number_start s"
  shows "parse_value (Suc d) s = Inr (v, r)"
proof -
  note assms(3) [unfolded number_start_def]
  then obtain c t where s: "s = c # t" by (cases s) auto
  have "\<not> starts ''null'' s" "\<not> starts ''true'' s" "\<not> starts ''false'' s" "\<not> starts ''NaN'' s"
    "\<not> starts ''Infinity'' s" "\<not> starts ''-Infinity'' s"
    using assms(3) by (cases t; auto simp: number_start_def starts_def s U_def digit_def)+
  moreover have "c \<noteq> 34 \<and> c \<noteq> 123 \<and> c \<noteq> 91" using assms(3) by (auto simp: number_start_def s digit_def)
  ultimately show ?thesis
    using assms(1,2) by (subst parse_value.simps(2)) (simp add: s)
qed

lemma dumps_start: "json_wf v \<Longrightarrow> \<exists>c t. dumps v = c # t \<and> \<not> json_ws c \<and> c \<noteq> 93 \<and> c \<noteq> 125 \<and> c < 128"
proof (cases v)
  case (JInt i)
  have "str_nat n \<noteq> [] \<and> digit (hd (str_nat n))" for n
    using str_nat_canonical [of n] by (auto simp: canonical_digits_def list_all_iff)
  then obtain c t where "str_int i = c # t" "digit c \<or> c = 45"
    by (cases "str_int i") (auto simp: str_int_def split: if_splits, (metis list.sel(1))+)
  with JInt show ?thesis by (auto simp: json_ws_def digit_def)
next
  case (JFloat f)
  assume wf: "json_wf v"
  show ?thesis
  proof (cases f)
    case (Fin q)
    then have fl: "is_float q" using wf JFloat by simp
    have "\<exists>c t. float_repr (Fin q) = c # t \<and> (digit c \<or> c = 45)"
    proof (cases "0 < q")
      case True
      from repr_pos_spec(2,3) [OF fl True] True show ?thesis by (cases "repr_pos q") auto
    qed (simp add: U_def digit_def)
    with Fin JFloat show ?thesis by (auto simp: json_ws_def digit_def)
  qed (simp_all add: JFloat U_def json_ws_def)
qed (auto simp: dump_str_def U_def json_ws_def)

lemma skip_ws_dumps: "json_wf v \<Longrightarrow> skip_ws (dumps v @ r) = dumps v @ r"
  using dumps_start [of v] by (auto simp: skip_ws_def)

lemma skip_ws_id [simp]: "\<not> json_ws c \<Longrightarrow> skip_ws (c # r) = c # r"
  by (simp add: skip_ws_def)

definition reads_back :: "nat \<Rightarrow> json \<Rightarrow> bool" where
  "reads_back d v \<longleftrightarrow> (\<forall>r. delim r \<longrightarrow> parse_value d (dumps v @ r) = Inr (v, r))"

lemma ws_punct [simp]: "\<not> json_ws 93" "\<not> json_ws 125" "\<not> json_ws 44" "\<not> json_ws 58" "\<not> json_ws 34"
  by (simp_all add: json_ws_def)

lemma parse_items_dumps:
  assumes "list_all json_wf (x # xs)" and "\<forall>y \<in> set (x # xs). reads_back d y" and "length xs < n"
  shows "parse_items (parse_value d) n (join_comma (map dumps (x # xs)) @ 93 # r) = Inr (x # xs, r)"
  using assms
proof (induction xs arbitrary: x n)
  case Nil
  then obtain n' where "n = Suc n'" by (cases n) auto
  with Nil show ?case by (simp add: reads_back_def delim_def)
next
  case (Cons y ys)
  then obtain n' where n: "n = Suc n'" "length ys < n'" by (cases n) auto
  have "parse_value d (dumps x @ 44 # join_comma (map dumps (y # ys)) @ 93 # r)
      = Inr (x, 44 # join_comma (map dumps (y # ys)) @ 93 # r)"
    using Cons.prems(2) by (simp add: reads_back_def delim_def)
  moreover have "skip_ws (join_comma (map dumps (y # ys)) @ 93 # r) = join_comma (map dumps (y # ys)) @ 93 # r"
    using Cons.prems(1) skip_ws_dumps [of y] by (cases ys) auto
  ultimately show ?case using Cons.IH [of y n'] Cons.prems n by simp
qed

definition member_text :: "ustr \<times> json \<Rightarrow> ustr" where
  "member_text = (\<lambda>(k, v). dump_str k @ [58] @ dumps v)"

lemma parse_members_dumps:
  assumes "list_all (\<lambda>(k, v). str_wf k \<and> json_wf v) (m # ms)" and "\<forall>(k, v) \<in> set (m # ms). reads_back d v"
    and "length ms < n" and "distinct (map fst (acc @ m # ms))"
  shows "parse_members (parse_value d) n acc (join_comma (map member_text (m # ms)) @ 125 # r)
    = Inr (acc @ m # ms, r)"
  using assms
proof (induction ms arbitrary: m n acc)
  case Nil
  obtain k v where m: "m = (k, v)" by (cases m)
  from Nil obtain n' where "n = Suc n'" by (cases n) auto
  moreover have "od_set acc k v = acc @ [(k, v)]"
    using Nil.prems(4) by (intro od_set_new) (auto simp: m)
  ultimately show ?case using Nil
    by (simp add: m member_text_def dump_str_def parse_str_dump skip_ws_dumps reads_back_def delim_def)
next
  case (Cons m' ms)
  obtain k v where m: "m = (k, v)" by (cases m)
  from Cons obtain n' where n: "n = Suc n'" "length ms < n'" by (cases n) auto
  have set: "od_set acc k v = acc @ [(k, v)]"
    using Cons.prems(4) by (intro od_set_new) (auto simp: m)
  let ?rest = "join_comma (map member_text (m' # ms)) @ 125 # r"
  have "skip_ws ?rest = ?rest" by (cases ms) (auto simp: member_text_def dump_str_def split: prod.split)
  moreover have "parse_value d (dumps v @ 44 # ?rest) = Inr (v, 44 # ?rest)"
    using Cons.prems(2) by (simp add: m reads_back_def delim_def)
  moreover have "parse_members (parse_value d) n' (acc @ [(k, v)]) ?rest = Inr ((acc @ [(k, v)]) @ m' # ms, r)"
    using Cons.prems n(2) by (intro Cons.IH) (auto simp: m)
  ultimately show ?case using Cons.prems(1) n(1) set
    by (simp add: m member_text_def dump_str_def parse_str_dump skip_ws_dumps)
qed

lemma length_join_comma: "\<forall>x \<in> set xs. 0 < length x \<Longrightarrow> length xs \<le> length (join_comma xs)"
  by (induction xs rule: join_comma.induct) (auto simp: Suc_le_eq)

lemma reads_back_list:
  assumes "list_all json_wf xs" and "\<forall>x \<in> set xs. reads_back d x"
  shows "reads_back (Suc d) (JList xs)"
  unfolding reads_back_def
proof (intro allI impI)
  fix r
  show "parse_value (Suc d) (dumps (JList xs) @ r) = Inr (JList xs, r)"
  proof (cases xs)
    case Nil
    then show ?thesis by (subst parse_value.simps(2)) simp
  next
    case (Cons y ys)
    obtain c t where c: "dumps y = c # t" "\<not> json_ws c" "c \<noteq> 93"
      using dumps_start [of y] assms(1) Cons by auto
    obtain t' where t': "join_comma (map dumps xs) @ 93 # r = c # t'"
      using c(1) by (cases ys) (simp_all add: Cons)
    then have full: "dumps (JList xs) @ r = 91 # c # t'" by simp
    have "\<forall>x \<in> set (map dumps xs). 0 < length x"
      using assms(1) dumps_start by (fastforce simp: list_all_iff)
    from length_join_comma [OF this]
    have len: "length ys < length (91 # c # t')" unfolding full [symmetric] by (simp add: Cons)
    have "parse_items (parse_value d) (length (91 # c # t')) (c # t') = Inr (xs, r)"
      using parse_items_dumps [OF assms [unfolded Cons] len, of r] unfolding Cons [symmetric] t' .
    with c show ?thesis unfolding full by (subst parse_value.simps(2)) (simp del: parse_items.simps)
  qed
qed

lemma reads_back_obj:
  assumes "distinct (map fst kvs)" and "list_all (\<lambda>(k, v). str_wf k \<and> json_wf v) kvs"
    and "\<forall>(k, v) \<in> set kvs. reads_back d v"
  shows "reads_back (Suc d) (JObj kvs)"
  unfolding reads_back_def
proof (intro allI impI)
  fix r
  have dumps: "dumps (JObj kvs) = 123 # join_comma (map member_text kvs) @ [125]"
    by (simp add: member_text_def)
  show "parse_value (Suc d) (dumps (JObj kvs) @ r) = Inr (JObj kvs, r)"
  proof (cases kvs)
    case Nil
    then show ?thesis by (subst parse_value.simps(2)) simp
  next
    case (Cons m ms)
    obtain t' where t': "join_comma (map member_text kvs) @ 125 # r = 34 # t'"
      by (cases ms; cases m) (simp_all add: Cons member_text_def dump_str_def)
    then have full: "dumps (JObj kvs) @ r = 123 # 34 # t'" by (simp add: dumps del: dumps.simps)
    have "\<forall>x \<in> set (map member_text kvs). 0 < length x"
      by (auto simp: member_text_def dump_str_def)
    from length_join_comma [OF this]
    have len: "length ms < length (123 # 34 # t')"
      unfolding full [symmetric] dumps by (simp add: Cons)
    have "parse_members (parse_value d) (length (123 # 34 # t')) [] (34 # t') = Inr (kvs, r)"
      using parse_members_dumps [OF assms(2,3) [unfolded Cons] len, of "[]" r] assms(1)
      unfolding Cons [symmetric] t' by simp
    then show ?thesis unfolding full by (subst parse_value.simps(2)) (simp del: parse_members.simps)
  qed
qed

lemma parse_constants:
  "parse_value (Suc d) (U ''null'' @ r) = Inr (JNull, r)"
  "parse_value (Suc d) (U ''true'' @ r) = Inr (JBool True, r)"
  "parse_value (Suc d) (U ''false'' @ r) = Inr (JBool False, r)"
  "parse_value (Suc d) (U ''NaN'' @ r) = Inr (JFloat NaN, r)"
  "parse_value (Suc d) (U ''Infinity'' @ r) = Inr (JFloat PInf, r)"
  "parse_value (Suc d) (U ''-Infinity'' @ r) = Inr (JFloat NInf, r)"
  by (subst parse_value.simps(2), simp add: starts_def U_def)+

lemma reads_back_constants:
  "json_depth (JFloat PInf) \<le> d \<Longrightarrow> reads_back d (JFloat PInf)"
  "json_depth (JFloat NInf) \<le> d \<Longrightarrow> reads_back d (JFloat NInf)"
  "json_depth (JFloat NaN) \<le> d \<Longrightarrow> reads_back d (JFloat NaN)"
  by (cases d; simp add: reads_back_def parse_constants)+

lemma reads_back_float:
  assumes "is_float q"
  shows "reads_back (Suc d) (JFloat (Fin q))"
proof -
  have start: "number_start (float_repr (Fin q))"
  proof -
    consider "q = 0" | "0 < q" | "q < 0" by linarith
    then show ?thesis
    proof cases
      case 2
      from repr_pos_spec(2,3) [OF assms 2] 2 show ?thesis by (simp add: number_start_def)
    next
      case 3
      then have "0 < - q" by simp
      from repr_pos_spec(2,3) [OF is_float_minus [OF assms] this] 3 show ?thesis by (simp add: number_start_def)
    qed (simp add: number_start_def U_def digit_def)
  qed
  show ?thesis
    unfolding reads_back_def dumps.simps dump_float.simps
  proof (intro allI impI)
    fix r
    assume "delim r"
    from lex_float_repr [OF assms this]
    show "parse_value (Suc d) (float_repr (Fin q) @ r) = Inr (JFloat (Fin q), r)"
      by (rule parse_number [OF _ _ number_start_append [OF start]])
        (simp add: number_value_def float_of_repr [OF assms] del: float_repr.simps)
  qed
qed

lemma reads_back_int: "reads_back (Suc d) (JInt i)"
proof -
  have "str_nat n \<noteq> [] \<and> digit (hd (str_nat n))" for n
    using str_nat_canonical [of n] by (auto simp: canonical_digits_def list_all_iff)
  then have start: "number_start (str_int i)" by (auto simp: str_int_def number_start_def)
  show ?thesis
    unfolding reads_back_def dumps.simps
  proof (intro allI impI)
    fix r
    assume "delim r"
    from lex_number_int [OF this]
    show "parse_value (Suc d) (str_int i @ r) = Inr (JInt i, r)"
      by (rule parse_number [OF _ _ number_start_append [OF start]]) (simp add: number_value_def)
  qed
qed

lemma dumps_reads_back: "json_wf v \<Longrightarrow> json_depth v \<le> d \<Longrightarrow> reads_back d v"
proof (induction v arbitrary: d rule: json_wf.induct [case_names Flt Str Lst Obj Null Boolean Num])
  case (Flt q)
  then show ?case by (cases d) (simp_all add: reads_back_float)
next
  case (Str s)
  then obtain d' where "d = Suc d'" by (cases d) auto
  with Str show ?case by (simp add: reads_back_def parse_value.simps(2) dump_str_def parse_str_dump)
next
  case (Lst xs)
  then obtain d' where d: "d = Suc d'" by (cases d) auto
  then have "\<forall>x \<in> set xs. reads_back d' x"
    using Lst json_depth_list [of _ xs] by (fastforce simp: list_all_iff)
  with Lst d show ?case by (simp add: reads_back_list)
next
  case (Obj kvs)
  then obtain d' where d: "d = Suc d'" by (cases d) auto
  have "reads_back d' v" if "(k, v) \<in> set kvs" for k v
  proof -
    have "json_wf v" "json_depth v \<le> d'"
      using that Obj(2,3) d json_depth_obj [OF that] by (auto simp: list_all_iff)
    then show ?thesis using Obj(1) [OF that, of k v] by simp
  qed
  with Obj d show ?case by (auto intro!: reads_back_obj)
next
  case (Num i)
  then show ?case by (cases d) (simp_all add: reads_back_int)
next
  case Null
  then show ?case by (cases d) (simp_all add: reads_back_def parse_constants)
next
  case (Boolean b)
  then show ?case by (cases d) (simp_all add: reads_back_def parse_constants)
qed (simp_all only: reads_back_constants)

lemma loads_dumps:
  assumes "json_wf v" and "json_depth v \<le> d"
  shows "loads d (dumps v) = Inr v"
proof -
  obtain c t where c: "dumps v = c # t" "\<not> json_ws c" "c < 128" using dumps_start [OF assms(1)] by blast
  have "parse_value d (dumps v @ []) = Inr (v, [])"
    using dumps_reads_back [OF assms] unfolding reads_back_def by (blast intro: delim_def [THEN iffD2])
  then show ?thesis using c by (simp add: loads_def skip_ws_def)
qed

section \<open>ASCII output and decoding errors\<close>

text \<open>\<open>dumps\<close> escapes whatever is not ASCII, so that encoding its output never fails.\<close>

lemma ascii_simps [simp]:
  "ascii []" "ascii (c # s) \<longleftrightarrow> c < 128 \<and> ascii s" "ascii (s @ t) \<longleftrightarrow> ascii s \<and> ascii t"
  by (auto simp: ascii_def)

lemma str_wf_latin: "\<forall>c \<in> set s. c < 256 \<Longrightarrow> str_wf s"
  by (induction s rule: str_wf.induct) (auto simp: high_surrogate_def)

lemma str_wf_U [simp]: "str_wf (U s)"
  by (rule str_wf_latin) (auto simp: U_def nat_of_char_less_256)

lemma ascii_number: "list_all number_char s \<Longrightarrow> ascii s"
  by (auto simp: ascii_def list_all_iff number_char_def digit_def)

lemma ascii_escape_char: "ascii (escape_char c)"
proof -
  have "hex_digit m < 128" if "m < 16" for m using that by (auto simp: hex_digit_def)
  then have "ascii (hex4 n)" for n by (simp add: hex4_def)
  then show ?thesis by (simp add: escape_char_def u_escape_def)
qed

lemma ascii_dump_str: "ascii (dump_str s)"
proof -
  have "ascii (concat (map escape_char s))" by (induction s) (simp_all add: ascii_escape_char)
  then show ?thesis by (simp add: dump_str_def)
qed

lemma ascii_str_nat: "ascii (str_nat n)"
  by (intro ascii_number list_all_number_digits) (simp add: list_all_iff str_nat_digits)

lemma ascii_str_int: "ascii (str_int i)"
  by (simp add: str_int_def ascii_str_nat)

lemma ascii_join_comma: "\<forall>x \<in> set xs. ascii x \<Longrightarrow> ascii (join_comma xs)"
  by (induction xs rule: join_comma.induct) auto

lemma ascii_dumps: "json_wf v \<Longrightarrow> ascii (dumps v)"
proof (induction v rule: json_wf.induct [case_names Flt Str Lst Obj Null Boolean Num])
  case (Flt q)
  consider "q = 0" | "0 < q" | "q < 0" by linarith
  then show ?case
  proof cases
    case 1
    then show ?thesis by (simp add: U_def)
  next
    case 2
    with Flt show ?thesis using repr_pos_spec(1) [of q] by (simp add: ascii_number)
  next
    case 3
    then have "0 < - q" by simp
    with Flt 3 show ?thesis using repr_pos_spec(1) [OF is_float_minus, of q] by (simp add: ascii_number)
  qed
next
  case (Lst xs)
  then show ?case by (auto simp: list_all_iff intro!: ascii_join_comma)
next
  case (Obj kvs)
  then have "ascii (dumps v)" if "(k, v) \<in> set kvs" for k v using that by (auto simp: list_all_iff)
  then show ?case by (auto simp: ascii_dump_str intro!: ascii_join_comma)
qed (simp_all add: ascii_dump_str ascii_str_int U_def)

lemma parse_str_Inl: "parse_str s = Inl e \<Longrightarrow> e = JSONDecodeError"
proof (induction s rule: parse_str.induct)
  case (1 s)
  from 1(3) show ?case
    by (subst (asm) parse_str.simps) (auto split: list.splits if_splits option.splits sum.splits dest: 1(1,2))
qed

definition json_error :: "exn \<Rightarrow> bool" where
  "json_error e \<longleftrightarrow> is_ValueError e \<or> e = RecursionError"

lemma parse_items_Inl:
  "(\<And>s e. p s = Inl e \<Longrightarrow> json_error e) \<Longrightarrow> parse_items p n s = Inl e \<Longrightarrow> json_error e"
  by (induction p n s rule: parse_items.induct)
    (auto simp: json_error_def split: sum.splits prod.splits list.splits if_splits)

lemma parse_members_Inl:
  "(\<And>s e. p s = Inl e \<Longrightarrow> json_error e) \<Longrightarrow> parse_members p n d s = Inl e \<Longrightarrow> json_error e"
  by (induction p n d s rule: parse_members.induct)
    (auto simp: json_error_def split: sum.splits prod.splits list.splits if_splits dest!: parse_str_Inl)

lemma number_value_Inl: "number_value t f = Inl e \<Longrightarrow> json_error e"
  by (auto simp: number_value_def json_error_def float_of_str_def int_of_str_def Let_def
      split: if_splits sum.splits prod.splits option.splits list.splits)

lemma parse_value_Inl: "parse_value d s = Inl e \<Longrightarrow> json_error e"
proof (induction d arbitrary: s e)
  case (Suc d)
  have items: "parse_items (parse_value d) n t = Inl x \<Longrightarrow> json_error x" for n t x
    using parse_items_Inl [of "parse_value d" n t x] Suc.IH by blast
  have members: "parse_members (parse_value d) n k t = Inl x \<Longrightarrow> json_error x" for n k t x
    using parse_members_Inl [of "parse_value d" n k t x] Suc.IH by blast
  from Suc.prems show ?case
    by (subst (asm) parse_value.simps(2))
      (auto simp: json_error_def split: list.splits if_splits sum.splits prod.splits option.splits
        dest!: parse_str_Inl dest: items [unfolded json_error_def] members [unfolded json_error_def]
          number_value_Inl [unfolded json_error_def]
        simp del: parse_items.simps parse_members.simps)
qed (simp add: json_error_def)

lemma loads_Inl: "loads d s = Inl e \<Longrightarrow> json_error e"
  by (auto simp: loads_def split: if_splits sum.splits prod.splits dest: parse_value_Inl)
    (simp_all add: json_error_def)

text \<open>Dictionaries and lists of well-formed values are a codec, for every recursion limit.\<close>

interpretation json: codec "\<lambda>v. json_wf v \<and> json_depth v \<le> d" "\<lambda>v. Inr (dumps v) :: exn + ustr" "loads d" for d
  by unfold_locales (simp add: loads_dumps)

end
