(* ===== verification/InferenceEngine.thy ===== *)
theory InferenceEngine
  imports KmsClient JsonText
begin

text \<open>
  \<open>enclave/inference_engine.py\<close>: \<open>InferenceEngine\<close>, which opens encrypted model bundles and
  keeps the models in an LRU map. AES-GCM, \<open>joblib\<close> and the models themselves are a record
  of functions; the KMS client is the function the engine finds on it by name. As in the key
  cache, the sections under the engine's lock are the steps of a relation, because the enclave
  server calls one engine from several threads.
\<close>

section \<open>State and collaborators\<close>

record ('m, 'p) model_lib =
  ml_aesgcm :: "bytes \<Rightarrow> bytes \<Rightarrow> bytes \<Rightarrow> bytes \<Rightarrow> bytes res"
  ml_load :: "bytes \<Rightarrow> 'm res"
  ml_n_features :: "'m \<Rightarrow> int res option"
  ml_predict :: "'m \<Rightarrow> pyfloat list \<Rightarrow> 'p res"
  ml_first :: "'p \<Rightarrow> pyfloat res"
  ml_proba :: "'m \<Rightarrow> (pyfloat list \<Rightarrow> pyfloat list res) option"

text \<open>
  \<open>ml_aesgcm key nonce ciphertext aad\<close> is \<open>AESGCM(key).decrypt(nonce, ciphertext, aad)\<close>;
  \<open>ml_n_features\<close> and \<open>ml_proba\<close> are \<open>None\<close> when the model lacks the attribute; \<open>ml_first\<close> is
  \<open>float(np.asarray(raw).reshape(-1)[0])\<close> and \<open>ml_proba\<close> the row \<open>probabilities[0]\<close>.
\<close>

datatype 'w kms_methods =
    DecryptDataKey "bytes \<Rightarrow> ustr \<Rightarrow> 'w \<Rightarrow> bytes res \<times> 'w"
  | DecryptCiphertext "bytes \<Rightarrow> 'w \<Rightarrow> bytes res \<times> 'w"
  | NoDecryptMethod

record 'm loaded_model =
  lm_name :: ustr
  lm_model :: 'm
  lm_feature_dimension :: int

record 'm engine =
  en_max_models :: int
  en_models :: "(ustr, 'm loaded_model) odict"

definition engine_init :: "ustr option \<Rightarrow> int option \<Rightarrow> 'm engine res" where
  \<comment> \<open>the first argument is the environment variable; a limit of 0 counts as none given\<close>
  "engine_init env max_models_in_memory =
     (case (case max_models_in_memory of
              Some n \<Rightarrow> if n \<noteq> 0 then Inr n else int_of_str (case env of Some s \<Rightarrow> s | None \<Rightarrow> U ''8'')
            | None \<Rightarrow> int_of_str (case env of Some s \<Rightarrow> s | None \<Rightarrow> U ''8'')) of
        Inl e \<Rightarrow> Inl e
      | Inr n \<Rightarrow>
        if n \<le> 0 then Inl (ValueError (U ''max_models_in_memory must be greater than 0.''))
        else Inr \<lparr>en_max_models = n, en_models = []\<rparr>)"

section \<open>Parsing\<close>

definition json_object :: "nat \<Rightarrow> exn \<Rightarrow> exn \<Rightarrow> bytes \<Rightarrow> (ustr, json) odict res" where
  \<comment> \<open>decode UTF-8 and JSON, and require an object; the other exceptions of the decoders escape\<close>
  "json_object depth not_json not_object b =
     (case bindR (utf8_decode b) (loads depth) of
        Inl e \<Rightarrow> Inl (if e = UnicodeDecodeError \<or> e = JSONDecodeError then not_json else e)
      | Inr v \<Rightarrow> (case v of JObj d \<Rightarrow> Inr d | _ \<Rightarrow> Inl not_object))"

definition str_field :: "(ustr, json) odict \<Rightarrow> string \<Rightarrow> ustr option" where
  \<comment> \<open>the field, if it is a string\<close>
  "str_field d name = (case od_get d (U name) of Some (JStr s) \<Rightarrow> Some s | _ \<Rightarrow> None)"

fun join_with :: "ustr \<Rightarrow> ustr list \<Rightarrow> ustr" where
  "join_with sep [] = []"
| "join_with sep [x] = x"
| "join_with sep (x # xs) = x @ sep @ join_with sep xs"

definition required_fields :: "string list" where
  \<comment> \<open>in the order of \<open>sorted\<close>\<close>
  "required_fields = [''encrypted_model_blob'', ''encrypted_model_key'', ''model_name'', ''tenant_id'']"

definition parse_load_request :: "nat \<Rightarrow> bytes \<Rightarrow> (ustr, json) odict res" where
  "parse_load_request depth encrypted_weights =
     (case json_object depth (ModelLoadError (U ''The model bundle is not valid UTF-8 JSON.''))
         (ModelLoadError (U ''The model bundle must be a JSON object.'')) encrypted_weights of
        Inl e \<Rightarrow> Inl e
      | Inr payload \<Rightarrow>
        (let missing = filter (\<lambda>f. str_field payload f = None) required_fields
         in if missing \<noteq> [] then
              Inl (ModelLoadError (U ''The model bundle is missing required fields: ''
                @ join_with (U '', '') (map U missing) @ U ''.''))
            else Inr payload))"

definition parse_model_payload :: "nat \<Rightarrow> bytes \<Rightarrow> (ustr, json) odict res" where
  "parse_model_payload depth encrypted_blob_json =
     (case json_object depth (ModelLoadError (U ''The encrypted model artifact is not valid UTF-8 JSON.''))
         (ModelLoadError (U ''The encrypted model artifact must be a JSON object.'')) encrypted_blob_json of
        Inl e \<Rightarrow> Inl e
      | Inr payload \<Rightarrow>
        if od_get payload (U ''algorithm'') \<noteq> Some (JStr (U ''AESGCM''))
        then Inl (ModelLoadError (U ''Only AESGCM-encrypted model artifacts are supported.''))
        else if str_field payload ''nonce_b64'' = None \<or> str_field payload ''ciphertext_b64'' = None
        then Inl (ModelLoadError (U ''The encrypted model artifact is missing ciphertext fields.''))
        else Inr payload)"

definition json_truthy :: "json \<Rightarrow> bool" where
  "json_truthy v =
     (case v of
        JNull \<Rightarrow> False | JBool b \<Rightarrow> b | JInt i \<Rightarrow> i \<noteq> 0 | JFloat f \<Rightarrow> f \<noteq> Fin 0 | JStr s \<Rightarrow> s \<noteq> []
      | JList xs \<Rightarrow> xs \<noteq> [] | JObj d \<Rightarrow> d \<noteq> [])"

definition default_aad :: "ustr \<Rightarrow> ustr \<Rightarrow> bytes res" where
  "default_aad tenant_id model_name = utf8_encode (tenant_id @ [58] @ model_name)"

definition build_aad :: "ustr \<Rightarrow> ustr \<Rightarrow> json option \<Rightarrow> bytes res" where
  \<comment> \<open>a value that is no string is nothing \<open>b64decode\<close> can read\<close>
  "build_aad tenant_id model_name aad_b64 =
     (case aad_b64 of
        None \<Rightarrow> default_aad tenant_id model_name
      | Some v \<Rightarrow>
        if json_truthy v then (case v of JStr s \<Rightarrow> b64decode s | _ \<Rightarrow> Inl TypeError)
        else default_aad tenant_id model_name)"

definition extract_feature_dimension :: "('m, 'p) model_lib \<Rightarrow> 'm \<Rightarrow> (ustr, json) odict \<Rightarrow> int res" where
  \<comment> \<open>\<open>True\<close> is an \<open>int\<close>\<close>
  "extract_feature_dimension lib model payload =
     (case ml_n_features lib model of
        Some (Inl e) \<Rightarrow> Inl e
      | Some (Inr n) \<Rightarrow>
        if n \<le> 0 then Inl (ModelLoadError (U ''The model reported an invalid feature dimension.'')) else Inr n
      | None \<Rightarrow>
        (case od_get payload (U ''feature_dimension'') of
           Some (JInt n) \<Rightarrow>
             if n > 0 then Inr n
             else Inl (ModelLoadError (U ''Unable to determine the model feature dimension from metadata or the model object.''))
         | Some (JBool True) \<Rightarrow> Inr 1
         | _ \<Rightarrow> Inl (ModelLoadError (U ''Unable to determine the model feature dimension from metadata or the model object.''))))"

section \<open>Loading\<close>

definition engine_decrypt_key :: "'w kms_methods \<Rightarrow> bytes \<Rightarrow> ustr \<Rightarrow> 'w \<Rightarrow> bytes res \<times> 'w" where
  "engine_decrypt_key kms encrypted_key tenant_id w =
     (case kms of
        DecryptDataKey f \<Rightarrow> f encrypted_key tenant_id w
      | DecryptCiphertext f \<Rightarrow> f encrypted_key w
      | NoDecryptMethod \<Rightarrow>
        (Inl (ModelLoadError (U ''The configured enclave KMS client does not support data-key decrypts.'')), w))"

definition bundle_inputs :: "nat \<Rightarrow> ustr \<Rightarrow> bytes \<Rightarrow> (bytes \<times> bytes \<times> ustr) res" where
  \<comment> \<open>the wrapped key, the artifact and the tenant of a bundle for this model\<close>
  "bundle_inputs depth name encrypted_weights =
     bindR (parse_load_request depth encrypted_weights) (\<lambda>bundle.
     if str_field bundle ''model_name'' \<noteq> Some name
     then Inl (ModelLoadError (U ''The model bundle name does not match the requested model name.''))
     else
       bindR (b64decode (the (str_field bundle ''encrypted_model_key''))) (\<lambda>key.
       bindR (b64decode (the (str_field bundle ''encrypted_model_blob''))) (\<lambda>blob.
         Inr (key, blob, the (str_field bundle ''tenant_id'')))))"

definition open_model :: "('m, 'p) model_lib \<Rightarrow> nat \<Rightarrow> ustr \<Rightarrow> ustr \<Rightarrow> bytes \<Rightarrow> bytes \<Rightarrow> 'm loaded_model res" where
  \<comment> \<open>decrypt and deserialize an artifact with its plaintext key\<close>
  "open_model lib depth name tenant_id blob data_key =
     bindR (parse_model_payload depth blob) (\<lambda>payload.
     bindR (b64decode (the (str_field payload ''nonce_b64''))) (\<lambda>nonce.
     bindR (b64decode (the (str_field payload ''ciphertext_b64''))) (\<lambda>ciphertext.
     bindR (build_aad tenant_id name (od_get payload (U ''aad_b64''))) (\<lambda>aad.
     case ml_aesgcm lib data_key nonce ciphertext aad of
       Inl e \<Rightarrow> Inl (if e = InvalidTag \<or> is_ValueError e
                   then ModelLoadError (U ''Failed to decrypt the model artifact.'') else e)
     | Inr plaintext_model \<Rightarrow>
       (case ml_load lib plaintext_model of
          Inl _ \<Rightarrow> Inl (ModelLoadError (U ''Failed to deserialize the model artifact.''))
        | Inr model \<Rightarrow>
          bindR (extract_feature_dimension lib model payload) (\<lambda>n.
            Inr \<lparr>lm_name = name, lm_model = model, lm_feature_dimension = n\<rparr>))))))"

definition with_models :: "'m engine \<Rightarrow> (ustr, 'm loaded_model) odict \<Rightarrow> 'm engine" where
  "with_models en models = en\<lparr>en_models := models\<rparr>"

definition store_model :: "ustr \<Rightarrow> 'm loaded_model \<Rightarrow> 'm engine \<Rightarrow> 'm engine" where
  "store_model name m en = with_models en (od_store (en_max_models en) (en_models en) name m)"

definition touch_model :: "ustr \<Rightarrow> 'm engine \<Rightarrow> 'm engine" where
  "touch_model name en = with_models en (od_move_to_end (en_models en) name)"

definition load_model :: "('m, 'p) model_lib \<Rightarrow> 'w kms_methods \<Rightarrow> nat \<Rightarrow> ustr \<Rightarrow> bytes \<Rightarrow> 'm engine \<Rightarrow> 'w
    \<Rightarrow> unit res \<times> 'm engine \<times> 'w" where
  "load_model lib kms depth model_name encrypted_weights en w =
     (let name = strip model_name
      in if name = [] then (Inl (ModelLoadError (U ''model_name must not be empty.'')), en, w)
         else if encrypted_weights = []
         then (Inl (ModelLoadError (U ''encrypted_weights must not be empty.'')), en, w)
         else if od_get (en_models en) name \<noteq> None then (Inr (), touch_model name en, w)
         else case bundle_inputs depth name encrypted_weights of
           Inl e \<Rightarrow> (Inl e, en, w)
         | Inr (key, blob, tenant_id) \<Rightarrow>
           (case engine_decrypt_key kms key tenant_id w of
              (Inl _, w') \<Rightarrow> (Inl (ModelLoadError (U ''Failed to decrypt the model data key.'')), en, w')
            | (Inr data_key, w') \<Rightarrow>
              (case open_model lib depth name tenant_id blob data_key of
                 Inl e \<Rightarrow> (Inl e, en, w')
               | Inr m \<Rightarrow> (Inr (), store_model name m en, w'))))"

section \<open>Serving\<close>

record prediction =
  pr_prediction :: pyfloat
  pr_confidence :: pyfloat
  pr_latency_ms :: pyfloat
  pr_served_from_cache :: bool

definition is_model_loaded :: "ustr \<Rightarrow> 'm engine \<Rightarrow> bool" where
  "is_model_loaded model_name en = (od_get (en_models en) model_name \<noteq> None)"

definition list_loaded_models :: "'m engine \<Rightarrow> ustr list" where
  "list_loaded_models en = map fst (en_models en)"

definition unload_model :: "ustr \<Rightarrow> 'm engine \<Rightarrow> 'm engine" where
  "unload_model model_name en = with_models en (od_pop (en_models en) (strip model_name))"

definition validate_features :: "pyfloat list \<Rightarrow> int \<Rightarrow> pyfloat list res" where
  "validate_features features expected_dimension =
     (if features = [] then Inl (FeatureDimensionMismatchError (U ''A non-empty feature vector is required.''))
      else if int (length features) \<noteq> expected_dimension
      then Inl (FeatureDimensionMismatchError (U ''Feature dimension mismatch: expected ''
        @ str_int expected_dimension @ U '', received '' @ str_nat (length features) @ U ''.''))
      else Inr features)"

definition compute_confidence :: "('m, 'p) model_lib \<Rightarrow> 'm \<Rightarrow> pyfloat list \<Rightarrow> pyfloat res" where
  "compute_confidence lib model features =
     (case ml_proba lib model of None \<Rightarrow> Inr (Fin 1)
      | Some proba \<Rightarrow> bindR (proba features) np_max)"

definition run_model :: "('m, 'p) model_lib \<Rightarrow> ('w \<Rightarrow> pyfloat \<times> 'w) \<Rightarrow> 'm loaded_model \<Rightarrow> pyfloat list \<Rightarrow> 'w
    \<Rightarrow> prediction res \<times> 'w" where
  "run_model lib perf_counter m features w =
     (case perf_counter w of (started, w1) \<Rightarrow>
      case ml_predict lib (lm_model m) features of
        Inl _ \<Rightarrow> (Inl (InferenceEngineError (U ''Model prediction failed.'')), w1)
      | Inr raw \<Rightarrow>
        (case perf_counter w1 of (stopped, w2) \<Rightarrow>
           (bindR (ml_first lib raw) (\<lambda>prediction.
            bindR (compute_confidence lib (lm_model m) features) (\<lambda>confidence.
              Inr \<lparr>pr_prediction = prediction, pr_confidence = confidence,
                   pr_latency_ms = fmul (fsub stopped started) (Fin 1000), pr_served_from_cache = True\<rparr>)), w2)))"

definition engine_predict :: "('m, 'p) model_lib \<Rightarrow> ('w \<Rightarrow> pyfloat \<times> 'w) \<Rightarrow> ustr \<Rightarrow> pyfloat list \<Rightarrow> 'm engine \<Rightarrow> 'w
    \<Rightarrow> prediction res \<times> 'm engine \<times> 'w" where
  "engine_predict lib perf_counter model_name features en w =
     (let name = strip model_name
      in if name = [] then (Inl (ModelNotLoadedError (U ''model_name must not be empty.'')), en, w)
         else case od_get (en_models en) name of
           None \<Rightarrow> (Inl (ModelNotLoadedError (U ''Model '' @ [39] @ name @ [39] @ U '' is not loaded in enclave memory.'')), en, w)
         | Some m \<Rightarrow>
           (case validate_features features (lm_feature_dimension m) of
              Inl e \<Rightarrow> (Inl e, touch_model name en, w)
            | Inr validated \<Rightarrow>
              (case run_model lib perf_counter m validated w of
                 (r, w') \<Rightarrow> (r, touch_model name en, w'))))"

section \<open>The model cache as a state machine\<close>

text \<open>
  The sections under the lock: a lookup that moves a found model to the end (by a prediction or
  by a load that finds the model cached), the store that ends a load, an unload. A load that
  another thread's steps interrupt is still a sequence of these.
\<close>

datatype 'm engine_event = Found ustr "'m loaded_model option" | Loaded ustr "'m loaded_model" | Unloaded ustr

inductive engine_step :: "('m, 'p) model_lib \<Rightarrow> nat \<Rightarrow> 'm engine \<Rightarrow> 'm engine_event \<Rightarrow> 'm engine \<Rightarrow> bool"
  for lib depth where
  found: "engine_step lib depth en (Found name (od_get (en_models en) name)) (touch_model name en)"
| loaded: "open_model lib depth name tenant_id blob data_key = Inr m \<Longrightarrow>
    engine_step lib depth en (Loaded name m) (store_model name m en)"
| unloaded: "engine_step lib depth en (Unloaded (strip name)) (unload_model name en)"

inductive engine_run :: "('m, 'p) model_lib \<Rightarrow> nat \<Rightarrow> 'm engine \<Rightarrow> 'm engine_event list \<Rightarrow> 'm engine \<Rightarrow> bool"
  for lib depth where
  start: "engine_run lib depth en [] en"
| step: "engine_run lib depth en evs en' \<Longrightarrow> engine_step lib depth en' ev en'' \<Longrightarrow>
    engine_run lib depth en (evs @ [ev]) en''"

fun model_effect :: "ustr \<Rightarrow> 'm loaded_model option \<Rightarrow> 'm engine_event \<Rightarrow> 'm loaded_model option" where
  "model_effect name s (Loaded n m) = (if n = name then Some m else s)"
| "model_effect name s (Unloaded n) = (if n = name then None else s)"
| "model_effect name s (Found n r) = s"

definition last_loaded :: "ustr \<Rightarrow> 'm engine_event list \<Rightarrow> 'm loaded_model option" where
  \<comment> \<open>the model of the last load under a name, unless it was unloaded since\<close>
  "last_loaded name evs = foldl (model_effect name) None evs"

definition engine_inv :: "'m engine \<Rightarrow> bool" where
  "engine_inv en \<longleftrightarrow> 0 < en_max_models en \<and> od_wf (en_models en)
     \<and> int (length (en_models en)) \<le> en_max_models en
     \<and> (\<forall>n m. od_get (en_models en) n = Some m \<longrightarrow> lm_name m = n \<and> 0 < lm_feature_dimension m)"

definition holds_last :: "'m engine \<Rightarrow> 'm engine_event list \<Rightarrow> bool" where
  "holds_last en evs \<longleftrightarrow> (\<forall>n m. od_get (en_models en) n = Some m \<longrightarrow> last_loaded n evs = Some m)"

lemma with_models_sel [simp]:
  "en_models (with_models en ms) = ms" "en_max_models (with_models en ms) = en_max_models en"
  by (simp_all add: with_models_def)

lemma engine_ops_sel [simp]:
  "en_models (touch_model n en) = od_move_to_end (en_models en) n"
  "en_models (store_model n m en) = od_store (en_max_models en) (en_models en) n m"
  "en_models (unload_model n en) = od_pop (en_models en) (strip n)"
  "en_max_models (touch_model n en) = en_max_models en"
  "en_max_models (store_model n m en) = en_max_models en"
  "en_max_models (unload_model n en) = en_max_models en"
  by (simp_all add: touch_model_def store_model_def unload_model_def)

interpretation model_cache: bounded_store od_wf od_get "od_store (int (Suc n))" length "Suc n" for n
proof
  fix s :: "('k, 'v) odict" and k k' :: 'k and v :: 'v
  assume wf: "od_wf s"
  then show "od_wf (od_store (int (Suc n)) s k v)" by blast
  show "od_get (od_store (int (Suc n)) s k v) k = Some v" by (rule od_get_store_same [OF wf]) simp
  show "od_get (od_store (int (Suc n)) s k v) k' \<in> {None, od_get s k'}" if "k' \<noteq> k"
    by (rule od_get_store_other [OF wf that])
  show "length (od_store (int (Suc n)) s k v) \<le> Suc n"
    using od_store_length [of "int (Suc n)" s k v] by simp
qed

lemma capacity: "engine_inv en \<Longrightarrow> \<exists>n. en_max_models en = int (Suc n)"
  by (auto simp: engine_inv_def) (metis Suc_pred' of_nat_Suc zero_less_imp_eq_int)

lemma extract_feature_dimension_pos: "extract_feature_dimension lib m d = Inr n \<Longrightarrow> 0 < n"
  by (auto simp: extract_feature_dimension_def split: option.splits sum.splits json.splits if_splits bool.splits)

lemma open_model_Inr:
  assumes "open_model lib depth name tenant_id blob data_key = Inr m"
  shows "lm_name m = name" and "0 < lm_feature_dimension m"
  using assms
  by (auto simp: open_model_def res_simps extract_feature_dimension_pos)

lemma engine_step_inv: "engine_step lib depth en ev en' \<Longrightarrow> engine_inv en \<Longrightarrow> engine_inv en'"
proof (induction rule: engine_step.induct)
  case (found en name)
  then show ?case
    using od_move_length [of "en_models en" name] by (auto simp: engine_inv_def od_get_move od_wf_move)
next
  case (loaded name tenant_id blob data_key m en)
  from capacity [OF loaded(2)] obtain c where c: "en_max_models en = int (Suc c)" by blast
  have wf: "od_wf (en_models en)" using loaded(2) by (simp add: engine_inv_def)
  have "lm_name m' = n \<and> 0 < lm_feature_dimension m'"
    if "od_get (od_store (int (Suc c)) (en_models en) name m) n = Some m'" for n m'
    using that loaded(2) open_model_Inr [OF loaded(1)] model_cache.get_put_same [OF wf, of c name m]
      model_cache.get_put_other [OF wf, of n name c m] by (cases "n = name") (auto simp: engine_inv_def simp del: of_nat_Suc)
  then show ?case
    using loaded(2) c model_cache.inv_put [OF wf, of c name m] model_cache.size_put [OF wf, of c name m]
    by (simp add: engine_inv_def del: of_nat_Suc)
next
  case (unloaded en name)
  have "length (od_pop (en_models en) k) \<le> length (en_models en)" for k
    by (simp add: od_pop_def AList.delete_eq)
  with unloaded show ?case
    by (auto simp: engine_inv_def od_get_pop od_wf_pop intro: order_trans [OF of_nat_mono] split: if_splits)
qed

lemma last_loaded_snoc: "last_loaded n (evs @ [ev]) = model_effect n (last_loaded n evs) ev"
  by (simp add: last_loaded_def)

lemma engine_step_holds:
  "engine_step lib depth en ev en' \<Longrightarrow> engine_inv en \<Longrightarrow> holds_last en evs \<Longrightarrow> holds_last en' (evs @ [ev])"
proof (induction rule: engine_step.induct)
  case (found en name)
  then show ?case by (simp add: holds_last_def last_loaded_snoc od_get_move)
next
  case (loaded name tenant_id blob data_key m en)
  from capacity [OF loaded(2)] obtain c where c: "en_max_models en = int (Suc c)" by blast
  have wf: "od_wf (en_models en)" using loaded(2) by (simp add: engine_inv_def)
  show ?case
    unfolding holds_last_def
  proof (intro allI impI)
    fix n m'
    assume "od_get (en_models (store_model name m en)) n = Some m'"
    then show "last_loaded n (evs @ [Loaded name m]) = Some m'"
      using loaded(3) c model_cache.get_put_same [OF wf, of c name m] model_cache.get_put_other [OF wf, of n name c m]
      by (cases "n = name") (auto simp: holds_last_def last_loaded_snoc simp del: of_nat_Suc dest: sym [of "Some m'"])
  qed
next
  case (unloaded en name)
  then show ?case by (auto simp: holds_last_def last_loaded_snoc od_get_pop split: if_splits)
qed

lemma engine_run_inv: "engine_run lib depth en evs en' \<Longrightarrow> engine_inv en \<Longrightarrow> engine_inv en'"
  by (induction rule: engine_run.induct) (auto intro: engine_step_inv)

lemma engine_run_holds:
  "engine_run lib depth en evs en' \<Longrightarrow> engine_inv en \<Longrightarrow> en_models en = [] \<Longrightarrow> holds_last en' evs"
proof (induction rule: engine_run.induct)
  case (start en)
  then show ?case by (simp add: holds_last_def)
next
  case (step en evs en' ev en'')
  then show ?case by (auto intro: engine_step_holds engine_run_inv)
qed

section \<open>Least recently used\<close>

text \<open>A model in use stays while fewer than the limit of other models are used after it.\<close>

fun uses :: "'m engine_event \<Rightarrow> ustr set" where
  "uses (Found n r) = (if r = None then {} else {n})"
| "uses (Loaded n m) = {n}"
| "uses (Unloaded n) = {}"

definition used_in :: "'m engine_event list \<Rightarrow> ustr set" where
  "used_in evs = (\<Union>ev \<in> set evs. uses ev)"

lemma keys_pop: "map fst (od_pop d k) = filter (\<lambda>n. n \<noteq> k) (map fst d)"
  by (induction d) (auto simp: od_pop_def)

lemma keys_move:
  "map fst (od_move_to_end d k) = (if od_get d k = None then map fst d else filter (\<lambda>n. n \<noteq> k) (map fst d) @ [k])"
  using keys_pop [of d k] by (auto simp: od_move_to_end_def od_get_def od_pop_def split: option.splits)

lemma keys_store:
  assumes "od_wf d" and "0 < c"
  shows "map fst (od_store c d k v)
    = drop (length (od_pop d k) - nat (c - 1)) (filter (\<lambda>n. n \<noteq> k) (map fst d)) @ [k]"
  using assms by (simp add: od_store_eq od_trim_drop drop_map keys_pop [symmetric])

lemma kept_touch:
  assumes keys: "map fst d = p @ k # s"
  shows "\<exists>p' s'. map fst (od_move_to_end d name) = p' @ k # s' \<and> set s' \<subseteq> set s \<union> {n. n = name \<and> od_get d name \<noteq> None}"
proof -
  consider "od_get d name = None" | "od_get d name \<noteq> None" "name = k" | "od_get d name \<noteq> None" "name \<noteq> k" by blast
  then show ?thesis
  proof cases
    case 1
    with keys show ?thesis by (auto simp: keys_move)
  next
    case 2
    then show ?thesis using keys_move [of d name]
      by (intro exI [of _ "filter (\<lambda>n. n \<noteq> k) (map fst d)"] exI [of _ "[]"]) auto
  next
    case 3
    with keys show ?thesis
      by (intro exI [of _ "filter (\<lambda>n. n \<noteq> name) p"] exI [of _ "filter (\<lambda>n. n \<noteq> name) s @ [name]"]) (auto simp: keys_move)
  qed
qed

lemma kept_store:
  assumes wf: "od_wf d" and pos: "0 < c" and keys: "map fst d = p @ k # s"
    and few: "int (card ((set s \<union> {name}) - {k})) < c"
  shows "\<exists>p' s'. map fst (od_store c d name m) = p' @ k # s' \<and> set s' \<subseteq> set s \<union> {name}"
proof (cases "name = k")
  case True
  then show ?thesis using keys_store [OF wf pos, of name m]
    by (intro exI [of _ "drop (length (od_pop d name) - nat (c - 1)) (filter (\<lambda>n. n \<noteq> name) (map fst d))"] exI [of _ "[]"]) simp
next
  case False
  let ?p = "filter (\<lambda>n. n \<noteq> name) p" and ?s = "filter (\<lambda>n. n \<noteq> name) s"
  have dist: "distinct (p @ k # s)" using wf keys by (simp add: od_wf_def)
  then have "card (set (?s @ [name])) = length (?s @ [name])" by (intro distinct_card) auto
  moreover have "card (set (?s @ [name])) \<le> card ((set s \<union> {name}) - {k})"
    using dist False by (intro card_mono) auto
  ultimately have room: "int (length ?s) + 1 < c" using few by simp
  have "length (od_pop d name) = length ?p + 1 + length ?s"
    using False keys by (simp add: keys_pop flip: length_map [of fst])
  then have "length (od_pop d name) - nat (c - 1) \<le> length ?p" using room by linarith
  then have "map fst (od_store c d name m) = drop (length (od_pop d name) - nat (c - 1)) ?p @ k # (?s @ [name])"
    using False keys_store [OF wf pos, of name m] keys by simp
  then show ?thesis by fastforce
qed

lemma kept_step:
  assumes step: "engine_step lib depth en ev en'" and inv: "engine_inv en"
    and keys: "map fst (en_models en) = p @ k # s" and ev: "ev \<noteq> Unloaded k"
    and few: "int (card ((set s \<union> uses ev) - {k})) < en_max_models en"
  shows "\<exists>p' s'. map fst (en_models en') = p' @ k # s' \<and> set s' \<subseteq> set s \<union> uses ev"
  using step
proof cases
  case (found name)
  from kept_touch [OF keys, of name] obtain p' s' where "map fst (od_move_to_end (en_models en) name) = p' @ k # s'"
    "set s' \<subseteq> set s \<union> {n. n = name \<and> od_get (en_models en) name \<noteq> None}" by blast
  then show ?thesis using found by (intro exI [of _ p'] exI [of _ s']) auto
next
  case (loaded name tenant_id blob data_key m)
  have "od_wf (en_models en)" "0 < en_max_models en" using inv by (auto simp: engine_inv_def)
  from kept_store [OF this keys, of name m] few loaded show ?thesis by simp
next
  case (unloaded name)
  with keys ev show ?thesis
    by (intro exI [of _ "filter (\<lambda>n. n \<noteq> strip name) p"] exI [of _ "filter (\<lambda>n. n \<noteq> strip name) s"]) (auto simp: keys_pop)
qed

lemma engine_step_max: "engine_step lib depth en ev en' \<Longrightarrow> en_max_models en' = en_max_models en"
  by (auto elim: engine_step.cases)

lemma engine_run_max: "engine_run lib depth en evs en' \<Longrightarrow> en_max_models en' = en_max_models en"
  by (induction rule: engine_run.induct) (auto dest: engine_step_max)

lemma kept_run:
  "engine_run lib depth en evs en' \<Longrightarrow> engine_inv en \<Longrightarrow> map fst (en_models en) = p @ [k] \<Longrightarrow> Unloaded k \<notin> set evs
   \<Longrightarrow> int (card (used_in evs - {k})) < en_max_models en
   \<Longrightarrow> \<exists>p' s'. map fst (en_models en') = p' @ k # s' \<and> set s' \<subseteq> used_in evs"
proof (induction rule: engine_run.induct)
  case (start en)
  then show ?case by (auto simp: used_in_def)
next
  case (step en evs en' ev en'')
  have more: "used_in (evs @ [ev]) = used_in evs \<union> uses ev" by (auto simp: used_in_def)
  have fin: "finite (used_in (evs @ [ev]))"
  proof -
    have "finite (uses e)" for e :: "'a engine_event" by (cases e) auto
    then show ?thesis by (simp add: used_in_def)
  qed
  have "card (used_in evs - {k}) \<le> card (used_in (evs @ [ev]) - {k})"
    using fin more by (intro card_mono) auto
  then have "int (card (used_in evs - {k})) < en_max_models en" using step.prems(4) by linarith
  with step obtain p1 s1 where keys: "map fst (en_models en') = p1 @ k # s1" and s1: "set s1 \<subseteq> used_in evs" by auto
  have "card ((set s1 \<union> uses ev) - {k}) \<le> card (used_in (evs @ [ev]) - {k})"
    using fin more s1 by (intro card_mono) auto
  then have "int (card ((set s1 \<union> uses ev) - {k})) < en_max_models en'"
    using step.prems(4) engine_run_max [OF step.hyps(1)] by linarith
  then obtain p2 s2 where "map fst (en_models en'') = p2 @ k # s2" "set s2 \<subseteq> set s1 \<union> uses ev"
    using kept_step [OF step.hyps(2) engine_run_inv [OF step.hyps(1) step.prems(1)] keys] step.prems(3) by auto
  with s1 more show ?case by blast
qed

section \<open>What a load does\<close>

lemma load_model_cases:
  assumes "load_model lib kms depth model_name weights en w = (r, en', w')"
  shows "(isl r \<and> en' = en)
    \<or> (r = Inr () \<and> od_get (en_models en) (strip model_name) \<noteq> None \<and> en' = touch_model (strip model_name) en \<and> w' = w)
    \<or> (r = Inr () \<and> od_get (en_models en) (strip model_name) = None \<and> strip model_name \<noteq> []
       \<and> (\<exists>key blob tenant_id data_key m.
           bundle_inputs depth (strip model_name) weights = Inr (key, blob, tenant_id)
         \<and> engine_decrypt_key kms key tenant_id w = (Inr data_key, w')
         \<and> open_model lib depth (strip model_name) tenant_id blob data_key = Inr m
         \<and> en' = store_model (strip model_name) m en))"
  using assms
  by (auto simp: load_model_def Let_def split: if_splits sum.splits prod.splits option.splits)

lemma load_model_run:
  assumes "load_model lib kms depth model_name weights en w = (r, en', w')"
  shows "\<exists>evs. engine_run lib depth en evs en' \<and> length evs \<le> 1 \<and> (isl r \<longrightarrow> evs = [])"
proof -
  have one: "engine_step lib depth en ev en'' \<Longrightarrow> engine_run lib depth en [ev] en''" for ev en''
    using engine_run.step [OF engine_run.start] by fastforce
  from load_model_cases [OF assms] show ?thesis
  proof (elim disjE conjE exE)
    assume "isl r" "en' = en"
    then show ?thesis using engine_run.start by (intro exI [of _ "[]"]) auto
  next
    assume "r = Inr ()" "en' = touch_model (strip model_name) en"
    then show ?thesis using one [OF engine_step.found] by (intro exI [of _ "[_]"]) auto
  next
    fix key blob tenant_id data_key m
    assume "r = Inr ()" "open_model lib depth (strip model_name) tenant_id blob data_key = Inr m"
      "en' = store_model (strip model_name) m en"
    then show ?thesis using one [OF engine_step.loaded] by (intro exI [of _ "[_]"]) auto
  qed
qed

lemma engine_run_found: "engine_run lib depth en [Found name (od_get (en_models en) name)] (touch_model name en)"
  using engine_run.step [OF engine_run.start engine_step.found] by fastforce

lemma engine_predict_run:
  assumes "engine_predict lib perf_counter model_name features en w = (r, en', w')"
  shows "\<exists>evs. engine_run lib depth en evs en' \<and> length evs \<le> 1"
proof -
  have "en' = en \<or> en' = touch_model (strip model_name) en"
    using assms by (auto simp: engine_predict_def Let_def split: if_splits option.splits sum.splits prod.splits)
  then show ?thesis
    using engine_run.start engine_run_found [of lib depth en "strip model_name"]
    by (metis length_Cons list.size(3) One_nat_def le_refl le_0_eq le_SucI zero_le)
qed

lemma open_model_InrE:
  assumes "open_model lib depth name tenant_id blob data_key = Inr m"
  obtains payload nonce ciphertext aad plaintext where
    "parse_model_payload depth blob = Inr payload"
    "b64decode (the (str_field payload ''nonce_b64'')) = Inr nonce"
    "b64decode (the (str_field payload ''ciphertext_b64'')) = Inr ciphertext"
    "build_aad tenant_id name (od_get payload (U ''aad_b64'')) = Inr aad"
    "ml_aesgcm lib data_key nonce ciphertext aad = Inr plaintext"
    "ml_load lib plaintext = Inr (lm_model m)" "lm_name m = name"
    "extract_feature_dimension lib (lm_model m) payload = Inr (lm_feature_dimension m)"
  using assms by (auto simp: open_model_def res_simps)

lemma engine_run_loaded:
  "engine_run lib depth en evs en' \<Longrightarrow> Loaded n m \<in> set evs \<Longrightarrow> \<exists>t blob key. open_model lib depth n t blob key = Inr m"
proof (induction rule: engine_run.induct)
  case (step en evs en' ev en'')
  show ?case
  proof (cases "ev = Loaded n m")
    case True
    with step.hyps(2) show ?thesis by cases auto
  qed (use step in auto)
qed simp

lemma last_loaded_event: "last_loaded n evs = Some m \<Longrightarrow> Loaded n m \<in> set evs"
proof (induction evs rule: rev_induct)
  case Nil
  then show ?case by (simp add: last_loaded_def)
next
  case (snoc ev evs)
  then show ?case by (cases ev) (auto simp: last_loaded_snoc split: if_splits)
qed

lemma engine_init_inv: "engine_init env limit = Inr en \<Longrightarrow> engine_inv en \<and> en_models en = []"
  by (auto simp: engine_init_def engine_inv_def split: sum.splits if_splits)

section \<open>Whose keys a load asks for\<close>

text \<open>
  The interface the engine relies on: a decryptor of data keys asks, if at all, once, for the
  ciphertext and the tenant it was given. \<open>asked\<close> reads the log of a world.
\<close>

locale key_decryptor =
  fixes decrypt :: "bytes \<Rightarrow> ustr \<Rightarrow> 'w \<Rightarrow> bytes res \<times> 'w"
    and asked :: "'w \<Rightarrow> (ustr \<times> bytes) list"
  assumes asks_own: "asked w = [] \<Longrightarrow> decrypt c t w = (r, w') \<Longrightarrow>
    asked w' = [] \<or> (\<exists>t'. asked w' = [(t', c)] \<and> strip t' = strip t)"
begin

lemma load_asks_own:
  assumes "asked w = []" and "load_model lib (DecryptDataKey decrypt) depth name weights en w = (r, en', w')"
  shows "asked w' = [] \<or> (\<exists>key blob t t'. bundle_inputs depth (strip name) weights = Inr (key, blob, t)
    \<and> asked w' = [(t', key)] \<and> strip t' = strip t)"
proof (cases "bundle_inputs depth (strip name) weights")
  case (Inl e)
  with assms show ?thesis by (auto simp: load_model_def Let_def split: if_splits option.splits)
next
  case (Inr inputs)
  obtain key blob t where i: "inputs = (key, blob, t)" by (cases inputs)
  obtain rk w1 where d: "decrypt key t w = (rk, w1)" by (cases "decrypt key t w")
  have "w' = w \<or> w' = w1"
    using assms(2) Inr i d by (auto simp: load_model_def engine_decrypt_key_def Let_def split: if_splits option.splits sum.splits)
  with assms(1) asks_own [OF assms(1) d] Inr i show ?thesis by auto
qed

end

text \<open>The KMS client of the enclave, its cache part of the world, behind the engine's interface.\<close>

definition enclave_decryptor :: "'w kms_env \<Rightarrow> bytes \<Rightarrow> ustr \<Rightarrow> kms_client \<times> 'w \<Rightarrow> bytes res \<times> (kms_client \<times> 'w)" where
  "enclave_decryptor env ciphertext tenant_id =
     (\<lambda>(k, w). case decrypt_data_key env ciphertext tenant_id None None False k w of (r, k', w') \<Rightarrow> (r, (k', w')))"

fun asked_tenants :: "kms_client \<times> 'w \<times> kms_request list \<Rightarrow> (ustr \<times> bytes) list" where
  "asked_tenants (k, w, sent) =
     map (\<lambda>req. (case od_get (rq_context req) (U ''tenant_id'') of Some t \<Rightarrow> t | None \<Rightarrow> [], rq_ciphertext req)) sent"

lemma prepared_request:
  "prepare_attested_decrypt_request key_id c t document = Inr req \<Longrightarrow>
   rq_context req = [(U ''tenant_id'', strip t)] \<and> rq_ciphertext req = c"
  by (auto simp: prepare_attested_decrypt_request_def build_context_Inr_iff split: if_splits sum.splits)

interpretation enclave_kms: key_decryptor "enclave_decryptor (logged env)" asked_tenants for env
proof
  fix w w' :: "kms_client \<times> 'a \<times> kms_request list" and c t r
  assume a: "asked_tenants w = []" "enclave_decryptor (logged env) c t w = (r, w')"
  obtain k v l where w: "w = (k, v, l)" by (cases w)
  with a(1) have "l = []" by simp
  obtain k' v' l' where w': "w' = (k', v', l')" by (cases w')
  with a(2) w \<open>l = []\<close> have "decrypt_data_key (logged env) c t None None False k (v, []) = (r, k', (v', l'))"
    by (auto simp: enclave_decryptor_def split: prod.splits)
  from decrypt_log [OF this] show "asked_tenants w' = [] \<or> (\<exists>t'. asked_tenants w' = [(t', c)] \<and> strip t' = strip t)"
    unfolding w' by (auto simp: od_get_def dest!: prepared_request)
qed

section \<open>Findings\<close>

text \<open>
  A model is cached under its name alone: once one tenant has loaded a model, a load by any
  tenant under that name succeeds with any bundle, unread, and keeps the first tenant's model.
\<close>

lemma cached_model_skips_bundle:
  assumes "is_model_loaded (strip name) en" and "strip name \<noteq> []" and "weights \<noteq> []"
  shows "load_model lib kms depth name weights en w = (Inr (), touch_model (strip name) en, w)"
  using assms by (simp add: load_model_def is_model_loaded_def)

text \<open>
  The associated data of an artifact that carries its own is not bound to tenant and model.
\<close>

lemma aad_of_artifact: "s \<noteq> [] \<Longrightarrow> build_aad tenant_id model_name (Some (JStr s)) = b64decode s"
  by (simp add: build_aad_def json_truthy_def)

text \<open>A bundle whose key is not base64 fails with no \<open>ModelLoadError\<close>.\<close>

lemma bad_base64_escapes:
  assumes "parse_load_request depth weights = Inr bundle" and "str_field bundle ''model_name'' = Some (strip name)"
    and "str_field bundle ''encrypted_model_key'' = Some key" and "b64decode key = Inl e"
    and "strip name \<noteq> []" and "weights \<noteq> []" and "od_get (en_models en) (strip name) = None"
  shows "load_model lib kms depth name weights en w = (Inl e, en, w) \<and> is_ValueError e"
  using assms b64decode_errors [OF assms(4)]
  by (auto simp: load_model_def bundle_inputs_def Let_def)

section \<open>Properties\<close>

text \<open>C6. Whatever loads, predictions and unloads the threads of the server make in
  whatever order, the engine never holds more models than its limit, holds each name once, and
  holds under a name the model of the last load under that name; that model was opened under
  this very name (so its artifact was authenticated) and expects at least one feature.\<close>

theorem model_cache_bounded:
  assumes "engine_init env limit = Inr en0" and "engine_run lib depth en0 evs en"
  shows "distinct (list_loaded_models en) \<and> int (length (list_loaded_models en)) \<le> en_max_models en0
    \<and> (\<forall>n m. od_get (en_models en) n = Some m \<longrightarrow> last_loaded n evs = Some m \<and> 0 < lm_feature_dimension m
        \<and> (\<exists>tenant_id blob data_key. open_model lib depth n tenant_id blob data_key = Inr m))"
proof -
  note init = engine_init_inv [OF assms(1)]
  note holds = engine_run_holds [OF assms(2) init [THEN conjunct1] init [THEN conjunct2]]
  note inv = engine_run_inv [OF assms(2) init [THEN conjunct1]]
  have "\<exists>tenant_id blob data_key. open_model lib depth n tenant_id blob data_key = Inr m"
    if "od_get (en_models en) n = Some m" for n m
    using that holds engine_run_loaded [OF assms(2) last_loaded_event] by (auto simp: holds_last_def)
  then show ?thesis
    using inv holds engine_run_max [OF assms(2)]
    by (auto simp: engine_inv_def holds_last_def list_loaded_models_def od_wf_def)
qed

definition sample_artifact :: "(ustr, json) odict" where
  "sample_artifact = [(U ''algorithm'', JStr (U ''AESGCM'')), (U ''nonce_b64'', JStr (U ''AA=='')),
     (U ''ciphertext_b64'', JStr (U ''AAE=''))]"

definition sample_blob :: bytes where
  "sample_blob = map byte_of (dumps (JObj sample_artifact))"

definition sample_lib :: "(bytes, nat) model_lib" where
  \<comment> \<open>for the witnesses: no encryption, a model is the list of its bytes\<close>
  "sample_lib = \<lparr>ml_aesgcm = (\<lambda>key nonce ciphertext aad. Inr ciphertext), ml_load = Inr,
     ml_n_features = (\<lambda>m. Some (Inr (int (length m)))), ml_predict = (\<lambda>m fs. Inr (length m)),
     ml_first = (\<lambda>n. Inr (Fin (of_nat n))), ml_proba = (\<lambda>m. None)\<rparr>"

definition sample_model :: "bytes loaded_model" where
  "sample_model = \<lparr>lm_name = U ''m'', lm_model = [0, 1], lm_feature_dimension = 2\<rparr>"

definition sample_engine :: "bytes engine" where
  "sample_engine = \<lparr>en_max_models = 2, en_models = []\<rparr>"

definition sample_loaded :: "bytes engine" where
  "sample_loaded = \<lparr>en_max_models = 2, en_models = [(U ''m'', sample_model)]\<rparr>"

lemma json_object_dumps:
  assumes "json_wf (JObj d)" and "json_depth (JObj d) \<le> depth"
  shows "json_object depth e1 e2 (map byte_of (dumps (JObj d))) = Inr d"
proof -
  have "list_all scalar (dumps (JObj d))"
    using ascii_dumps [OF assms(1)] by (auto simp: ascii_def scalar_def list_all_iff)
  moreover have "concat (map utf8_char (dumps (JObj d))) = map byte_of (dumps (JObj d))"
    using utf8_encode_ascii [OF ascii_dumps [OF assms(1)]] by (auto simp: utf8_encode_def split: if_splits)
  ultimately have "utf8_decode (map byte_of (dumps (JObj d))) = Inr (dumps (JObj d))"
    using utf8_decode_encode by metis
  with loads_dumps [OF assms] show ?thesis by (simp add: json_object_def)
qed

lemma sample_init: "engine_init None (Some 2) = Inr sample_engine"
  by (simp add: engine_init_def sample_engine_def)

lemma sample_open: "open_model sample_lib 5 (U ''m'') (U ''t'') sample_blob [] = Inr sample_model"
proof -
  have "json_wf (JObj sample_artifact)" and "json_depth (JObj sample_artifact) \<le> 5"
    by (simp_all add: sample_artifact_def)
  note read = json_object_dumps [OF this]
  have p: "parse_model_payload 5 sample_blob = Inr sample_artifact"
    unfolding parse_model_payload_def sample_blob_def read
    by (simp add: sample_artifact_def str_field_def od_get_def)
  have b: "b64decode (U ''AAE='') = Inr [0, 1]" "b64decode (U ''AA=='') = Inr [0]"
    by (simp_all add: b64decode_def ascii_def U_def b64_val_def byte_of_def)
  have a: "build_aad (U ''t'') (U ''m'') None = Inr (map byte_of (U ''t:m''))"
    using utf8_encode_ascii [of "U ''t:m''"] by (simp add: build_aad_def default_aad_def U_def ascii_def)
  show ?thesis
    by (simp add: open_model_def p) (simp add: sample_artifact_def str_field_def od_get_def b a sample_lib_def
      extract_feature_dimension_def sample_model_def)
qed

lemma sample_store: "store_model (U ''m'') sample_model sample_engine = sample_loaded"
  by (simp add: store_model_def with_models_def sample_engine_def sample_loaded_def od_store_def od_set_def
      od_move_to_end_def)

lemma sample_run: "engine_run sample_lib 5 sample_engine [Loaded (U ''m'') sample_model] sample_loaded"
  using engine_run.step [OF engine_run.start engine_step.loaded [OF sample_open]] by (fastforce simp flip: sample_store)

theorem model_cache_bounded_witness:
  "list_loaded_models sample_loaded = [U ''m'']
   \<and> last_loaded (U ''m'') [Loaded (U ''m'') sample_model] = Some sample_model"
proof -
  from model_cache_bounded [OF sample_init sample_run] show ?thesis
    by (simp add: list_loaded_models_def sample_loaded_def od_get_def)
qed

text \<open>C30. Least recently used eviction: the model used last stays loaded, with
  the same position among the others, as long as it is not unloaded and fewer than the limit of
  other models are used, however often each of them is.\<close>

theorem model_in_use_is_kept:
  assumes "engine_init env limit = Inr en0" and "engine_run lib depth en0 past en"
    and "list_loaded_models en = older @ [name]" and "engine_run lib depth en evs en'"
    and "Unloaded name \<notin> set evs" and "int (card (used_in evs - {name})) < en_max_models en0"
  shows "is_model_loaded name en' \<and> (\<exists>before after. list_loaded_models en' = before @ name # after \<and> set after \<subseteq> used_in evs)"
proof -
  have inv: "engine_inv en" using engine_run_inv [OF assms(2)] engine_init_inv [OF assms(1)] by blast
  obtain p s where k: "map fst (en_models en') = p @ name # s" "set s \<subseteq> used_in evs"
    using kept_run [OF assms(4) inv, of older name] assms(3,5,6) engine_run_max [OF assms(2)]
    by (auto simp: list_loaded_models_def)
  then have "name \<in> fst ` set (en_models en')" by (metis in_set_conv_decomp set_map)
  then have "is_model_loaded name en'" by (simp add: is_model_loaded_def od_get_def map_of_eq_None_iff)
  with k show ?thesis by (auto simp: list_loaded_models_def)
qed

theorem model_in_use_is_kept_witness:
  "is_model_loaded (U ''m'') (touch_model (U ''x'') sample_loaded)"
proof -
  let ?en = sample_loaded
  have "engine_run sample_lib 5 ?en [Found (U ''x'') None] (touch_model (U ''x'') ?en)"
    using engine_run.step [OF engine_run.start engine_step.found, of sample_lib 5 ?en "U ''x''"]
    by (simp add: sample_loaded_def od_get_def)
  from model_in_use_is_kept [OF sample_init sample_run _ this, of "[]" "U ''m''"] show ?thesis
    by (simp add: list_loaded_models_def sample_loaded_def used_in_def sample_engine_def)
qed


text \<open>C17. A prediction is served only for a non-empty vector of exactly the
  dimension of the model last loaded under the name, and it is that model's prediction for that
  vector, with its highest class probability as confidence where it has any.\<close>

theorem prediction_of_last_load:
  assumes "engine_init env limit = Inr en0" and "engine_run lib depth en0 evs en"
    and "engine_predict lib perf_counter model_name features en w = (Inr p, en', w')"
  shows "\<exists>m raw. last_loaded (strip model_name) evs = Some m \<and> en' = touch_model (strip model_name) en
    \<and> features \<noteq> [] \<and> int (length features) = lm_feature_dimension m
    \<and> ml_predict lib (lm_model m) features = Inr raw \<and> ml_first lib raw = Inr (pr_prediction p)
    \<and> (case ml_proba lib (lm_model m) of None \<Rightarrow> pr_confidence p = Fin 1
       | Some proba \<Rightarrow> \<exists>probabilities. proba features = Inr probabilities \<and> np_max probabilities = Inr (pr_confidence p))"
proof -
  from assms(3) obtain m where m: "od_get (en_models en) (strip model_name) = Some m"
    and v: "features \<noteq> []" "int (length features) = lm_feature_dimension m"
    and run: "run_model lib perf_counter m features w = (Inr p, w')" and en': "en' = touch_model (strip model_name) en"
    by (auto simp: engine_predict_def Let_def validate_features_def split: if_splits option.splits sum.splits prod.splits)
  have "last_loaded (strip model_name) evs = Some m"
    using engine_run_holds [OF assms(2)] engine_init_inv [OF assms(1)] m by (auto simp: holds_last_def)
  moreover from run obtain raw where "ml_predict lib (lm_model m) features = Inr raw"
    "ml_first lib raw = Inr (pr_prediction p)" "compute_confidence lib (lm_model m) features = Inr (pr_confidence p)"
    by (auto simp: run_model_def res_simps split: prod.splits sum.splits)
  ultimately show ?thesis
    using v en' by (auto simp: compute_confidence_def res_simps split: option.splits)
qed

theorem prediction_of_last_load_witness:
  "\<exists>p en'. engine_predict sample_lib (\<lambda>w. (Fin 0, w)) (U ''m'') [Fin 1, Fin 1]
      sample_loaded () = (Inr p, en', ()) \<and> pr_prediction p = Fin 2"
proof -
  have "\<not> py_space 109" by (simp add: py_space_def)
  then have "strip (U ''m'') = U ''m''" by (intro strip_id) (simp_all add: U_def)
  then obtain p en' where e: "engine_predict sample_lib (\<lambda>w. (Fin 0, w)) (U ''m'') [Fin 1, Fin 1]
      sample_loaded () = (Inr p, en', ())"
    by (simp add: engine_predict_def Let_def sample_loaded_def od_get_def validate_features_def sample_model_def run_model_def
        sample_lib_def compute_confidence_def)
  from prediction_of_last_load [OF sample_init sample_run e] \<open>strip (U ''m'') = U ''m''\<close> e show ?thesis
    by (auto simp: sample_lib_def last_loaded_def sample_model_def)
qed

text \<open>C27. Over the enclave's KMS client, loading a model sends at most one
  request to the KMS proxy, and it asks for the wrapped key of the bundle under the encryption
  context of the bundle's tenant.\<close>

theorem load_asks_for_bundle_tenant:
  "case load_model lib (DecryptDataKey (enclave_decryptor (logged env))) depth model_name weights en (k, w, []) of
     (r, en', k', w', sent) \<Rightarrow> sent = [] \<or> (\<exists>key blob t req. bundle_inputs depth (strip model_name) weights = Inr (key, blob, t)
        \<and> sent = [req] \<and> rq_ciphertext req = key
        \<and> (case od_get (rq_context req) (U ''tenant_id'') of Some t' \<Rightarrow> strip t' = strip t | None \<Rightarrow> strip t = []))"
proof -
  obtain r en' k' w' sent where l: "load_model lib (DecryptDataKey (enclave_decryptor (logged env))) depth model_name weights en
      (k, w, []) = (r, en', k', w', sent)" by (metis surj_pair)
  have "asked_tenants (k, w, []) = []" by simp
  from enclave_kms.load_asks_own [OF this l] consider "sent = []"
    | key blob t t' where "bundle_inputs depth (strip model_name) weights = Inr (key, blob, t)"
        "asked_tenants (k', w', sent) = [(t', key)]" "strip t' = strip t"
    by auto
  then show ?thesis
  proof cases
    case 2
    then obtain req where req: "sent = [req]" "rq_ciphertext req = key"
      "(case od_get (rq_context req) (U ''tenant_id'') of Some t \<Rightarrow> t | None \<Rightarrow> []) = t'" by auto
    then have "case od_get (rq_context req) (U ''tenant_id'') of Some t' \<Rightarrow> strip t' = strip t | None \<Rightarrow> strip t = []"
      using 2(3) by (auto split: option.splits)
    then show ?thesis unfolding l prod.case using 2(1) req(1,2) by blast
  qed (simp add: l)
qed

end
