(* ===== verification/Frames.thy ===== *)
theory Frames
  imports InferenceEngine
begin

text \<open>
  The length-prefixed JSON frames that host and enclave exchange: four bytes of big-endian
  length, then the JSON text of an object. Both ends have their own reader,
  \<open>feature_store/services/enclave_client.py\<close> and \<open>enclave/server.py\<close>, and both are here, over a
  socket whose \<open>recv\<close> returns what has arrived, at most as much as asked for. The codec lemma
  holds for every way the bytes are cut into chunks.
\<close>

type_synonym message = "(ustr, json) odict"

definition encode_frame :: "message \<Rightarrow> bytes res" where
  \<comment> \<open>\<open>struct.pack\<close> raises for a length of more than four bytes\<close>
  "encode_frame payload =
     bindR (utf8_encode (dumps (JObj payload))) (\<lambda>encoded.
       if length encoded < 2 ^ 32 then Inr (be_bytes 4 (length encoded) @ encoded) else Inl StructError)"

definition unpack_length :: "bytes \<Rightarrow> nat res" where
  \<comment> \<open>\<open>struct.unpack("!I", header)[0]\<close>\<close>
  "unpack_length header = (if length header = 4 then Inr (from_bytes_big header) else Inl StructError)"

definition decode_payload :: "nat \<Rightarrow> exn \<Rightarrow> bytes \<Rightarrow> message res" where
  "decode_payload depth not_object payload =
     bindR (utf8_decode payload) (\<lambda>text. bindR (loads depth text)
       (\<lambda>v. case v of JObj d \<Rightarrow> Inr d | _ \<Rightarrow> Inl not_object))"

section \<open>The host's reader\<close>

function recv_exact :: "(nat \<Rightarrow> 'c \<Rightarrow> bytes res \<times> 'c) \<Rightarrow> nat \<Rightarrow> bytes \<Rightarrow> 'c \<Rightarrow> bytes res \<times> 'c" where
  "recv_exact recv n buffer c =
     (if length buffer < n then
        (case recv (n - length buffer) c of
           (Inl e, c') \<Rightarrow> (Inl e, c')
         | (Inr chunk, c') \<Rightarrow>
           if chunk = [] then (Inl ConnectionError, c') else recv_exact recv n (buffer @ chunk) c')
      else (Inr buffer, c))"
  by pat_completeness auto
termination
  by (relation "measure (\<lambda>(_, n, buffer, _). n - length buffer)") (auto simp flip: length_greater_0_conv)

declare recv_exact.simps [simp del]

definition decode_frame :: "nat \<Rightarrow> (nat \<Rightarrow> 'c \<Rightarrow> bytes res \<times> 'c) \<Rightarrow> bytes \<Rightarrow> 'c \<Rightarrow> message res \<times> 'c" where
  "decode_frame depth recv header c =
     (case unpack_length header of Inl e \<Rightarrow> (Inl e, c)
      | Inr message_length \<Rightarrow>
        if message_length \<le> 0 then (Inl (ValueError (U ''The enclave returned an invalid frame length.'')), c)
        else (case recv_exact recv message_length [] c of
            (Inl e, c') \<Rightarrow> (Inl e, c')
          | (Inr payload, c') \<Rightarrow>
            (decode_payload depth (ValueError (U ''The enclave response payload must be a JSON object.'')) payload, c')))"

definition receive_response :: "nat \<Rightarrow> (nat \<Rightarrow> 'c \<Rightarrow> bytes res \<times> 'c) \<Rightarrow> 'c \<Rightarrow> message res \<times> 'c" where
  \<comment> \<open>\<open>_decode_frame(_recv_exact(connection, 4), connection)\<close>\<close>
  "receive_response depth recv c =
     (case recv_exact recv 4 [] c of (Inl e, c') \<Rightarrow> (Inl e, c') | (Inr header, c') \<Rightarrow> decode_frame depth recv header c')"

section \<open>The enclave's reader\<close>

function recv_some :: "(nat \<Rightarrow> 'c \<Rightarrow> bytes res \<times> 'c) \<Rightarrow> nat \<Rightarrow> bytes \<Rightarrow> 'c \<Rightarrow> bytes option res \<times> 'c" where
  \<comment> \<open>the server's \<open>_recv_exact\<close>, which returns what it has when the peer closes\<close>
  "recv_some recv n buffer c =
     (if length buffer < n then
        (case recv (n - length buffer) c of
           (Inl e, c') \<Rightarrow> (Inl e, c')
         | (Inr chunk, c') \<Rightarrow>
           if chunk = [] then (Inr (if buffer = [] then None else Some buffer), c')
           else recv_some recv n (buffer @ chunk) c')
      else (Inr (Some buffer), c))"
  by pat_completeness auto
termination
  by (relation "measure (\<lambda>(_, n, buffer, _). n - length buffer)") (auto simp flip: length_greater_0_conv)

declare recv_some.simps [simp del]

definition read_message :: "nat \<Rightarrow> (nat \<Rightarrow> 'c \<Rightarrow> bytes res \<times> 'c) \<Rightarrow> 'c \<Rightarrow> message option res \<times> 'c" where
  "read_message depth recv c =
     (case recv_some recv 4 [] c of
        (Inl e, c1) \<Rightarrow> (Inl e, c1)
      | (Inr None, c1) \<Rightarrow> (Inr None, c1)
      | (Inr (Some header), c1) \<Rightarrow>
        (case unpack_length header of Inl e \<Rightarrow> (Inl e, c1)
         | Inr message_length \<Rightarrow>
           if message_length = 0 then (Inl (ValueError (U ''Received an empty frame.'')), c1)
           else (case recv_some recv message_length [] c1 of
               (Inl e, c2) \<Rightarrow> (Inl e, c2)
             | (Inr None, c2) \<Rightarrow> (Inl (ValueError (U ''Connection closed mid-frame.'')), c2)
             | (Inr (Some payload), c2) \<Rightarrow>
               (bindR (decode_payload depth (ValueError (U ''Frame payload must be a JSON object.'')) payload)
                  (\<lambda>d. Inr (Some d)), c2))))"

section \<open>Streams\<close>

text \<open>
  What both readers rely on of a socket: \<open>recv(n)\<close> returns a prefix of the bytes still to come,
  non-empty unless there are none, of at most \<open>n\<close> bytes. \<open>view\<close> is what receiving leaves alone.
\<close>

definition stream_recv :: "(nat \<Rightarrow> 'c \<Rightarrow> bytes res \<times> 'c) \<Rightarrow> ('c \<Rightarrow> bytes) \<Rightarrow> ('c \<Rightarrow> 'v) \<Rightarrow> bool" where
  "stream_recv recv incoming view \<longleftrightarrow>
     (\<forall>n c r c'. 0 < n \<longrightarrow> recv n c = (r, c') \<longrightarrow> view c' = view c \<and>
        (\<exists>chunk. r = Inr chunk \<and> incoming c = chunk @ incoming c' \<and> length chunk \<le> n
           \<and> (chunk = [] \<longleftrightarrow> incoming c = [])))"

lemma stream_recvE:
  assumes "stream_recv recv incoming view" and "0 < n"
  obtains chunk c' where "recv n c = (Inr chunk, c')" "incoming c = chunk @ incoming c'" "length chunk \<le> n"
    "chunk = [] \<longleftrightarrow> incoming c = []" "view c' = view c"
proof -
  obtain r c' where r: "recv n c = (r, c')" by (cases "recv n c")
  from assms(1) [unfolded stream_recv_def, rule_format, OF assms(2) r] r that show ?thesis by blast
qed

lemma recv_exact_stream:
  assumes "stream_recv recv incoming view"
  shows "length buffer \<le> n \<Longrightarrow> n - length buffer \<le> length (incoming c) \<Longrightarrow>
    \<exists>c'. recv_exact recv n buffer c = (Inr (buffer @ take (n - length buffer) (incoming c)), c')
      \<and> incoming c' = drop (n - length buffer) (incoming c) \<and> view c' = view c"
proof (induction "n - length buffer" arbitrary: buffer c rule: less_induct)
  case less
  show ?case
  proof (cases "length buffer < n")
    case True
    then have "0 < n - length buffer" by simp
    then obtain chunk c1 where r: "recv (n - length buffer) c = (Inr chunk, c1)"
        "incoming c = chunk @ incoming c1" "length chunk \<le> n - length buffer" "chunk = [] \<longleftrightarrow> incoming c = []"
        "view c1 = view c"
      by (rule stream_recvE [OF assms])
    have "chunk \<noteq> []" using r(4) less.prems True by auto
    then have less': "n - length (buffer @ chunk) < n - length buffer" using True by (cases chunk) auto
    have prems: "length (buffer @ chunk) \<le> n" "n - length (buffer @ chunk) \<le> length (incoming c1)"
      using r(2,3) less.prems by auto
    obtain c2 where
      "recv_exact recv n (buffer @ chunk) c1
        = (Inr ((buffer @ chunk) @ take (n - length (buffer @ chunk)) (incoming c1)), c2)"
      "incoming c2 = drop (n - length (buffer @ chunk)) (incoming c1)" "view c2 = view c1"
      using less.hyps [OF less' prems] by blast
    with r True \<open>chunk \<noteq> []\<close> show ?thesis
      by (subst recv_exact.simps) simp
  next
    case False
    with less.prems show ?thesis by (subst recv_exact.simps) simp
  qed
qed

text \<open>The two readers agree on a stream with enough bytes.\<close>

lemma recv_some_stream:
  assumes "stream_recv recv incoming view"
  shows "length buffer \<le> n \<Longrightarrow> \<exists>c'. recv_some recv n buffer c =
      (Inr (if length buffer < n \<and> buffer @ incoming c = [] then None
            else Some (buffer @ take (n - length buffer) (incoming c))), c')
    \<and> incoming c' = drop (n - length buffer) (incoming c) \<and> view c' = view c"
proof (induction "n - length buffer" arbitrary: buffer c rule: less_induct)
  case less
  show ?case
  proof (cases "length buffer < n")
    case True
    then have "0 < n - length buffer" by simp
    then obtain chunk c1 where r: "recv (n - length buffer) c = (Inr chunk, c1)"
        "incoming c = chunk @ incoming c1" "length chunk \<le> n - length buffer"
        "chunk = [] \<longleftrightarrow> incoming c = []" "view c1 = view c"
      by (rule stream_recvE [OF assms])
    show ?thesis
    proof (cases "chunk = []")
      case False
      then have less': "n - length (buffer @ chunk) < n - length buffer" using True by (cases chunk) auto
      have prem: "length (buffer @ chunk) \<le> n" using r(3) less.prems by simp
      obtain c2 where
        "recv_some recv n (buffer @ chunk) c1 =
          (Inr (if length (buffer @ chunk) < n \<and> (buffer @ chunk) @ incoming c1 = [] then None
              else Some ((buffer @ chunk) @ take (n - length (buffer @ chunk)) (incoming c1))), c2)"
        "incoming c2 = drop (n - length (buffer @ chunk)) (incoming c1)" "view c2 = view c1"
        using less.hyps [OF less' prem] by blast
      with r True False show ?thesis by (subst recv_some.simps) simp
    next
      case eof: True
      with r have e: "incoming c = []" "incoming c1 = []" "recv (n - length buffer) c = (Inr [], c1)" by auto
      have "recv_some recv n buffer c = (Inr (if buffer = [] then None else Some buffer), c1)"
        by (subst recv_some.simps) (simp add: e True)
      with e r(5) True show ?thesis by simp
    qed
  next
    case False
    with less.prems show ?thesis by (subst recv_some.simps) simp
  qed
qed

section \<open>The codec\<close>

definition message_wf :: "nat \<Rightarrow> message \<Rightarrow> bool" where
  "message_wf depth d \<longleftrightarrow> json_wf (JObj d) \<and> json_depth (JObj d) \<le> depth \<and> length (dumps (JObj d)) < 2 ^ 32"

lemma dumps_bytes:
  assumes "json_wf v"
  shows "utf8_encode (dumps v) = Inr (map byte_of (dumps v))" and "utf8_decode (map byte_of (dumps v)) = Inr (dumps v)"
proof -
  show e: "utf8_encode (dumps v) = Inr (map byte_of (dumps v))" by (rule utf8_encode_ascii [OF ascii_dumps [OF assms]])
  have "list_all scalar (dumps v)"
    using ascii_dumps [OF assms] by (auto simp: ascii_def scalar_def list_all_iff)
  with e utf8_decode_encode [of "dumps v"] show "utf8_decode (map byte_of (dumps v)) = Inr (dumps v)"
    by (auto simp: utf8_encode_def split: if_splits)
qed

lemma encode_frame_wf:
  assumes "message_wf depth d"
  shows "encode_frame d = Inr (be_bytes 4 (length (dumps (JObj d))) @ map byte_of (dumps (JObj d)))"
  using assms dumps_bytes(1) [of "JObj d"] by (simp add: encode_frame_def message_wf_def)

lemma frame_parts:
  assumes "message_wf depth d" and "stream_recv recv incoming view" and "incoming c = f @ rest" and "encode_frame d = Inr f"
  obtains c1 c2 where "recv_exact recv 4 [] c = (Inr (be_bytes 4 (length (dumps (JObj d)))), c1)"
    and "recv_some recv 4 [] c = (Inr (Some (be_bytes 4 (length (dumps (JObj d))))), c2)"
    and "incoming c1 = map byte_of (dumps (JObj d)) @ rest" and "incoming c2 = map byte_of (dumps (JObj d)) @ rest"
    and "view c1 = view c" and "view c2 = view c"
proof -
  let ?h = "be_bytes 4 (length (dumps (JObj d)))"
  have i: "incoming c = ?h @ map byte_of (dumps (JObj d)) @ rest"
    using assms(3,4) encode_frame_wf [OF assms(1)] by simp
  then have "take 4 (incoming c) = ?h" "drop 4 (incoming c) = map byte_of (dumps (JObj d)) @ rest" "incoming c \<noteq> []"
    "4 \<le> length (incoming c)" by simp_all
  with recv_exact_stream [OF assms(2), of "[]" 4 c] recv_some_stream [OF assms(2), of "[]" 4 c] that
  show ?thesis by auto
qed

lemma payload_decodes:
  "message_wf depth d \<Longrightarrow> decode_payload depth e (map byte_of (dumps (JObj d))) = Inr d"
  using dumps_bytes(2) [of "JObj d"] loads_dumps [of "JObj d" depth] by (simp add: message_wf_def decode_payload_def)

lemma message_length:
  assumes "message_wf depth d"
  shows "unpack_length (be_bytes 4 (length (dumps (JObj d)))) = Inr (length (dumps (JObj d)))"
    and "0 < length (dumps (JObj d))"
  using assms from_be_bytes [of "length (dumps (JObj d))" 4]
  by (simp_all add: unpack_length_def message_wf_def)

lemma host_reads_frame:
  assumes wf: "message_wf depth d" and s: "stream_recv recv incoming view" and "incoming c = f @ rest"
    and "encode_frame d = Inr f"
  shows "\<exists>c'. receive_response depth recv c = (Inr d, c') \<and> incoming c' = rest \<and> view c' = view c"
proof -
  let ?b = "map byte_of (dumps (JObj d))"
  obtain c1 where h: "recv_exact recv 4 [] c = (Inr (be_bytes 4 (length (dumps (JObj d)))), c1)"
      "incoming c1 = ?b @ rest" "view c1 = view c"
    using frame_parts [OF wf s assms(3,4)] by metis
  obtain c2 where "recv_exact recv (length (dumps (JObj d))) [] c1 = (Inr ?b, c2)" "incoming c2 = rest" "view c2 = view c1"
    using recv_exact_stream [OF s, of "[]" "length (dumps (JObj d))" c1] h(2) by auto
  with h message_length [OF wf] payload_decodes [OF wf] show ?thesis
    by (simp add: receive_response_def decode_frame_def)
qed

lemma enclave_reads_frame:
  assumes wf: "message_wf depth d" and s: "stream_recv recv incoming view" and "incoming c = f @ rest"
    and "encode_frame d = Inr f"
  shows "\<exists>c'. read_message depth recv c = (Inr (Some d), c') \<and> incoming c' = rest \<and> view c' = view c"
proof -
  let ?b = "map byte_of (dumps (JObj d))"
  obtain c1 where h: "recv_some recv 4 [] c = (Inr (Some (be_bytes 4 (length (dumps (JObj d))))), c1)"
      "incoming c1 = ?b @ rest" "view c1 = view c"
    using frame_parts [OF wf s assms(3,4)] by metis
  note l = message_length [OF wf]
  obtain c2 where "recv_some recv (length (dumps (JObj d))) [] c1 = (Inr (Some ?b), c2)" "incoming c2 = rest"
      "view c2 = view c1"
    using recv_some_stream [OF s, of "[]" "length (dumps (JObj d))" c1] h(2) l(2) by auto
  with h l payload_decodes [OF wf] show ?thesis
    by (simp add: read_message_def)
qed

lemma enclave_reads_end:
  assumes "stream_recv recv incoming view" and "incoming c = []"
  shows "\<exists>c'. read_message depth recv c = (Inr None, c') \<and> incoming c' = [] \<and> view c' = view c"
  using recv_some_stream [OF assms(1), of "[]" 4 c] assms(2) by (auto simp: read_message_def)

text \<open>A socket in memory that delivers at most \<open>Suc k\<close> bytes at a time.\<close>

definition mem_recv :: "nat \<Rightarrow> nat \<Rightarrow> bytes \<times> bytes \<Rightarrow> bytes res \<times> (bytes \<times> bytes)" where
  "mem_recv k n c = (Inr (take (min n (Suc k)) (fst c)), (drop (min n (Suc k)) (fst c), snd c))"

lemma mem_stream: "stream_recv (mem_recv k) fst snd"
  by (auto simp: stream_recv_def mem_recv_def)

interpretation frame: codec "message_wf depth" encode_frame "\<lambda>b. fst (receive_response depth (mem_recv k) (b, []))" for depth k
proof
  fix d
  assume wf: "message_wf depth d"
  note e = encode_frame_wf [OF wf]
  show "\<exists>b. encode_frame d = Inr b \<and> fst (receive_response depth (mem_recv k) (b, [])) = Inr d"
    using host_reads_frame [OF wf mem_stream _ e, of _ "[]"] e by fastforce
qed

section \<open>Finding: cut frames\<close>

text \<open>
  When the peer closes in the middle of a frame, the enclave's reader returns the bytes it has:
  a payload cut short is parsed, and accepted if it happens to be a JSON object.
\<close>

lemma cut_frame_accepted:
  assumes wf: "message_wf depth d" and s: "stream_recv recv incoming view"
    and n: "length (dumps (JObj d)) < n" "n < 2 ^ 32"
    and "incoming c = be_bytes 4 n @ map byte_of (dumps (JObj d))"
  shows "\<exists>c'. read_message depth recv c = (Inr (Some d), c')"
proof -
  let ?b = "map byte_of (dumps (JObj d))"
  obtain c1 where h: "recv_some recv 4 [] c = (Inr (Some (be_bytes 4 n)), c1)" "incoming c1 = ?b"
    using recv_some_stream [OF s, of "[]" 4 c] assms(5) by auto
  obtain c2 where "recv_some recv n [] c1 = (Inr (Some ?b), c2)"
    using recv_some_stream [OF s, of "[]" n c1] h(2) n message_length(2) [OF wf] by auto
  moreover have "unpack_length (be_bytes 4 n) = Inr n" using n(2) by (simp add: unpack_length_def)
  ultimately show ?thesis using h n payload_decodes [OF wf] by (simp add: read_message_def)
qed

section \<open>Properties\<close>

text \<open>C21. A frame written by either end is read back by both readers as the message it
  carries, and the bytes after it stay unread, for every division of the stream into chunks.\<close>

theorem frame_round_trip:
  assumes "message_wf depth d" and "encode_frame d = Inr f"
    and "stream_recv recv incoming view" and "incoming c = f @ rest"
  shows "(\<exists>c'. receive_response depth recv c = (Inr d, c') \<and> incoming c' = rest \<and> view c' = view c)
    \<and> (\<exists>c'. read_message depth recv c = (Inr (Some d), c') \<and> incoming c' = rest \<and> view c' = view c)"
  using host_reads_frame [OF assms(1,3,4,2)] enclave_reads_frame [OF assms(1,3,4,2)] by blast

theorem frame_round_trip_witness:
  "\<exists>f. encode_frame [(U ''action'', JStr (U ''health''))] = Inr f
     \<and> fst (receive_response 2 (mem_recv 2) (f, [])) = Inr [(U ''action'', JStr (U ''health''))]"
proof -
  let ?d = "[(U ''action'', JStr (U ''health''))]"
  have wf: "message_wf 2 ?d" by (simp add: message_wf_def) (simp add: dump_str_def U_def escape_char_def)
  obtain f where f: "encode_frame ?d = Inr f" using frame.enc_total [OF wf] by blast
  have "fst (f, []) = f @ []" by simp
  from frame_round_trip [OF wf f mem_stream [of 2] this] f show ?thesis by auto
qed

end
