(* ===== verification/EnclaveServer.thy ===== *)
theory EnclaveServer
  imports Frames
begin

text \<open>
  \<open>enclave/server.py\<close>: the RPC server of the enclave. \<open>dispatch\<close> answers one request over the
  inference engine; \<open>serve_loop\<close> is the loop of a connection, which may go on for ever. The
  engine and the world behind it (\<open>'w\<close>: KMS client, clock) are shared by the connections, a
  connection's socket has a world \<open>'c\<close> of its own.
\<close>

section \<open>Parameters\<close>

text \<open>
  The engine's library and KMS client, the clock, the recursion limit of the JSON parser and
  Python's \<open>repr\<close> of the value of a request's \<open>action\<close>, if it has one.
\<close>

record ('m, 'p, 'w) server =
  sv_lib :: "('m, 'p) model_lib"
  sv_kms :: "'w kms_methods"
  sv_perf_counter :: "'w \<Rightarrow> pyfloat \<times> 'w"
  sv_depth :: nat
  sv_repr :: "json option \<Rightarrow> ustr"

record 'c conn =
  sk_settimeout :: "pyfloat \<Rightarrow> 'c \<Rightarrow> unit res \<times> 'c"
  sk_recv :: "nat \<Rightarrow> 'c \<Rightarrow> bytes res \<times> 'c"
  sk_sendall :: "bytes \<Rightarrow> 'c \<Rightarrow> unit res \<times> 'c"
  sk_close :: "'c \<Rightarrow> unit res \<times> 'c"
  sk_stopped :: "'c \<Rightarrow> bool \<times> 'c"

section \<open>Requests and responses\<close>

definition error_message :: "ustr \<Rightarrow> ustr \<Rightarrow> message" where
  "error_message code text =
     [(U ''status'', JStr (U ''error'')), (U ''code'', JStr code), (U ''message'', JStr text)]"

definition json_float :: "json \<Rightarrow> pyfloat res" where
  \<comment> \<open>\<open>float(value)\<close>\<close>
  "json_float v =
     (case v of
        JBool b \<Rightarrow> Inr (Fin (if b then 1 else 0))
      | JInt i \<Rightarrow> float_of_int i
      | JFloat f \<Rightarrow> Inr f
      | JStr s \<Rightarrow> float_of_str s
      | _ \<Rightarrow> Inl TypeError)"

definition predict_failure :: "exn \<Rightarrow> message" where
  \<comment> \<open>the \<open>except\<close> clauses of \<open>_handle_predict\<close>, in order\<close>
  "predict_failure e =
     (if is_ValueError e \<or> e = TypeError
      then error_message (U ''INVALID_REQUEST'') (U ''features must contain only numeric values.'')
      else case e of
        ModelLoadError m \<Rightarrow> error_message (U ''DECRYPTION_FAILED'') m
      | ModelNotLoadedError m \<Rightarrow> error_message (U ''MODEL_NOT_FOUND'') m
      | FeatureDimensionMismatchError m \<Rightarrow> error_message (U ''FEATURE_DIMENSION_MISMATCH'') m
      | InferenceEngineError m \<Rightarrow> error_message (U ''INFERENCE_FAILED'') m
      | _ \<Rightarrow> error_message (U ''INTERNAL_ERROR'') (U ''Unexpected enclave inference failure.''))"

definition prediction_message :: "prediction \<Rightarrow> bool \<Rightarrow> message" where
  \<comment> \<open>the engine's dictionary with \<open>status\<close> added and \<open>served_from_cache\<close> replaced\<close>
  "prediction_message p served_from_cache =
     [(U ''prediction'', JFloat (pr_prediction p)), (U ''confidence'', JFloat (pr_confidence p)),
      (U ''latency_ms'', JFloat (pr_latency_ms p)), (U ''served_from_cache'', JBool served_from_cache),
      (U ''status'', JStr (U ''ok''))]"

definition predict_loaded :: "('m, 'p, 'w) server \<Rightarrow> ustr \<Rightarrow> json list \<Rightarrow> bool \<Rightarrow> 'm engine \<Rightarrow> 'w
    \<Rightarrow> message \<times> 'm engine \<times> 'w" where
  "predict_loaded sv model_name features served_from_cache en w =
     (case mapR json_float features of
        Inl e \<Rightarrow> (predict_failure e, en, w)
      | Inr values \<Rightarrow>
        (case engine_predict (sv_lib sv) (sv_perf_counter sv) model_name values en w of
           (Inl e, en', w') \<Rightarrow> (predict_failure e, en', w')
         | (Inr p, en', w') \<Rightarrow> (prediction_message p served_from_cache, en', w')))"

definition load_bundle :: "ustr \<Rightarrow> ustr \<Rightarrow> ustr \<Rightarrow> json \<Rightarrow> message" where
  "load_bundle tenant_id model_name encrypted_model_key encrypted_model_blob =
     [(U ''tenant_id'', JStr tenant_id), (U ''model_name'', JStr model_name),
      (U ''encrypted_model_key'', JStr encrypted_model_key), (U ''encrypted_model_blob'', encrypted_model_blob)]"

definition load_and_predict :: "('m, 'p, 'w) server \<Rightarrow> ustr \<Rightarrow> message \<Rightarrow> json list \<Rightarrow> 'm engine \<Rightarrow> 'w
    \<Rightarrow> message \<times> 'm engine \<times> 'w" where
  "load_and_predict sv model_name bundle features en w =
     (case utf8_encode (dumps (JObj bundle)) of
        Inl e \<Rightarrow> (predict_failure e, en, w)
      | Inr encoded \<Rightarrow>
        (case load_model (sv_lib sv) (sv_kms sv) (sv_depth sv) model_name encoded en w of
           (Inl e, en', w') \<Rightarrow> (predict_failure e, en', w')
         | (Inr _, en', w') \<Rightarrow> predict_loaded sv model_name features False en' w'))"

definition handle_predict :: "('m, 'p, 'w) server \<Rightarrow> message \<Rightarrow> 'm engine \<Rightarrow> 'w \<Rightarrow> message \<times> 'm engine \<times> 'w" where
  "handle_predict sv request en w =
     (case str_field request ''model_name'' of
        None \<Rightarrow> (error_message (U ''INVALID_REQUEST'') (U ''model_name is required.''), en, w)
      | Some model_name \<Rightarrow>
        if strip model_name = []
        then (error_message (U ''INVALID_REQUEST'') (U ''model_name is required.''), en, w)
        else case str_field request ''tenant_id'' of
          None \<Rightarrow> (error_message (U ''INVALID_REQUEST'') (U ''tenant_id is required.''), en, w)
        | Some tenant_id \<Rightarrow>
          if strip tenant_id = []
          then (error_message (U ''INVALID_REQUEST'') (U ''tenant_id is required.''), en, w)
          else case od_get request (U ''features'') of
            Some (JList features) \<Rightarrow>
              (let served_from_cache = is_model_loaded model_name en;
                   blob = (case od_get request (U ''encrypted_model_blob'') of Some v \<Rightarrow> v | None \<Rightarrow> JNull)
               in if blob \<noteq> JNull then
                    (case str_field request ''encrypted_model_key'' of
                       Some (k # key) \<Rightarrow> load_and_predict sv model_name (load_bundle tenant_id model_name (k # key) blob) features en w
                     | _ \<Rightarrow> (error_message (U ''INVALID_REQUEST'')
                              (U ''encrypted_model_key is required when encrypted_model_blob is provided.''), en, w))
                  else if \<not> served_from_cache then
                    (error_message (U ''MODEL_NOT_FOUND'')
                       (U ''Model is not loaded and no encrypted model blob was provided.''), en, w)
                  else predict_loaded sv model_name features served_from_cache en w)
          | _ \<Rightarrow> (error_message (U ''INVALID_REQUEST'') (U ''features must be a list of floats.''), en, w))"

definition dispatch :: "('m, 'p, 'w) server \<Rightarrow> message \<Rightarrow> 'm engine \<Rightarrow> 'w \<Rightarrow> message \<times> 'm engine \<times> 'w" where
  "dispatch sv request en w =
     (let action = od_get request (U ''action'')
      in if action = Some (JStr (U ''health'')) then
           ([(U ''status'', JStr (U ''ok'')),
             (U ''echo'', case od_get request (U ''echo'') of Some v \<Rightarrow> v | None \<Rightarrow> JStr (U ''ping'')),
             (U ''models_loaded'', JInt (int (length (list_loaded_models en))))], en, w)
         else if action = Some (JStr (U ''list_models'')) then
           ([(U ''status'', JStr (U ''ok'')), (U ''models'', JList (map JStr (list_loaded_models en)))], en, w)
         else if action = Some (JStr (U ''predict'')) then handle_predict sv request en w
         else (error_message (U ''INVALID_ACTION'') (U ''Unsupported action: '' @ sv_repr sv action), en, w))"

section \<open>A connection\<close>

definition write_message :: "'c conn \<Rightarrow> message \<Rightarrow> 'c \<Rightarrow> unit res \<times> 'c" where
  "write_message conn response c =
     (case encode_frame response of Inl e \<Rightarrow> (Inl e, c) | Inr frame \<Rightarrow> sk_sendall conn frame c)"

partial_function (option) serve_loop :: "('m, 'p, 'w) server \<Rightarrow> 'c conn \<Rightarrow> 'm engine \<Rightarrow> 'w \<Rightarrow> 'c
    \<Rightarrow> (unit res \<times> 'm engine \<times> 'w \<times> 'c) option" where
  "serve_loop sv conn en w c =
     (case sk_stopped conn c of (stopped, c1) \<Rightarrow>
      if stopped then Some (Inr (), en, w, c1)
      else (case read_message (sv_depth sv) (sk_recv conn) c1 of
          (Inl e, c2) \<Rightarrow> Some (Inl e, en, w, c2)
        | (Inr None, c2) \<Rightarrow> Some (Inr (), en, w, c2)
        | (Inr (Some request), c2) \<Rightarrow>
          (case dispatch sv request en w of (response, en', w') \<Rightarrow>
           (case write_message conn response c2 of
              (Inl e, c3) \<Rightarrow> Some (Inl e, en', w', c3)
            | (Inr _, c3) \<Rightarrow> serve_loop sv conn en' w' c3))))"

definition handle_connection :: "('m, 'p, 'w) server \<Rightarrow> 'c conn \<Rightarrow> ustr option \<Rightarrow> 'm engine \<Rightarrow> 'w \<Rightarrow> 'c
    \<Rightarrow> (unit res \<times> 'm engine \<times> 'w \<times> 'c) option" where
  \<comment> \<open>the third argument is the environment variable of the socket timeout\<close>
  "handle_connection sv conn env en w c =
     (case float_of_str (case env of Some s \<Rightarrow> s | None \<Rightarrow> U ''30'') of
        Inl e \<Rightarrow> Some (Inl e, en, w, c)
      | Inr timeout \<Rightarrow>
        (case sk_settimeout conn timeout c of
           (Inl e, c1) \<Rightarrow> Some (Inl e, en, w, c1)
         | (Inr _, c1) \<Rightarrow>
           (case serve_loop sv conn en w c1 of
              None \<Rightarrow> None
            | Some (_, en', w', c2) \<Rightarrow>
              (case sk_close conn c2 of
                 (Inl e, c3) \<Rightarrow> Some (if is_OSError e then Inr () else Inl e, en', w', c3)
               | (Inr _, c3) \<Rightarrow> Some (Inr (), en', w', c3)))))"

definition create_inference_engine :: "ustr option \<Rightarrow> ustr option \<Rightarrow> 'm engine res" where
  \<comment> \<open>the KMS client's constructor has no parameter \<open>region\<close>, so calling it raises\<close>
  "create_inference_engine env_proxy_port env_proxy_cid =
     bindR (int_of_str (case env_proxy_port of Some s \<Rightarrow> s | None \<Rightarrow> U ''8000'')) (\<lambda>_.
     bindR (int_of_str (case env_proxy_cid of Some s \<Rightarrow> s | None \<Rightarrow> U ''3'')) (\<lambda>_. Inl TypeError))"

section \<open>Dispatch\<close>

lemma engine_run_trans:
  "engine_run lib depth en' evs' en'' \<Longrightarrow> engine_run lib depth en evs en' \<Longrightarrow> engine_run lib depth en (evs @ evs') en''"
  by (induction rule: engine_run.induct) (auto simp flip: append_assoc intro: engine_run.intros)

definition error_codes :: "ustr list" where
  "error_codes = map U [''INVALID_ACTION'', ''INVALID_REQUEST'', ''DECRYPTION_FAILED'', ''MODEL_NOT_FOUND'',
     ''FEATURE_DIMENSION_MISMATCH'', ''INFERENCE_FAILED'', ''INTERNAL_ERROR'']"

definition error_shape :: "message \<Rightarrow> bool" where
  "error_shape d \<longleftrightarrow> (\<exists>code text. d = error_message code text \<and> code \<in> set error_codes)"

definition prediction_shape :: "message \<Rightarrow> bool" where
  "prediction_shape d \<longleftrightarrow> (\<exists>p served. d = prediction_message p served)"

lemma error_shape_codes:
  "error_shape (error_message (U ''INVALID_ACTION'') t)"
  "error_shape (error_message (U ''INVALID_REQUEST'') t)"
  "error_shape (error_message (U ''DECRYPTION_FAILED'') t)"
  "error_shape (error_message (U ''MODEL_NOT_FOUND'') t)"
  "error_shape (error_message (U ''FEATURE_DIMENSION_MISMATCH'') t)"
  "error_shape (error_message (U ''INFERENCE_FAILED'') t)"
  "error_shape (error_message (U ''INTERNAL_ERROR'') t)"
  by (auto simp: error_shape_def error_codes_def)

lemma predict_failure_shape: "error_shape (predict_failure e)"
  by (cases e) (simp_all add: predict_failure_def error_shape_codes)

lemma predict_loaded_shape:
  assumes "predict_loaded sv name features served en w = (d, en', w')"
  shows "error_shape d \<or> prediction_shape d" and "\<exists>evs. engine_run (sv_lib sv) (sv_depth sv) en evs en'"
  using assms engine_run.start engine_predict_run
  by (fastforce simp: predict_loaded_def predict_failure_shape prediction_shape_def split: sum.splits prod.splits)+

lemma load_and_predict_shape:
  assumes "load_and_predict sv name bundle features en w = (d, en', w')"
  shows "(error_shape d \<or> prediction_shape d) \<and> (\<exists>evs. engine_run (sv_lib sv) (sv_depth sv) en evs en')"
proof (cases "utf8_encode (dumps (JObj bundle))")
  case (Inl e)
  with assms show ?thesis by (auto simp: load_and_predict_def predict_failure_shape intro: engine_run.start)
next
  case (Inr b)
  obtain r en1 w1 where l: "load_model (sv_lib sv) (sv_kms sv) (sv_depth sv) name b en w = (r, en1, w1)"
    by (cases "load_model (sv_lib sv) (sv_kms sv) (sv_depth sv) name b en w")
  from load_model_run [OF l] obtain evs where evs: "engine_run (sv_lib sv) (sv_depth sv) en evs en1" by blast
  show ?thesis
  proof (cases r)
    case (Inl e)
    with assms Inr l evs show ?thesis by (auto simp: load_and_predict_def predict_failure_shape)
  next
    case (Inr u)
    with assms \<open>utf8_encode _ = Inr b\<close> l have p: "predict_loaded sv name features False en1 w1 = (d, en', w')"
      by (simp add: load_and_predict_def)
    from predict_loaded_shape [OF p] evs show ?thesis using engine_run_trans by blast
  qed
qed

lemma handle_predict_shape:
  assumes "handle_predict sv request en w = (d, en', w')"
  shows "(error_shape d \<or> prediction_shape d) \<and> (\<exists>evs. engine_run (sv_lib sv) (sv_depth sv) en evs en')"
proof -
  note e = error_shape_codes
  have refused: ?thesis if "error_shape d" "en' = en"
    using that engine_run.start by blast
  from assms consider "error_shape d \<and> en' = en"
    | name features served where "predict_loaded sv name features served en w = (d, en', w')"
    | name load features where "load_and_predict sv name load features en w = (d, en', w')"
    by (auto simp: handle_predict_def e Let_def split: option.splits if_splits json.splits list.splits)
  then show ?thesis
  proof cases
    case 2
    from predict_loaded_shape [OF this] show ?thesis by simp
  next
    case 3
    then show ?thesis by (rule load_and_predict_shape)
  qed (use refused in blast)
qed

text \<open>The server of the repository cannot be started.\<close>

lemma server_cannot_start: "create_inference_engine port cid \<noteq> Inr en"
  by (simp add: create_inference_engine_def res_simps)

text \<open>
  A model cached under the name of a request answers it, whatever tenant, key and artifact the
  request brings, and the answer says it was not served from the cache.
\<close>

lemma cache_hit_not_reported:
  assumes "str_field request ''model_name'' = Some name" and "strip name \<noteq> []"
    and "str_field request ''tenant_id'' = Some tenant_id" and "strip tenant_id \<noteq> []"
    and "od_get request (U ''features'') = Some (JList features)"
    and "od_get request (U ''encrypted_model_blob'') = Some blob" and "blob \<noteq> JNull"
    and "str_field request ''encrypted_model_key'' = Some key" and "key \<noteq> []"
    and "json_wf blob" and "str_wf name" and "str_wf tenant_id" and "str_wf key"
    and "is_model_loaded (strip name) en"
  shows "handle_predict sv request en w = predict_loaded sv name features False (touch_model (strip name) en) w"
proof -
  obtain k ks where key: "key = k # ks" using assms(9) by (cases key) auto
  let ?d = "JObj (load_bundle tenant_id name key blob)"
  have wf: "json_wf ?d" using assms(10-13) by (simp add: load_bundle_def)
  have "dumps ?d \<noteq> []" by simp
  then have l: "load_model (sv_lib sv) (sv_kms sv) (sv_depth sv) name (map byte_of (dumps ?d)) en w
      = (Inr (), touch_model (strip name) en, w)"
    by (intro cached_model_skips_bundle assms(14,2)) simp
  have "load_and_predict sv name (load_bundle tenant_id name key blob) features en w
      = predict_loaded sv name features False (touch_model (strip name) en) w"
    unfolding load_and_predict_def dumps_bytes(1) [OF wf] by (simp add: l del: dumps.simps)
  with assms(1-8) key show ?thesis by (simp add: handle_predict_def Let_def)
qed

section \<open>A connection over a stream\<close>

fun answers :: "('m, 'p, 'w) server \<Rightarrow> message list \<Rightarrow> 'm engine \<Rightarrow> 'w \<Rightarrow> message list \<times> 'm engine \<times> 'w" where
  \<comment> \<open>the requests one after the other, the engine passed on\<close>
  "answers sv [] en w = ([], en, w)"
| "answers sv (request # requests) en w =
     (case dispatch sv request en w of (response, en1, w1) \<Rightarrow>
      case answers sv requests en1 w1 of (responses, en2, w2) \<Rightarrow> (response # responses, en2, w2))"

definition frames_of :: "message list \<Rightarrow> bytes list \<Rightarrow> bool" where
  "frames_of ds fs \<longleftrightarrow> list_all2 (\<lambda>d f. encode_frame d = Inr f) ds fs"

text \<open>
  What the server relies on of a socket while nobody asks it to stop: \<open>recv\<close> as in the frames,
  \<open>sendall\<close> appends to what the peer receives.
\<close>

definition conn_ok :: "'c conn \<Rightarrow> ('c \<Rightarrow> bytes) \<Rightarrow> ('c \<Rightarrow> bytes) \<Rightarrow> bool" where
  "conn_ok conn incoming outgoing \<longleftrightarrow> stream_recv (sk_recv conn) incoming outgoing
     \<and> (\<forall>b c. \<exists>c'. sk_sendall conn b c = (Inr (), c') \<and> incoming c' = incoming c \<and> outgoing c' = outgoing c @ b)
     \<and> (\<forall>c. \<exists>c'. sk_stopped conn c = (False, c') \<and> incoming c' = incoming c \<and> outgoing c' = outgoing c)"

lemma conn_okD:
  assumes "conn_ok conn incoming outgoing"
  shows "stream_recv (sk_recv conn) incoming outgoing"
    and "\<exists>c'. sk_sendall conn b c = (Inr (), c') \<and> incoming c' = incoming c \<and> outgoing c' = outgoing c @ b"
    and "\<exists>c'. sk_stopped conn c = (False, c') \<and> incoming c' = incoming c \<and> outgoing c' = outgoing c"
  using assms by (auto simp: conn_ok_def)

lemma serve_stream:
  assumes "conn_ok conn incoming outgoing"
  shows "list_all (message_wf (sv_depth sv)) requests \<Longrightarrow> frames_of requests fs \<Longrightarrow> incoming c = concat fs
    \<Longrightarrow> answers sv requests en w = (responses, en', w') \<Longrightarrow> frames_of responses gs
    \<Longrightarrow> \<exists>c'. serve_loop sv conn en w c = Some (Inr (), en', w', c') \<and> incoming c' = []
        \<and> outgoing c' = outgoing c @ concat gs"
proof (induction requests arbitrary: fs gs c en w responses)
  case Nil
  then have e: "incoming c = []" "gs = []" "en' = en" "w' = w" by (auto simp: frames_of_def)
  obtain c1 where c1: "sk_stopped conn c = (False, c1)" "incoming c1 = []" "outgoing c1 = outgoing c"
    using conn_okD(3) [OF assms, of c] e by auto
  obtain c2 where "read_message (sv_depth sv) (sk_recv conn) c1 = (Inr None, c2)" "incoming c2 = []"
      "outgoing c2 = outgoing c1"
    using enclave_reads_end [OF conn_okD(1) [OF assms] c1(2)] by blast
  with c1 e show ?case by (subst serve_loop.simps) simp
next
  case (Cons request requests)
  obtain f fs' where fs: "fs = f # fs'" "encode_frame request = Inr f" "frames_of requests fs'"
    using Cons.prems(2) by (auto simp: frames_of_def list_all2_Cons1)
  obtain response en1 w1 where d: "dispatch sv request en w = (response, en1, w1)"
    by (cases "dispatch sv request en w")
  obtain rs where rs: "answers sv requests en1 w1 = (rs, en', w')" "responses = response # rs"
    using Cons.prems(4) d by (auto split: prod.splits)
  obtain g gs' where gs: "gs = g # gs'" "encode_frame response = Inr g" "frames_of rs gs'"
    using Cons.prems(5) rs(2) by (auto simp: frames_of_def list_all2_Cons1)
  obtain c1 where c1: "sk_stopped conn c = (False, c1)" "incoming c1 = f @ concat fs'" "outgoing c1 = outgoing c"
    using conn_okD(3) [OF assms, of c] Cons.prems(3) fs(1) by auto
  have wf: "message_wf (sv_depth sv) request" using Cons.prems(1) by simp
  obtain c2 where c2: "read_message (sv_depth sv) (sk_recv conn) c1 = (Inr (Some request), c2)"
      "incoming c2 = concat fs'" "outgoing c2 = outgoing c"
    using enclave_reads_frame [OF wf conn_okD(1) [OF assms] c1(2) fs(2)] c1(3) by auto
  obtain c3 where c3: "write_message conn response c2 = (Inr (), c3)" "incoming c3 = concat fs'"
      "outgoing c3 = outgoing c @ g"
    using conn_okD(2) [OF assms, of g c2] c2 gs(2) by (auto simp: write_message_def)
  have "list_all (message_wf (sv_depth sv)) requests" using Cons.prems(1) by simp
  from Cons.IH [OF this fs(3) c3(2) rs(1) gs(3)] obtain c4 where
    "serve_loop sv conn en1 w1 c3 = Some (Inr (), en', w', c4)" "incoming c4 = []"
    "outgoing c4 = outgoing c3 @ concat gs'" by blast
  with c1 c2 c3 d gs(1) show ?case by (subst serve_loop.simps) simp
qed

section \<open>Properties\<close>

text \<open>C20. The enclave answers every request: with a status of \<open>ok\<close>, or with an error
  of one of seven codes and a message. A predict request is answered by a prediction with its
  numbers or by an error, and whatever happens to it leaves the engine in a state its cache's
  steps reach; no other request changes the engine or asks the KMS.\<close>

theorem dispatch_protocol:
  "case dispatch sv request en w of (d, en', w') \<Rightarrow>
     (str_field d ''status'' = Some (U ''ok'') \<or> error_shape d)
   \<and> (if od_get request (U ''action'') = Some (JStr (U ''predict''))
      then (error_shape d \<or> prediction_shape d) \<and> (\<exists>evs. engine_run (sv_lib sv) (sv_depth sv) en evs en')
      else en' = en \<and> w' = w)"
proof -
  obtain d en' w' where d: "dispatch sv request en w = (d, en', w')" by (cases "dispatch sv request en w")
  have ok: "str_field e ''status'' = Some (U ''ok'')" if "prediction_shape e" for e
    using that by (auto simp: prediction_shape_def prediction_message_def str_field_def od_get_def)
  show ?thesis
  proof (cases "od_get request (U ''action'') = Some (JStr (U ''predict''))")
    case True
    with d have "handle_predict sv request en w = (d, en', w')" by (simp add: dispatch_def)
    from handle_predict_shape [OF this] ok True show ?thesis by (auto simp: d)
  next
    case False
    with d show ?thesis
      by (auto simp: dispatch_def Let_def str_field_def od_get_def error_shape_codes split: if_splits)
  qed
qed

text \<open>C12. A connection whose peer sends well-formed requests and closes gets
  one response per request, in order, each computed by \<open>dispatch\<close> in the state the previous one
  left; then the loop ends, having consumed all of the input. This holds for any division of the
  byte stream into chunks.\<close>

theorem connection_answers_requests:
  assumes "conn_ok conn incoming outgoing" and "list_all (message_wf (sv_depth sv)) requests"
    and "frames_of requests fs" and "incoming c = concat fs"
    and "answers sv requests en w = (responses, en', w')" and "frames_of responses gs"
  shows "\<exists>c'. serve_loop sv conn en w c = Some (Inr (), en', w', c') \<and> incoming c' = []
      \<and> outgoing c' = outgoing c @ concat gs"
  by (rule serve_stream [OF assms])

definition mem_conn :: "nat \<Rightarrow> (bytes \<times> bytes) conn" where
  \<comment> \<open>a socket in memory, for the witnesses\<close>
  "mem_conn k = \<lparr>sk_settimeout = (\<lambda>t c. (Inr (), c)), sk_recv = mem_recv k,
     sk_sendall = (\<lambda>b c. (Inr (), (fst c, snd c @ b))), sk_close = (\<lambda>c. (Inr (), c)), sk_stopped = (\<lambda>c. (False, c))\<rparr>"

lemma mem_conn_ok: "conn_ok (mem_conn k) fst snd"
  by (simp add: conn_ok_def mem_conn_def mem_stream)

definition sample_server :: "(bytes, nat, unit) server" where
  "sample_server = \<lparr>sv_lib = sample_lib, sv_kms = NoDecryptMethod, sv_perf_counter = (\<lambda>w. (Fin 0, w)),
     sv_depth = 5, sv_repr = (\<lambda>v. [])\<rparr>"

definition sample_request :: message where
  "sample_request = [(U ''action'', JStr (U ''list_models''))]"

lemma sample_request_wf: "message_wf 5 sample_request"
  by (simp add: message_wf_def sample_request_def) (simp add: dump_str_def U_def escape_char_def)

lemma sample_response:
  "dispatch sample_server sample_request sample_loaded w
   = ([(U ''status'', JStr (U ''ok'')), (U ''models'', JList [JStr (U ''m'')])], sample_loaded, w)"
  by (simp add: dispatch_def sample_request_def od_get_def list_loaded_models_def sample_loaded_def)

lemma sample_response_wf: "message_wf 5 [(U ''status'', JStr (U ''ok'')), (U ''models'', JList [JStr (U ''m'')])]"
  by (simp add: message_wf_def) (simp add: dump_str_def U_def escape_char_def)

theorem connection_answers_requests_witness:
  "\<exists>f g. encode_frame sample_request = Inr f
   \<and> encode_frame [(U ''status'', JStr (U ''ok'')), (U ''models'', JList [JStr (U ''m'')])] = Inr g
   \<and> (\<exists>c'. serve_loop sample_server (mem_conn 2) sample_loaded () (f @ f, []) = Some (Inr (), sample_loaded, (), c')
        \<and> snd c' = g @ g)"
proof -
  obtain f where f: "encode_frame sample_request = Inr f" using frame.enc_total [OF sample_request_wf] by blast
  obtain g where g: "encode_frame [(U ''status'', JStr (U ''ok'')), (U ''models'', JList [JStr (U ''m'')])] = Inr g"
    using frame.enc_total [OF sample_response_wf] by blast
  have depth: "list_all (message_wf (sv_depth sample_server)) [sample_request, sample_request]"
    by (simp add: sample_server_def sample_request_wf)
  have sent: "frames_of [sample_request, sample_request] [f, f]" by (simp add: frames_of_def f)
  let ?d = "[(U ''status'', JStr (U ''ok'')), (U ''models'', JList [JStr (U ''m'')])]"
  have got: "frames_of [?d, ?d] [g, g]" by (simp add: frames_of_def g)
  have run: "answers sample_server [sample_request, sample_request] sample_loaded () = ([?d, ?d], sample_loaded, ())"
    by (simp add: sample_response)
  have "fst (f @ f, []) = concat [f, f]" by simp
  from connection_answers_requests [OF mem_conn_ok [of 2] depth sent this run got]
  show ?thesis using f g by fastforce
qed

end
