(* ===== verification/Logging.thy ===== *)
theory Logging
  imports JsonText
begin

text \<open>
  \<open>feature_store/utils/logger.py\<close>: the request-scoped logging context, the JSON lines of the
  formatter, and the configuration of the loggers. What \<open>logging\<close> computes itself (the message
  with its arguments, the text of a traceback) is part of the record.
\<close>

section \<open>The context of a request\<close>

record log_context =
  lc_request_id :: "ustr option"
  lc_tenant_id :: "ustr option"

definition no_context :: log_context where
  "no_context = \<lparr>lc_request_id = None, lc_tenant_id = None\<rparr>"

definition set_log_context :: "ustr option \<Rightarrow> ustr option \<Rightarrow> log_context \<Rightarrow> log_context" where
  "set_log_context request_id tenant_id ctx =
     (let ctx1 = (if request_id \<noteq> None then ctx\<lparr>lc_request_id := request_id\<rparr> else ctx)
      in if tenant_id \<noteq> None then ctx1\<lparr>lc_tenant_id := tenant_id\<rparr> else ctx1)"

definition clear_log_context :: "log_context \<Rightarrow> log_context" where
  "clear_log_context ctx = ctx\<lparr>lc_request_id := None, lc_tenant_id := None\<rparr>"

definition get_request_id :: "log_context \<Rightarrow> ustr option" where
  "get_request_id ctx = lc_request_id ctx"

definition get_tenant_id :: "log_context \<Rightarrow> ustr option" where
  "get_tenant_id ctx = lc_tenant_id ctx"

lemma clear_log_context [simp]: "clear_log_context ctx = no_context"
  by (simp add: clear_log_context_def no_context_def)

section \<open>Log lines\<close>

text \<open>The attributes \<open>request_id\<close> and \<open>tenant_id\<close> of a record may be missing; \<open>filter\<close> sets both.\<close>

record log_record =
  lr_levelname :: ustr
  lr_name :: ustr
  lr_message :: ustr
  lr_exception :: "ustr option"
  lr_request_id :: "ustr option option"
  lr_tenant_id :: "ustr option option"

definition context_filter :: "log_context \<Rightarrow> log_record \<Rightarrow> bool \<times> log_record" where
  "context_filter ctx record' =
     (True, record'\<lparr>lr_request_id := Some (get_request_id ctx), lr_tenant_id := Some (get_tenant_id ctx)\<rparr>)"

definition dump_member :: "ustr \<times> ustr \<Rightarrow> ustr" where
  "dump_member = (\<lambda>(k, v). dump_str k @ [58, 32] @ dump_str v)"

fun join_spaced :: "ustr list \<Rightarrow> ustr" where
  "join_spaced [] = []"
| "join_spaced [x] = x"
| "join_spaced (x # xs) = x @ [44, 32] @ join_spaced xs"

definition dumps_fields :: "(ustr, ustr) odict \<Rightarrow> ustr" where
  \<comment> \<open>\<open>json.dumps\<close> of a dictionary of strings with its default separators\<close>
  "dumps_fields d = [123] @ join_spaced (map dump_member d) @ [125]"

definition attribute :: "ustr \<Rightarrow> ustr option option \<Rightarrow> (ustr, ustr) odict" where
  \<comment> \<open>a field for a non-empty attribute\<close>
  "attribute name value = (case value of Some (Some (c # s)) \<Rightarrow> [(name, c # s)] | _ \<Rightarrow> [])"

definition log_payload :: "ustr \<Rightarrow> log_record \<Rightarrow> (ustr, ustr) odict" where
  "log_payload now record' =
     [(U ''timestamp'', now), (U ''level'', lr_levelname record'), (U ''logger'', lr_name record'),
      (U ''message'', lr_message record')]
     @ attribute (U ''request_id'') (lr_request_id record')
     @ attribute (U ''tenant_id'') (lr_tenant_id record')
     @ (case lr_exception record' of Some tb \<Rightarrow> [(U ''exception'', tb)] | None \<Rightarrow> [])"

definition format_record :: "ustr \<Rightarrow> log_record \<Rightarrow> ustr" where
  "format_record now record' = dumps_fields (log_payload now record')"

section \<open>The loggers\<close>

datatype log_handler = JsonHandler | OtherHandler ustr

record logger =
  lg_handlers :: "log_handler list"
  lg_filters :: "ustr list"
  lg_level :: ustr
  lg_propagate :: bool

record logging_state =
  ls_root :: logger
  ls_named :: "ustr \<Rightarrow> logger"
  ls_warnings :: bool

definition upper_char :: "nat \<Rightarrow> nat" where
  \<comment> \<open>\<open>str.upper\<close> for ASCII and for the two letters whose upper case is one ASCII letter\<close>
  "upper_char c = (if 97 \<le> c \<and> c \<le> 122 then c - 32 else if c = 0x131 then 73 else if c = 0x17F then 83 else c)"

definition upper_str :: "ustr \<Rightarrow> ustr" where
  "upper_str s = map upper_char s"

definition known_levels :: "ustr list" where
  "known_levels = map U [''CRITICAL'', ''FATAL'', ''ERROR'', ''WARNING'', ''WARN'', ''INFO'', ''DEBUG'', ''NOTSET'']"

definition set_level :: "ustr \<Rightarrow> logger \<Rightarrow> logger res" where
  "set_level level lg =
     (if level \<in> set known_levels then Inr (lg\<lparr>lg_level := level\<rparr>) else Inl (ValueError (U ''Unknown level'')))"

definition configure_named :: "ustr \<Rightarrow> logging_state \<Rightarrow> ustr \<Rightarrow> logging_state res" where
  "configure_named level st name =
     bindR (set_level (upper_str level) ((ls_named st name)\<lparr>lg_handlers := [], lg_propagate := True\<rparr>))
       (\<lambda>lg. Inr (st\<lparr>ls_named := (ls_named st)(name := lg)\<rparr>))"

definition configure_logging :: "ustr \<Rightarrow> logging_state \<Rightarrow> logging_state res" where
  "configure_logging level st =
     bindR (set_level (upper_str level) ((ls_root st)\<lparr>lg_handlers := [JsonHandler], lg_filters := []\<rparr>)) (\<lambda>root.
     bindR (foldR (configure_named level) (st\<lparr>ls_root := root\<rparr>) (map U [''uvicorn'', ''uvicorn.error'', ''uvicorn.access'']))
       (\<lambda>st'. Inr (st'\<lparr>ls_warnings := True\<rparr>)))"

lemma configured:
  assumes "configure_logging level st = Inr st'"
  shows "lg_handlers (ls_root st') = [JsonHandler]" and "lg_level (ls_root st') = upper_str level"
    and "lg_handlers (ls_named st' (U ''uvicorn.access'')) = []" and "lg_propagate (ls_named st' (U ''uvicorn.access''))"
  using assms
  by (auto simp: configure_logging_def configure_named_def set_level_def res_simps split: if_splits sum.splits)

section \<open>Lines are JSON\<close>

text \<open>No control character and nothing outside of ASCII is left in a dumped string.\<close>

definition printable :: "ustr \<Rightarrow> bool" where
  "printable s \<longleftrightarrow> (\<forall>c \<in> set s. 32 \<le> c \<and> c \<le> 126)"

lemma printable_simps [simp]:
  "printable []" "printable (c # s) \<longleftrightarrow> (32 \<le> c \<and> c \<le> 126) \<and> printable s" "printable (s @ t) \<longleftrightarrow> printable s \<and> printable t"
  by (auto simp: printable_def)

lemma printable_dump_str: "printable (dump_str s)"
proof -
  have "32 \<le> hex_digit m \<and> hex_digit m \<le> 126" if "m < 16" for m using that by (auto simp: hex_digit_def)
  then have "printable (hex4 n)" for n by (simp add: hex4_def)
  then have "printable (escape_char c)" for c by (simp add: escape_char_def u_escape_def)
  then have "printable (concat (map escape_char s))" by (induction s) simp_all
  then show ?thesis by (simp add: dump_str_def)
qed

lemma printable_join: "\<forall>x \<in> set xs. printable x \<Longrightarrow> printable (join_spaced xs)"
  by (induction xs rule: join_spaced.induct) auto

lemma printable_fields: "printable (dumps_fields d)"
  using printable_join [of "map dump_member d"]
  by (force simp: dumps_fields_def dump_member_def printable_dump_str)

lemma parse_string: "str_wf s \<Longrightarrow> parse_value (Suc d) (dump_str s @ r) = Inr (JStr s, r)"
  by (subst parse_value.simps(2)) (simp add: dump_str_def parse_str_dump)

lemma skip_ws_space [simp]: "skip_ws (32 # s) = skip_ws s"
  by (simp add: skip_ws_def json_ws_def)

lemma skip_ws_quote [simp]: "skip_ws (dump_str s @ r) = dump_str s @ r"
  by (simp add: dump_str_def)

lemma parse_members_fields:
  assumes "list_all (\<lambda>(k, v). str_wf k \<and> str_wf v) (m # ms)" and "length ms < n" and "distinct (map fst (acc @ m # ms))"
  shows "parse_members (parse_value (Suc d)) n (map (apsnd JStr) acc) (join_spaced (map dump_member (m # ms)) @ 125 # r)
    = Inr (map (apsnd JStr) (acc @ m # ms), r)"
  using assms
proof (induction ms arbitrary: m n acc)
  case Nil
  obtain k v where m: "m = (k, v)" by (cases m)
  from Nil obtain n' where "n = Suc n'" by (cases n) auto
  moreover have "od_set (map (apsnd JStr) acc) k (JStr v) = map (apsnd JStr) acc @ [(k, JStr v)]"
    using Nil.prems(3) by (intro od_set_new) (force simp: m)
  ultimately show ?case using Nil parse_string [of v d "125 # r"] parse_str_dump [of k "58 # 32 # dump_str v @ 125 # r"]
    by (simp add: m dump_member_def) (simp add: dump_str_def)
next
  case (Cons m' ms)
  obtain k v where m: "m = (k, v)" by (cases m)
  from Cons obtain n' where n: "n = Suc n'" "length ms < n'" by (cases n) auto
  have set: "od_set (map (apsnd JStr) acc) k (JStr v) = map (apsnd JStr) (acc @ [(k, v)])"
    using Cons.prems(3) by (subst od_set_new) (force simp: m)+
  let ?rest = "join_spaced (map dump_member (m' # ms)) @ 125 # r"
  have ws: "skip_ws ?rest = ?rest" by (cases ms) (auto simp: dump_member_def split: prod.split)
  have "parse_members (parse_value (Suc d)) n' (map (apsnd JStr) (acc @ [(k, v)])) ?rest
      = Inr (map (apsnd JStr) ((acc @ [(k, v)]) @ m' # ms), r)"
    using Cons.prems n(2) by (intro Cons.IH) (auto simp: m)
  then show ?case using Cons.prems(1) n(1) set ws parse_string [of v d "44 # 32 # ?rest"]
      parse_str_dump [of k "58 # 32 # dump_str v @ 44 # 32 # ?rest"]
    by (simp add: m dump_member_def) (simp add: dump_str_def)
qed

lemma length_join_spaced: "\<forall>x \<in> set xs. 0 < length x \<Longrightarrow> length xs \<le> length (join_spaced xs)"
  by (induction xs rule: join_spaced.induct) (auto simp: Suc_le_eq)

lemma loads_fields:
  assumes "list_all (\<lambda>(k, v). str_wf k \<and> str_wf v) d" and "distinct (map fst d)"
  shows "loads (Suc (Suc n)) (dumps_fields d) = Inr (JObj (map (apsnd JStr) d))"
proof (cases d)
  case Nil
  then show ?thesis
    by (simp add: loads_def dumps_fields_def skip_ws_def json_ws_def) (subst parse_value.simps(2), simp add: skip_ws_def)
next
  case (Cons m ms)
  obtain t where t: "join_spaced (map dump_member d) @ [125] = 34 # t"
    by (cases ms; cases m) (simp_all add: Cons dump_member_def dump_str_def)
  have "\<forall>x \<in> set (map dump_member d). 0 < length x" by (auto simp: dump_member_def)
  from length_join_spaced [OF this] have "length ms < length (123 # 34 # t)"
    unfolding t [symmetric] by (simp add: Cons)
  from parse_members_fields [OF assms(1) [unfolded Cons] this, of "[]" n "[]"] assms(2)
  have "parse_members (parse_value (Suc n)) (length (123 # 34 # t)) [] (34 # t) = Inr (map (apsnd JStr) d, [])"
    by (simp add: t Cons [symmetric] del: parse_members.simps)
  then have "parse_value (Suc (Suc n)) (123 # 34 # t) = Inr (JObj (map (apsnd JStr) d), [])"
    by (subst parse_value.simps(2)) (simp del: parse_members.simps)
  moreover have "dumps_fields d = 123 # 34 # t" using t by (simp add: dumps_fields_def)
  ultimately show ?thesis by (simp add: loads_def skip_ws_def json_ws_def)
qed

lemma payload_keys: "distinct (map fst (log_payload now record'))" "list_all (\<lambda>(k, v). str_wf k) (log_payload now record')"
  by (auto simp: log_payload_def attribute_def split: option.split list.split)

section \<open>Properties\<close>

text \<open>C40. Whatever a record's message, names and traceback contain, its log line
  consists of printable ASCII characters, so that no value can end the line; and the line is
  read back as one JSON object with exactly the record's fields.\<close>

theorem log_line_is_one_object:
  assumes "list_all (\<lambda>(k, v). str_wf v) (log_payload now record')"
  shows "printable (format_record now record')
    \<and> loads (Suc (Suc n)) (format_record now record') = Inr (JObj (map (apsnd JStr) (log_payload now record')))"
proof -
  have "list_all (\<lambda>(k, v). str_wf k \<and> str_wf v) (log_payload now record')"
    using assms payload_keys(2) [of now record'] by (auto simp: list_all_iff)
  from loads_fields [OF this payload_keys(1)] show ?thesis by (simp add: format_record_def printable_fields)
qed

theorem log_line_is_one_object_witness:
  "printable (format_record (U ''now'') \<lparr>lr_levelname = U ''INFO'', lr_name = U ''app'', lr_message = [97, 10, 34, 125],
       lr_exception = None, lr_request_id = Some (Some (U ''r'')), lr_tenant_id = Some None\<rparr>)
   \<and> loads 2 (format_record (U ''now'') \<lparr>lr_levelname = U ''INFO'', lr_name = U ''app'', lr_message = [97, 10, 34, 125],
       lr_exception = None, lr_request_id = Some (Some (U ''r'')), lr_tenant_id = Some None\<rparr>)
     = Inr (JObj [(U ''timestamp'', JStr (U ''now'')), (U ''level'', JStr (U ''INFO'')), (U ''logger'', JStr (U ''app'')),
         (U ''message'', JStr [97, 10, 34, 125]), (U ''request_id'', JStr (U ''r''))])"
proof -
  let ?r = "\<lparr>lr_levelname = U ''INFO'', lr_name = U ''app'', lr_message = [97, 10, 34, 125],
       lr_exception = None, lr_request_id = Some (Some (U ''r'')), lr_tenant_id = Some None\<rparr>"
  have p: "log_payload (U ''now'') ?r = [(U ''timestamp'', U ''now''), (U ''level'', U ''INFO''), (U ''logger'', U ''app''),
      (U ''message'', [97, 10, 34, 125]), (U ''request_id'', U ''r'')]"
    by (simp add: log_payload_def attribute_def U_def)
  have "str_wf [97, 10, 34, 125]" by (rule str_wf_latin) simp
  then have "list_all (\<lambda>(k, v). str_wf v) (log_payload (U ''now'') ?r)" by (simp add: p)
  from log_line_is_one_object [OF this, of 0] show ?thesis by (simp add: p numeral_2_eq_2)
qed

end
