(* ===== verification/EnclaveProcess.thy ===== *)
theory EnclaveProcess
  imports EnclaveServer Logging
begin

text \<open>
  The process around the connections of \<open>enclave/server.py\<close>: its console log, the construction of
  the server, the accept loop of \<open>serve_forever\<close> and \<open>stop\<close>, which the signal handler may run
  between any two actions of the loop. The loop is a machine with a program counter; the lemmas
  follow its runs.
\<close>

section \<open>The console log\<close>

definition enclave_payload :: "ustr \<Rightarrow> ustr \<Rightarrow> log_record \<Rightarrow> (ustr, ustr) odict" where
  \<comment> \<open>the time and the name of the record's thread are arguments\<close>
  "enclave_payload now thread record' =
     [(U ''timestamp'', now), (U ''level'', lr_levelname record'), (U ''logger'', lr_name record'),
      (U ''message'', lr_message record'), (U ''thread'', thread)]
     @ (case lr_exception record' of Some tb \<Rightarrow> [(U ''exception'', tb)] | None \<Rightarrow> [])"

definition enclave_format :: "ustr \<Rightarrow> ustr \<Rightarrow> log_record \<Rightarrow> ustr" where
  "enclave_format now thread record' = dumps_fields (enclave_payload now thread record')"

definition enclave_configure_logging :: "ustr option \<Rightarrow> logging_state \<Rightarrow> logging_state res" where
  \<comment> \<open>the root's filters stay; the first argument is the environment variable of the level\<close>
  "enclave_configure_logging env st =
     bindR (set_level (upper_str (case env of Some s \<Rightarrow> s | None \<Rightarrow> U ''INFO''))
         ((ls_root st)\<lparr>lg_handlers := [OtherHandler (U ''enclave'')]\<rparr>))
       (\<lambda>root. Inr (st\<lparr>ls_root := root\<rparr>))"

lemma enclave_log_line:
  assumes "list_all (\<lambda>(k, v). str_wf v) (enclave_payload now thread record')"
  shows "printable (enclave_format now thread record')"
    and "loads (Suc (Suc n)) (enclave_format now thread record') = Inr (JObj (map (apsnd JStr) (enclave_payload now thread record')))"
proof -
  have keys: "distinct (map fst (enclave_payload now thread record'))" "list_all (\<lambda>(k, v). str_wf k) (enclave_payload now thread record')"
    by (auto simp: enclave_payload_def split: option.split)
  then have "list_all (\<lambda>(k, v). str_wf k \<and> str_wf v) (enclave_payload now thread record')"
    using assms by (auto simp: list_all_iff)
  then show "loads (Suc (Suc n)) (enclave_format now thread record') = Inr (JObj (map (apsnd JStr) (enclave_payload now thread record')))"
    unfolding enclave_format_def by (rule loads_fields) (rule keys(1))
  show "printable (enclave_format now thread record')" by (simp add: enclave_format_def printable_fields)
qed

section \<open>The server object\<close>

record 'h process =
  ps_bind_cid :: int
  ps_port :: int
  ps_max_workers :: int
  ps_stop_event :: bool
  ps_server_socket :: "'h option"
  ps_executor_open :: bool

definition process_init :: "ustr option \<Rightarrow> int \<Rightarrow> int \<Rightarrow> int option \<Rightarrow> 'h process res" where
  \<comment> \<open>the executor refuses a number of workers that is not positive\<close>
  "process_init env bind_cid port max_workers =
     bindR (case max_workers of
         Some n \<Rightarrow> if n \<noteq> 0 then Inr n else int_of_str (case env of Some s \<Rightarrow> s | None \<Rightarrow> U ''8'')
       | None \<Rightarrow> int_of_str (case env of Some s \<Rightarrow> s | None \<Rightarrow> U ''8'')) (\<lambda>workers.
     if workers \<le> 0 then Inl (ValueError (U ''max_workers must be greater than 0''))
     else Inr \<lparr>ps_bind_cid = bind_cid, ps_port = port, ps_max_workers = workers, ps_stop_event = False,
               ps_server_socket = None, ps_executor_open = True\<rparr>)"

text \<open>
  The operating system's vsock sockets, and the executor's \<open>shutdown\<close>, which waits for the
  running connections. Sockets are handles \<open>'h\<close>.
\<close>

record ('h, 'w) process_os =
  po_has_vsock :: bool
  po_socket :: "'w \<Rightarrow> 'h res \<times> 'w"
  po_reuse_address :: "'h \<Rightarrow> 'w \<Rightarrow> unit res \<times> 'w"
  po_bind :: "'h \<Rightarrow> int \<Rightarrow> int \<Rightarrow> 'w \<Rightarrow> unit res \<times> 'w"
  po_listen :: "'h \<Rightarrow> int \<Rightarrow> 'w \<Rightarrow> unit res \<times> 'w"
  po_accept :: "'h \<Rightarrow> 'w \<Rightarrow> 'h res \<times> 'w"
  po_close :: "'h \<Rightarrow> 'w \<Rightarrow> unit res \<times> 'w"
  po_shutdown :: "'w \<Rightarrow> 'w"

datatype 'h process_event = Accepts 'h | Submits 'h | ClosesListener 'h | ShutsDown

definition open_listener :: "('h, 'w) process_os \<Rightarrow> ustr option \<Rightarrow> 'h process \<Rightarrow> 'w \<Rightarrow> 'h process res \<times> 'w" where
  \<comment> \<open>\<open>serve_forever\<close> up to its loop; the second argument is the environment variable of the backlog\<close>
  "open_listener os env p w =
     (if \<not> po_has_vsock os then (Inl (OtherError (U ''AF_VSOCK is not available in this Python runtime.'')), w)
      else case po_socket os w of (Inl e, w1) \<Rightarrow> (Inl e, w1)
       | (Inr h, w1) \<Rightarrow>
         (case po_reuse_address os h w1 of (Inl e, w2) \<Rightarrow> (Inl e, w2)
          | (Inr _, w2) \<Rightarrow>
            (case po_bind os h (ps_bind_cid p) (ps_port p) w2 of (Inl e, w3) \<Rightarrow> (Inl e, w3)
             | (Inr _, w3) \<Rightarrow>
               (case int_of_str (case env of Some s \<Rightarrow> s | None \<Rightarrow> U ''128'') of Inl e \<Rightarrow> (Inl e, w3)
                | Inr backlog \<Rightarrow>
                  (case po_listen os h backlog w3 of (Inl e, w4) \<Rightarrow> (Inl e, w4)
                   | (Inr _, w4) \<Rightarrow> (Inr (p\<lparr>ps_server_socket := Some h\<rparr>), w4))))))"

definition server_stop :: "('h, 'w) process_os \<Rightarrow> 'h process \<Rightarrow> 'w \<Rightarrow> unit res \<times> 'h process \<times> 'h process_event list \<times> 'w" where
  "server_stop os p w =
     (if ps_stop_event p then (Inr (), p, [], w)
      else let p1 = p\<lparr>ps_stop_event := True\<rparr> in
        case ps_server_socket p of
          None \<Rightarrow> (Inr (), p1\<lparr>ps_executor_open := False\<rparr>, [ShutsDown], po_shutdown os w)
        | Some h \<Rightarrow>
          (case po_close os h w of (r, w1) \<Rightarrow>
             (case r of
                Inl e \<Rightarrow>
                  if is_OSError e
                  then (Inr (), p1\<lparr>ps_server_socket := None, ps_executor_open := False\<rparr>, [ClosesListener h, ShutsDown], po_shutdown os w1)
                  else (Inl e, p1, [ClosesListener h], w1)
              | Inr _ \<Rightarrow> (Inr (), p1\<lparr>ps_server_socket := None, ps_executor_open := False\<rparr>, [ClosesListener h, ShutsDown],
                  po_shutdown os w1))))"

section \<open>The accept loop\<close>

text \<open>
  \<open>Checking\<close> is the loop's condition, \<open>Accepting\<close> the call of \<open>accept\<close>, \<open>Accepted\<close> the moment before
  \<open>submit\<close>, \<open>Finishing\<close> the \<open>finally\<close> clause with the way the loop was left, \<open>Ended\<close> the return or
  the exception of \<open>serve_forever\<close>.
\<close>

datatype 'h counter = Checking | Accepting | Accepted 'h | Finishing "unit res" | Ended "unit res"

definition left_by :: "exn \<Rightarrow> bool \<Rightarrow> 'h counter" where
  \<comment> \<open>an exception of \<open>accept\<close>, while stopping or not\<close>
  "left_by e stopping = Finishing (if is_OSError e \<and> stopping then Inr () else Inl e)"

definition interrupted :: "exn \<Rightarrow> 'h counter \<Rightarrow> 'h counter" where
  \<comment> \<open>an exception of the signal handler, which has set the stop event\<close>
  "interrupted e pc = (case pc of Finishing _ \<Rightarrow> Ended (Inl e) | Accepting \<Rightarrow> left_by e True | _ \<Rightarrow> Finishing (Inl e))"

definition submit_refused :: exn where
  "submit_refused = OtherError (U ''cannot schedule new futures after shutdown'')"

fun serve_next :: "('h, 'w) process_os \<Rightarrow> 'h \<Rightarrow> 'h process \<times> 'h counter \<times> 'w
    \<Rightarrow> 'h process_event list \<times> 'h process \<times> 'h counter \<times> 'w" where
  \<comment> \<open>the next action of the main thread; \<open>h\<close> is its local variable \<open>server_socket\<close>\<close>
  "serve_next os h (p, Checking, w) = ([], p, if ps_stop_event p then Finishing (Inr ()) else Accepting, w)"
| "serve_next os h (p, Accepting, w) =
     (case po_accept os h w of
        (Inl e, w') \<Rightarrow> ([], p, left_by e (ps_stop_event p), w')
      | (Inr c, w') \<Rightarrow> ([Accepts c], p, Accepted c, w'))"
| "serve_next os h (p, Accepted c, w) =
     (if ps_executor_open p then ([Submits c], p, Checking, w) else ([], p, Finishing (Inl submit_refused), w))"
| "serve_next os h (p, Finishing r, w) =
     (case server_stop os p w of
        (r', p', evs, w') \<Rightarrow> (evs, p', Ended (case r' of Inl e \<Rightarrow> Inl e | Inr _ \<Rightarrow> r), w'))"
| "serve_next os h (p, Ended r, w) = ([], p, Ended r, w)"

fun on_signal :: "('h, 'w) process_os \<Rightarrow> 'h process \<times> 'h counter \<times> 'w
    \<Rightarrow> 'h process_event list \<times> 'h process \<times> 'h counter \<times> 'w" where
  \<comment> \<open>\<open>_handle_shutdown\<close>, run by the main thread between two of its actions\<close>
  "on_signal os (p, Ended r, w) = ([], p, Ended r, w)"
| "on_signal os (p, pc, w) =
     (case server_stop os p w of
        (Inl e, p', evs, w') \<Rightarrow> (evs, p', interrupted e pc, w')
      | (Inr _, p', evs, w') \<Rightarrow> (evs, p', pc, w'))"

inductive serve_run :: "('h, 'w) process_os \<Rightarrow> 'h \<Rightarrow> 'h process \<times> 'h counter \<times> 'w \<Rightarrow> 'h process_event list
    \<Rightarrow> 'h process \<times> 'h counter \<times> 'w \<Rightarrow> bool" for os :: "('h, 'w) process_os" and h :: 'h where
  Start: "serve_run os h s [] s"
| Main: "serve_run os h s evs s' \<Longrightarrow> serve_next os h s' = (new, s'') \<Longrightarrow> serve_run os h s (evs @ new) s''"
| Signal: "serve_run os h s evs s' \<Longrightarrow> on_signal os s' = (new, s'') \<Longrightarrow> serve_run os h s (evs @ new) s''"

definition server_main :: "ustr option \<Rightarrow> ustr option \<Rightarrow> ustr option \<Rightarrow> ustr option \<Rightarrow> ustr option
    \<Rightarrow> ('m engine \<times> 'h process) res" where
  \<comment> \<open>\<open>main\<close> up to \<open>serve_forever\<close>, over its environment variables\<close>
  "server_main env_bind_cid env_port env_workers env_proxy_port env_proxy_cid =
     bindR (int_of_str (case env_bind_cid of Some s \<Rightarrow> s | None \<Rightarrow> U ''4294967295'')) (\<lambda>bind_cid.
     bindR (int_of_str (case env_port of Some s \<Rightarrow> s | None \<Rightarrow> U ''5005'')) (\<lambda>port.
     bindR (create_inference_engine env_proxy_port env_proxy_cid) (\<lambda>engine.
     bindR (process_init env_workers bind_cid port None) (\<lambda>p. Inr (engine, p)))))"

text \<open>No environment makes the process serve.\<close>

lemma server_main_fails: "server_main env_bind_cid env_port env_workers env_proxy_port env_proxy_cid \<noteq> Inr (engine, p)"
  using server_cannot_start by (auto simp: server_main_def res_simps)

section \<open>Shutdown\<close>

fun accepted :: "'h process_event list \<Rightarrow> 'h list" where
  "accepted [] = []"
| "accepted (Accepts c # evs) = c # accepted evs"
| "accepted (_ # evs) = accepted evs"

fun submitted :: "'h process_event list \<Rightarrow> 'h list" where
  "submitted [] = []"
| "submitted (Submits c # evs) = c # submitted evs"
| "submitted (_ # evs) = submitted evs"

fun closings :: "'h process_event list \<Rightarrow> 'h list" where
  "closings [] = []"
| "closings (ClosesListener h # evs) = h # closings evs"
| "closings (_ # evs) = closings evs"

lemma trace_append [simp]:
  "accepted (xs @ ys) = accepted xs @ accepted ys" "submitted (xs @ ys) = submitted xs @ submitted ys"
  "closings (xs @ ys) = closings xs @ closings ys"
proof -
  show "accepted (xs @ ys) = accepted xs @ accepted ys" by (induction xs rule: accepted.induct) simp_all
  show "submitted (xs @ ys) = submitted xs @ submitted ys" by (induction xs rule: submitted.induct) simp_all
  show "closings (xs @ ys) = closings xs @ closings ys" by (induction xs rule: closings.induct) simp_all
qed

text \<open>What the loop has accepted but not submitted.\<close>

fun in_hand :: "'h process \<Rightarrow> 'h counter \<Rightarrow> 'h list \<Rightarrow> bool" where
  "in_hand p (Accepted c) cs = (cs = [c])"
| "in_hand p (Finishing (Inl e)) cs = (cs = [] \<or> length cs = 1 \<and> ps_stop_event p)"
| "in_hand p (Ended (Inl e)) cs = (cs = [] \<or> length cs = 1 \<and> ps_stop_event p)"
| "in_hand p pc cs = (cs = [])"

definition serve_inv :: "'h \<Rightarrow> 'h process_event list \<Rightarrow> 'h process \<times> 'h counter \<times> 'w \<Rightarrow> bool" where
  "serve_inv h tr s \<longleftrightarrow> (case s of (p, pc, w) \<Rightarrow>
     (\<exists>cs. accepted tr = submitted tr @ cs \<and> in_hand p pc cs)
   \<and> closings tr = (if ps_stop_event p then [h] else [])
   \<and> (ps_stop_event p \<or> ps_server_socket p = Some h \<and> ps_executor_open p)
   \<and> (ps_stop_event p \<and> ps_executor_open p \<longrightarrow> (\<exists>e. pc = Finishing (Inl e) \<or> pc = Ended (Inl e)))
   \<and> count_list tr ShutsDown = (if ps_executor_open p then 0 else 1)
   \<and> submitted (takeWhile (\<lambda>ev. ev \<noteq> ShutsDown) tr) = submitted tr
   \<and> (\<forall>r. pc = Ended r \<longrightarrow> ps_stop_event p))"

text \<open>\<open>stop\<close> does nothing the second time, and otherwise closes the listener; unless that fails, it shuts the executor down.\<close>

lemma server_stop_cases:
  assumes "server_stop os p w = (r, p', evs, w')"
  obtains (again) "ps_stop_event p" "r = Inr ()" "p' = p" "evs = []" "w' = w"
    | (stopped) "\<not> ps_stop_event p" "r = Inr ()" "ps_stop_event p'" "\<not> ps_executor_open p'"
        "evs = map ClosesListener (case ps_server_socket p of Some h \<Rightarrow> [h] | None \<Rightarrow> []) @ [ShutsDown]"
    | (failed) e h where "\<not> ps_stop_event p" "r = Inl e" "\<not> is_OSError e" "p' = p\<lparr>ps_stop_event := True\<rparr>"
        "ps_server_socket p = Some h" "evs = [ClosesListener h]"
  using assms
  by (auto simp: server_stop_def Let_def split: if_splits option.splits prod.splits sum.splits)

lemma before_shutdown_append:
  "submitted (takeWhile (\<lambda>ev. ev \<noteq> ShutsDown) (tr @ new)) =
     (if count_list tr ShutsDown = 0 then submitted tr @ submitted (takeWhile (\<lambda>ev. ev \<noteq> ShutsDown) new)
      else submitted (takeWhile (\<lambda>ev. ev \<noteq> ShutsDown) tr))"
proof (cases "ShutsDown \<in> set tr")
  case True
  then show ?thesis by (simp add: count_list_0_iff)
next
  case False
  then have "takeWhile (\<lambda>ev. ev \<noteq> ShutsDown) (tr @ new) = tr @ takeWhile (\<lambda>ev. ev \<noteq> ShutsDown) new"
    by (intro takeWhile_append2) auto
  with False show ?thesis by (simp add: count_list_0_iff)
qed

lemma stop_inv:
  assumes "serve_inv h tr (p, pc, w)" and "server_stop os p w = (r, p', evs, w')"
    and "case r of Inl e \<Rightarrow> \<not> is_OSError e \<longrightarrow> (\<exists>e'. pc' = Finishing (Inl e') \<or> pc' = Ended (Inl e'))
      | Inr _ \<Rightarrow> (\<forall>e'. pc = Finishing (Inl e') \<longrightarrow> pc' = pc \<or> pc' = Ended (Inl e'))"
    and "\<And>cs. in_hand p pc cs \<Longrightarrow> in_hand p' pc' cs" and "\<forall>r. pc \<noteq> Ended r"
  shows "serve_inv h (tr @ evs) (p', pc', w'')"
  using assms(2)
proof (cases rule: server_stop_cases)
  case again
  with assms show ?thesis by (auto simp: serve_inv_def)
next
  case stopped
  with assms show ?thesis by (fastforce simp: serve_inv_def before_shutdown_append)
next
  case (failed e h')
  with assms show ?thesis by (fastforce simp: serve_inv_def before_shutdown_append)
qed

lemma stop_sets:
  assumes "server_stop os p w = (r, p', evs, w')"
  shows "ps_stop_event p'" and "r = Inl e \<Longrightarrow> \<not> is_OSError e"
  using assms by (cases rule: server_stop_cases; simp)+

lemma on_signal_inv:
  assumes "serve_inv h tr s" and "on_signal os s = (new, s')"
  shows "serve_inv h (tr @ new) s'"
proof -
  obtain p pc w where s: "s = (p, pc, w)" by (cases s)
  show ?thesis
  proof (cases "\<exists>r. pc = Ended r")
    case True
    with assms show ?thesis by (auto simp: s)
  next
    case False
    obtain r p' evs w' where stop: "server_stop os p w = (r, p', evs, w')" by (metis prod_cases4)
    define pc' where "pc' = (case r of Inl e \<Rightarrow> interrupted e pc | Inr _ \<Rightarrow> pc)"
    have "new = evs" "s' = (p', pc', w')"
      using assms(2) False stop by (cases pc; cases r; simp add: s pc'_def)+
    moreover have "in_hand p' pc' cs" if "in_hand p pc cs" for cs
      using that stop_sets [OF stop] False
      by (cases "(p, pc, cs)" rule: in_hand.cases) (auto simp: pc'_def interrupted_def left_by_def split: sum.splits)
    moreover have "case r of Inl e \<Rightarrow> \<not> is_OSError e \<longrightarrow> (\<exists>e'. pc' = Finishing (Inl e') \<or> pc' = Ended (Inl e'))
        | Inr _ \<Rightarrow> (\<forall>e'. pc = Finishing (Inl e') \<longrightarrow> pc' = pc \<or> pc' = Ended (Inl e'))"
      using False by (auto simp: pc'_def interrupted_def left_by_def split: sum.splits counter.splits)
    ultimately show ?thesis using stop_inv [OF assms(1) [unfolded s] stop, of pc' w'] False by blast
  qed
qed

lemma serve_next_inv:
  assumes "serve_inv h tr s" and "serve_next os h s = (new, s')"
  shows "serve_inv h (tr @ new) s'"
  using assms
proof (induction os h s rule: serve_next.induct)
  case (1 os h p w)
  then show ?case by (auto simp: serve_inv_def)
next
  case (2 os h p w)
  then show ?case by (fastforce simp: serve_inv_def before_shutdown_append left_by_def split: prod.splits sum.splits)
next
  case (3 os h p c w)
  then show ?case by (auto simp: serve_inv_def before_shutdown_append split: if_splits)
next
  case (4 os h p r w)
  obtain r' p' evs w' where stop: "server_stop os p w = (r', p', evs, w')" by (metis prod_cases4)
  let ?pc = "Ended (case r' of Inl e \<Rightarrow> Inl e | Inr _ \<Rightarrow> r)"
  have "in_hand p' ?pc cs" if "in_hand p (Finishing r) cs" for cs
    using that stop_sets [OF stop] by (cases r; cases r') auto
  moreover have "new = evs" "s' = (p', ?pc, w')" using 4(2) stop by simp_all
  ultimately show ?case using stop_inv [OF 4(1) stop, of ?pc w'] by (auto split: sum.splits)
next
  case (5 os h p r w)
  then show ?case by simp
qed

lemma serve_run_inv:
  assumes "serve_run os h s tr s'" and "serve_inv h [] s"
  shows "serve_inv h tr s'"
  using assms by (induction rule: serve_run.induct) (auto intro: serve_next_inv on_signal_inv)

text \<open>Once it is asked to stop, the main thread ends within four more actions.\<close>

fun actions_left :: "'h counter \<Rightarrow> nat" where
  "actions_left Accepting = 4"
| "actions_left (Accepted c) = 3"
| "actions_left Checking = 2"
| "actions_left (Finishing r) = 1"
| "actions_left (Ended r) = 0"

lemma stopping_progress:
  assumes "ps_stop_event p" and "serve_next os h (p, pc, w) = (new, p', pc', w')"
  shows "ps_stop_event p'" and "actions_left pc' \<le> actions_left pc - 1"
  using assms
  by (induction os h "(p, pc, w)" rule: serve_next.induct)
    (auto simp: left_by_def stop_sets split: if_splits prod.splits sum.splits dest: stop_sets)

fun serve_actions :: "nat \<Rightarrow> ('h, 'w) process_os \<Rightarrow> 'h \<Rightarrow> 'h process \<times> 'h counter \<times> 'w \<Rightarrow> 'h process \<times> 'h counter \<times> 'w" where
  "serve_actions 0 os h s = s"
| "serve_actions (Suc n) os h s = serve_actions n os h (snd (serve_next os h s))"

lemma stopping_ends:
  "ps_stop_event p \<Longrightarrow> actions_left pc \<le> n \<Longrightarrow> \<exists>p' r w'. serve_actions n os h (p, pc, w) = (p', Ended r, w')"
proof (induction n arbitrary: p pc w)
  case 0
  then show ?case by (cases pc) auto
next
  case (Suc n)
  obtain new p' pc' w' where s: "serve_next os h (p, pc, w) = (new, p', pc', w')" by (metis prod_cases4)
  from stopping_progress [OF Suc.prems(1) s] Suc.prems(2) show ?case by (simp add: s Suc.IH)
qed

lemma opened_inv:
  assumes "process_init env bind_cid port max_workers = Inr p0" and "open_listener os backlog p0 w0 = (Inr p1, w1)"
    and "ps_server_socket p1 = Some h"
  shows "serve_inv h [] (p1, Checking, w1)"
proof -
  have "\<not> ps_stop_event p0 \<and> ps_executor_open p0" using assms(1) by (auto simp: process_init_def res_simps split: if_splits)
  moreover have "\<exists>h'. p1 = p0\<lparr>ps_server_socket := Some h'\<rparr>"
    using assms(2) by (auto simp: open_listener_def split: if_splits prod.splits sum.splits)
  ultimately show ?thesis using assms(3) by (auto simp: serve_inv_def)
qed

section \<open>Properties\<close>


definition mem_os :: "(nat, nat list) process_os" where
  \<comment> \<open>for the witness: the world is the list of the connections that wait\<close>
  "mem_os = \<lparr>po_has_vsock = True, po_socket = (\<lambda>w. (Inr 0, w)), po_reuse_address = (\<lambda>h w. (Inr (), w)),
     po_bind = (\<lambda>h cid port w. (Inr (), w)), po_listen = (\<lambda>h n w. (Inr (), w)),
     po_accept = (\<lambda>h w. case w of [] \<Rightarrow> (Inl OSError, []) | c # cs \<Rightarrow> (Inr c, cs)),
     po_close = (\<lambda>h w. (Inr (), w)), po_shutdown = (\<lambda>w. w)\<rparr>"

definition mem_process :: "bool \<Rightarrow> nat process" where
  \<comment> \<open>before and after the stop\<close>
  "mem_process stopped = \<lparr>ps_bind_cid = 3, ps_port = 5005, ps_max_workers = 8, ps_stop_event = stopped,
     ps_server_socket = (if stopped then None else Some 0), ps_executor_open = \<not> stopped\<rparr>"

lemmas mem_defs = mem_os_def mem_process_def server_stop_def left_by_def Let_def

lemma mem_step:
  "serve_next mem_os 0 (mem_process b, Checking, w) = ([], mem_process b, if b then Finishing (Inr ()) else Accepting, w)"
  "serve_next mem_os 0 (mem_process b, Accepting, c # w) = ([Accepts c], mem_process b, Accepted c, w)"
  "serve_next mem_os 0 (mem_process True, Accepting, []) = ([], mem_process True, Finishing (Inr ()), [])"
  "serve_next mem_os 0 (mem_process False, Accepted c, w) = ([Submits c], mem_process False, Checking, w)"
  "serve_next mem_os 0 (mem_process True, Accepted c, w) = ([], mem_process True, Finishing (Inl submit_refused), w)"
  "serve_next mem_os 0 (mem_process True, Finishing r, w) = ([], mem_process True, Ended r, w)"
  "on_signal mem_os (mem_process False, Accepting, w) = ([ClosesListener 0, ShutsDown], mem_process True, Accepting, w)"
  "on_signal mem_os (mem_process False, Accepted c, w) = ([ClosesListener 0, ShutsDown], mem_process True, Accepted c, w)"
  by (simp_all add: mem_defs)

lemma mem_init: "process_init None 3 5005 (Some 8) = Inr ((mem_process False)\<lparr>ps_server_socket := None\<rparr>)"
  "open_listener mem_os (Some (str_int 128)) ((mem_process False)\<lparr>ps_server_socket := None\<rparr>) w = (Inr (mem_process False), w)"
  by (simp add: process_init_def mem_process_def)
    (simp add: open_listener_def mem_os_def mem_process_def)

text \<open>A stop while \<open>accept\<close> waits: the connection that came before it has been submitted.\<close>

lemma mem_run: "serve_run mem_os 0 (mem_process False, Checking, [7])
    [Accepts 7, Submits 7, ClosesListener 0, ShutsDown] (mem_process True, Ended (Inr ()), [])"
proof -
  note run = serve_run.Start [of mem_os 0 "(mem_process False, Checking, [7])"]
  note run = serve_run.Main [OF run mem_step(1)]
  note run = serve_run.Main [OF run [simplified] mem_step(2)]
  note run = serve_run.Main [OF run mem_step(4)]
  note run = serve_run.Main [OF run mem_step(1)]
  note run = serve_run.Signal [OF run [simplified] mem_step(7)]
  note run = serve_run.Main [OF run mem_step(3)]
  note run = serve_run.Main [OF run mem_step(6)]
  then show ?thesis by simp
qed


text \<open>
  A signal between \<open>accept\<close> and \<open>submit\<close>: the connection is never served, and
  \<open>serve_forever\<close> ends with an exception of the executor.
\<close>

lemma shutdown_drops_connection: "serve_run mem_os 0 (mem_process False, Checking, [7])
    [Accepts 7, ClosesListener 0, ShutsDown] (mem_process True, Ended (Inl submit_refused), [])"
proof -
  note run = serve_run.Start [of mem_os 0 "(mem_process False, Checking, [7])"]
  note run = serve_run.Main [OF run mem_step(1)]
  note run = serve_run.Main [OF run [simplified] mem_step(2)]
  note run = serve_run.Signal [OF run mem_step(8)]
  note run = serve_run.Main [OF run mem_step(5)]
  note run = serve_run.Main [OF run mem_step(6)]
  then show ?thesis by simp
qed

end
