(* ===== verification/Dynamo.thy ===== *)
theory Dynamo
  imports Errors FloatRepr
begin

text \<open>
  \<open>feature_store/services/dynamo_service.py\<close>: the tenant-scoped access to the DynamoDB table,
  with the request and response models of \<open>feature_store/models\<close>. The boto3 table is a record
  of its calls over a world \<open>'w\<close>; what the code relies on of DynamoDB is the predicate
  \<open>dynamo_behaves\<close>, stated against an abstract table. Pydantic's field coercions and the
  ISO-8601 functions of \<open>datetime\<close> are a second record of arguments. The lemmas show which keys
  each operation touches, whatever the table does, and that over a table that behaves the
  operations refine a map from tenant and name to feature set.
\<close>

section \<open>Values and items\<close>

datatype decimal = Dec rat | DecPInf | DecNInf | DecNaN

datatype attr =
    AStr ustr
  | AFloat pyfloat
  | ADec decimal
  | AInt int
  | ABool bool
  | ANull
  | AList "attr list"
  | AMap "(ustr \<times> attr) list"
  | AOther

type_synonym item = "(ustr, attr) odict"
type_synonym item_key = "ustr \<times> ustr"

record 'dt tenant =
  tn_tenant_id :: ustr
  tn_api_key :: ustr
  tn_created_at :: 'dt
  tn_is_active :: bool
  tn_allowed_models :: "ustr list"

record feature_set_create =
  fc_tenant_id :: ustr
  fc_feature_set_name :: ustr
  fc_features :: "(ustr, pyfloat) odict"

record 'dt feature_set =
  fs_tenant_id :: ustr
  fs_feature_set_name :: ustr
  fs_features :: "(ustr, pyfloat) odict"
  fs_created_at :: 'dt
  fs_updated_at :: 'dt
  fs_version :: int

text \<open>
  Pydantic's coercion of a value to a field of type \<open>str\<close>, \<open>float\<close> and \<open>bool\<close>, \<open>datetime.now(UTC)\<close>,
  \<open>isoformat\<close> and \<open>fromisoformat\<close>.
\<close>

record 'dt py_lib =
  pl_str :: "attr \<Rightarrow> ustr option"
  pl_float :: "attr \<Rightarrow> pyfloat option"
  pl_isoformat :: "'dt \<Rightarrow> ustr"
  pl_fromisoformat :: "ustr \<Rightarrow> 'dt res"

definition library_error :: "exn \<Rightarrow> bool" where
  \<comment> \<open>the libraries raise none of the application's exceptions\<close>
  "library_error e = (case e of AppException _ _ \<Rightarrow> False | _ \<Rightarrow> True)"

definition lib_ok :: "'dt py_lib \<Rightarrow> bool" where
  \<comment> \<open>a string is accepted as a string, a float as a float, and written timestamps are read back\<close>
  "lib_ok lib \<longleftrightarrow> (\<forall>s. pl_str lib (AStr s) = Some s) \<and> (\<forall>f. pl_float lib (AFloat f) = Some f)
     \<and> (\<forall>d. pl_fromisoformat lib (pl_isoformat lib d) = Inr d)
     \<and> (\<forall>s e. pl_fromisoformat lib s = Inl e \<longrightarrow> library_error e)"

section \<open>The table\<close>

datatype condition = KeysAbsent | KeysPresent

record query_page =
  qp_items :: "item list"
  qp_last_key :: "item_key option"

record batch_response =
  br_items :: "item list"
  br_unprocessed :: "item_key list"

record 'w dynamo_api =
  dy_load :: "'w \<Rightarrow> unit res \<times> 'w"
  dy_put_item :: "item \<Rightarrow> condition \<Rightarrow> 'w \<Rightarrow> unit res \<times> 'w"
  dy_get_item :: "item_key \<Rightarrow> 'w \<Rightarrow> item option res \<times> 'w"
  dy_delete_item :: "item_key \<Rightarrow> condition \<Rightarrow> 'w \<Rightarrow> unit res \<times> 'w"
  dy_query :: "ustr \<Rightarrow> ustr \<Rightarrow> item_key option \<Rightarrow> 'w \<Rightarrow> query_page res \<times> 'w"
  dy_batch_get :: "item_key list \<Rightarrow> 'w \<Rightarrow> batch_response res \<times> 'w"

text \<open>All reads are made with \<open>ConsistentRead=True\<close>.\<close>

section \<open>Keys\<close>

definition FEATURE_PREFIX :: ustr where "FEATURE_PREFIX = U ''FEATURE_SET#''"
definition TENANT_PREFIX :: ustr where "TENANT_PREFIX = U ''TENANT#''"

definition feature_resource_id :: "ustr \<Rightarrow> ustr" where
  "feature_resource_id feature_set_name = FEATURE_PREFIX @ feature_set_name"

definition tenant_resource_id :: "ustr \<Rightarrow> ustr" where
  "tenant_resource_id tenant_id = TENANT_PREFIX @ tenant_id"

section \<open>Conversions\<close>

definition decimal_of_text :: "pyfloat \<Rightarrow> decimal" where
  \<comment> \<open>\<open>Decimal(str(value))\<close>\<close>
  "decimal_of_text f =
     (case f of
        PInf \<Rightarrow> DecPInf | NInf \<Rightarrow> DecNInf | NaN \<Rightarrow> DecNaN
      | Fin _ \<Rightarrow>
        (case float_repr f of [] \<Rightarrow> DecNaN
         | c # t \<Rightarrow>
           (case decimal_of_str (if c = 45 then t else c # t) of
              None \<Rightarrow> DecNaN | Some r \<Rightarrow> Dec (if c = 45 then - r else r))))"

fun float_of_decimal :: "decimal \<Rightarrow> pyfloat" where
  "float_of_decimal (Dec r) = round_float r"
| "float_of_decimal DecPInf = PInf"
| "float_of_decimal DecNInf = NInf"
| "float_of_decimal DecNaN = NaN"

fun to_decimal :: "attr \<Rightarrow> attr" where
  "to_decimal (AMap d) = AMap (map (\<lambda>(k, v). (k, to_decimal v)) d)"
| "to_decimal (AList xs) = AList (map to_decimal xs)"
| "to_decimal (AFloat f) = ADec (decimal_of_text f)"
| "to_decimal v = v"

fun from_decimal :: "attr \<Rightarrow> attr" where
  "from_decimal (AMap d) = AMap (map (\<lambda>(k, v). (k, from_decimal v)) d)"
| "from_decimal (AList xs) = AList (map from_decimal xs)"
| "from_decimal (ADec d) = AFloat (float_of_decimal d)"
| "from_decimal v = v"

definition parse_datetime :: "'dt py_lib \<Rightarrow> attr \<Rightarrow> 'dt res" where
  "parse_datetime lib v =
     (case v of
        AStr s \<Rightarrow> (case pl_fromisoformat lib s of
            Inl e \<Rightarrow> Inl (if is_ValueError e \<or> e = TypeError
                        then AppException DataStoreError (U ''Stored timestamp is invalid.'') else e)
          | Inr d \<Rightarrow> Inr d)
      | _ \<Rightarrow> Inl (AppException DataStoreError (U ''Stored timestamp is invalid.'')))"

definition item_at :: "item \<Rightarrow> string \<Rightarrow> attr res" where
  \<comment> \<open>\<open>item[name]\<close>\<close>
  "item_at item name = (case od_get item (U name) of None \<Rightarrow> Inl KeyError | Some v \<Rightarrow> Inr v)"

definition int_of_attr :: "attr \<Rightarrow> int res" where
  \<comment> \<open>\<open>int(v)\<close>\<close>
  "int_of_attr v =
     (case v of
        AInt i \<Rightarrow> Inr i
      | ABool b \<Rightarrow> Inr (if b then 1 else 0)
      | ADec (Dec r) \<Rightarrow> Inr (if r < 0 then - \<lfloor>- r\<rfloor> else \<lfloor>r\<rfloor>)
      | ADec DecNaN \<Rightarrow> Inl (ValueError (U ''cannot convert NaN to integer''))
      | ADec _ \<Rightarrow> Inl OverflowError
      | AStr s \<Rightarrow> int_of_str s
      | _ \<Rightarrow> Inl TypeError)"

definition validation_error :: exn where
  \<comment> \<open>pydantic's \<open>ValidationError\<close>, a subclass of \<open>ValueError\<close>\<close>
  "validation_error = ValueError (U ''validation error'')"

definition features_of :: "'dt py_lib \<Rightarrow> attr \<Rightarrow> (ustr, pyfloat) odict res" where
  \<comment> \<open>coercion to \<open>dict[str, float]\<close>\<close>
  "features_of lib v =
     (case v of
        AMap d \<Rightarrow> mapR (\<lambda>(k, x). case pl_float lib x of None \<Rightarrow> Inl validation_error | Some f \<Rightarrow> Inr (k, f)) d
      | _ \<Rightarrow> Inl validation_error)"

definition str_of :: "'dt py_lib \<Rightarrow> attr \<Rightarrow> ustr res" where
  "str_of lib v = (case pl_str lib v of None \<Rightarrow> Inl validation_error | Some s \<Rightarrow> Inr s)"

definition item_to_feature_response :: "'dt py_lib \<Rightarrow> item \<Rightarrow> 'dt feature_set res" where
  \<comment> \<open>the arguments are evaluated in order, then the model validates them\<close>
  "item_to_feature_response lib item =
     bindR (item_at item ''tenant_id'') (\<lambda>tenant_id.
     bindR (item_at item ''feature_set_name'') (\<lambda>name.
     bindR (item_at item ''features'') (\<lambda>features.
     bindR (item_at item ''created_at'') (\<lambda>created.
     bindR (parse_datetime lib created) (\<lambda>created_at.
     bindR (item_at item ''updated_at'') (\<lambda>updated.
     bindR (parse_datetime lib updated) (\<lambda>updated_at.
     bindR (item_at item ''version'') (\<lambda>v.
     bindR (int_of_attr v) (\<lambda>version.
     bindR (str_of lib tenant_id) (\<lambda>tenant_id'.
     bindR (str_of lib name) (\<lambda>name'.
     bindR (features_of lib (from_decimal features)) (\<lambda>features'.
       Inr \<lparr>fs_tenant_id = tenant_id', fs_feature_set_name = name', fs_features = features',
            fs_created_at = created_at, fs_updated_at = updated_at, fs_version = version\<rparr>))))))))))))"

section \<open>Operations\<close>

definition quote_name :: "string \<Rightarrow> ustr \<Rightarrow> string \<Rightarrow> ustr" where
  \<comment> \<open>an f-string with one quoted name\<close>
  "quote_name before name after = U before @ [39] @ name @ [39] @ U after"

definition check_connectivity :: "'w dynamo_api \<Rightarrow> 'w \<Rightarrow> bool res \<times> 'w" where
  "check_connectivity api w =
     (case dy_load api w of
        (Inr _, w') \<Rightarrow> (Inr True, w')
      | (Inl e, w') \<Rightarrow> (if is_boto_error e then Inr False else Inl e, w'))"

definition feature_item :: "'dt py_lib \<Rightarrow> 'dt \<Rightarrow> feature_set_create \<Rightarrow> item" where
  "feature_item lib now f =
     [(U ''tenant_id'', AStr (fc_tenant_id f)),
      (U ''resource_id'', AStr (feature_resource_id (fc_feature_set_name f))),
      (U ''entity_type'', AStr (U ''FEATURE_SET'')),
      (U ''feature_set_name'', AStr (fc_feature_set_name f)),
      (U ''features'', to_decimal (AMap (map (\<lambda>(k, v). (k, AFloat v)) (fc_features f)))),
      (U ''created_at'', AStr (pl_isoformat lib now)),
      (U ''updated_at'', AStr (pl_isoformat lib now)),
      (U ''version'', AInt 1)]"

definition condition_failed :: "exn \<Rightarrow> bool" where
  "condition_failed e \<longleftrightarrow> e = ClientError (Some (U ''ConditionalCheckFailedException''))"

definition put_feature_set :: "'dt py_lib \<Rightarrow> 'w dynamo_api \<Rightarrow> ('w \<Rightarrow> 'dt \<times> 'w) \<Rightarrow> feature_set_create \<Rightarrow> 'w
    \<Rightarrow> 'dt feature_set res \<times> 'w" where
  \<comment> \<open>the clock is \<open>datetime.now(UTC)\<close>\<close>
  "put_feature_set lib api clock f w =
     (case clock w of (now, w1) \<Rightarrow>
      case dy_put_item api (feature_item lib now f) KeysAbsent w1 of
        (Inl e, w2) \<Rightarrow>
          (Inl (if condition_failed e
                then AppException FeatureSetConflict
                  (quote_name ''Feature set '' (fc_feature_set_name f) '' already exists.'')
                else if is_boto_error e then AppException DataStoreError (U ''Failed to persist feature set.'')
                else e), w2)
      | (Inr _, w2) \<Rightarrow> (item_to_feature_response lib (feature_item lib now f), w2))"

definition get_feature_set :: "'dt py_lib \<Rightarrow> 'w dynamo_api \<Rightarrow> ustr \<Rightarrow> ustr \<Rightarrow> 'w
    \<Rightarrow> 'dt feature_set res \<times> 'w" where
  "get_feature_set lib api tenant_id feature_set_name w =
     (case dy_get_item api (tenant_id, feature_resource_id feature_set_name) w of
        (Inl e, w') \<Rightarrow>
          (Inl (if is_boto_error e then AppException DataStoreError (U ''Failed to read feature set.'') else e), w')
      | (Inr found, w') \<Rightarrow>
        (case found of
           Some (a # it) \<Rightarrow>
             (if od_get (a # it) (U ''entity_type'') = Some (AStr (U ''FEATURE_SET''))
              then item_to_feature_response lib (a # it)
              else Inl (AppException FeatureSetNotFound
                (quote_name ''Feature set '' feature_set_name '' was not found.'')), w')
         | _ \<Rightarrow> (Inl (AppException FeatureSetNotFound
                (quote_name ''Feature set '' feature_set_name '' was not found.'')), w')))"

text \<open>
  The \<open>while True\<close> over the pages of a query; \<open>None\<close> is a loop that never ends. The exceptions
  of the loop body are translated outside it.
\<close>

partial_function (option) query_pages :: "'w dynamo_api \<Rightarrow> ustr \<Rightarrow> item list \<Rightarrow> item_key option \<Rightarrow> 'w
    \<Rightarrow> (item list res \<times> 'w) option" where
  "query_pages api tenant_id items start w =
     (case dy_query api tenant_id FEATURE_PREFIX start w of
        (Inl e, w') \<Rightarrow> Some (Inl e, w')
      | (Inr page, w') \<Rightarrow>
        (case qp_last_key page of
           None \<Rightarrow> Some (Inr (items @ qp_items page), w')
         | Some k \<Rightarrow> query_pages api tenant_id (items @ qp_items page) (Some k) w'))"

definition list_feature_sets :: "'dt py_lib \<Rightarrow> 'w dynamo_api \<Rightarrow> ustr \<Rightarrow> 'w
    \<Rightarrow> ('dt feature_set list res \<times> 'w) option" where
  "list_feature_sets lib api tenant_id w =
     (case query_pages api tenant_id [] None w of
        None \<Rightarrow> None
      | Some (Inl e, w') \<Rightarrow>
        Some (Inl (if is_boto_error e then AppException DataStoreError (U ''Failed to list feature sets.'')
                   else e), w')
      | Some (Inr items, w') \<Rightarrow> Some (mapR (item_to_feature_response lib) items, w'))"

definition delete_feature_set :: "'w dynamo_api \<Rightarrow> ustr \<Rightarrow> ustr \<Rightarrow> 'w \<Rightarrow> unit res \<times> 'w" where
  "delete_feature_set api tenant_id feature_set_name w =
     (case dy_delete_item api (tenant_id, feature_resource_id feature_set_name) KeysPresent w of
        (Inl e, w') \<Rightarrow>
          (Inl (if condition_failed e
                then AppException FeatureSetNotFound
                  (quote_name ''Feature set '' feature_set_name '' was not found.'')
                else if is_boto_error e then AppException DataStoreError (U ''Failed to delete feature set.'')
                else e), w')
      | (Inr _, w') \<Rightarrow> (Inr (), w'))"

definition BATCH_RETRY_LIMIT :: nat where "BATCH_RETRY_LIMIT = 3"

function batch_loop :: "'w dynamo_api \<Rightarrow> nat \<Rightarrow> item list \<Rightarrow> item_key list \<Rightarrow> 'w \<Rightarrow> item list res \<times> 'w" where
  "batch_loop api retries raw_items keys w =
     (case dy_batch_get api keys w of
        (Inl e, w') \<Rightarrow>
          (Inl (if is_boto_error e then AppException DataStoreError (U ''Failed to batch-read feature sets.'')
                else e), w')
      | (Inr response, w') \<Rightarrow>
        if br_unprocessed response = [] then (Inr (raw_items @ br_items response), w')
        else if retries + 1 > BATCH_RETRY_LIMIT
        then (Inl (AppException DataStoreError (U ''Failed to batch-read feature sets.'')), w')
        else batch_loop api (retries + 1) (raw_items @ br_items response) (br_unprocessed response) w')"
  by pat_completeness auto
termination
  by (relation "measure (\<lambda>(_, retries, _). BATCH_RETRY_LIMIT - retries)") auto

declare batch_loop.simps [simp del]

definition by_name :: "'dt py_lib \<Rightarrow> item list \<Rightarrow> (attr, 'dt feature_set) odict res" where
  "by_name lib items =
     foldR (\<lambda>acc item.
       if od_get item (U ''entity_type'') = Some (AStr (U ''FEATURE_SET'')) then
         (case item_at item ''feature_set_name'' of Inl e \<Rightarrow> Inl e
          | Inr name \<Rightarrow>
            (case item_to_feature_response lib item of Inl e \<Rightarrow> Inl e
             | Inr fs \<Rightarrow> Inr (od_set acc name fs)))
       else Inr acc) [] items"

definition batch_get_feature_sets :: "'dt py_lib \<Rightarrow> 'w dynamo_api \<Rightarrow> ustr \<Rightarrow> ustr list \<Rightarrow> 'w
    \<Rightarrow> 'dt feature_set list res \<times> 'w" where
  "batch_get_feature_sets lib api tenant_id feature_set_names w =
     (if feature_set_names = [] then (Inr [], w)
      else case batch_loop api 0 [] (map (\<lambda>n. (tenant_id, feature_resource_id n)) feature_set_names) w of
        (Inl e, w') \<Rightarrow> (Inl e, w')
      | (Inr items, w') \<Rightarrow>
        (case by_name lib items of Inl e \<Rightarrow> (Inl e, w')
         | Inr found \<Rightarrow>
           (Inr (map (\<lambda>n. the (od_get found (AStr n)))
              (filter (\<lambda>n. od_get found (AStr n) \<noteq> None) feature_set_names)), w')))"

definition truthy :: "attr \<Rightarrow> bool" where
  \<comment> \<open>\<open>bool(v)\<close>\<close>
  "truthy v =
     (case v of
        AStr s \<Rightarrow> s \<noteq> [] | AFloat f \<Rightarrow> f \<noteq> Fin 0 | ADec d \<Rightarrow> d \<noteq> Dec 0 | AInt i \<Rightarrow> i \<noteq> 0
      | ABool b \<Rightarrow> b | ANull \<Rightarrow> False | AList xs \<Rightarrow> xs \<noteq> [] | AMap d \<Rightarrow> d \<noteq> [] | AOther \<Rightarrow> True)"

definition list_of :: "attr \<Rightarrow> attr list res" where
  \<comment> \<open>\<open>list(v)\<close>\<close>
  "list_of v =
     (case v of
        AList xs \<Rightarrow> Inr xs | AStr s \<Rightarrow> Inr (map (\<lambda>c. AStr [c]) s) | AMap d \<Rightarrow> Inr (map (AStr \<circ> fst) d)
      | _ \<Rightarrow> Inl TypeError)"

definition item_to_tenant :: "'dt py_lib \<Rightarrow> item \<Rightarrow> 'dt tenant res" where
  "item_to_tenant lib item =
     bindR (item_at item ''tenant_id'') (\<lambda>tenant_id.
     bindR (item_at item ''api_key'') (\<lambda>api_key.
     bindR (item_at item ''created_at'') (\<lambda>created.
     bindR (parse_datetime lib created) (\<lambda>created_at.
     bindR (case od_get item (U ''allowed_models'') of None \<Rightarrow> Inr [] | Some v \<Rightarrow> list_of v) (\<lambda>models.
     bindR (str_of lib tenant_id) (\<lambda>tenant_id'.
     bindR (str_of lib api_key) (\<lambda>api_key'.
     bindR (mapR (str_of lib) models) (\<lambda>models'.
       Inr \<lparr>tn_tenant_id = tenant_id', tn_api_key = api_key', tn_created_at = created_at,
            tn_is_active = truthy (case od_get item (U ''is_active'') of None \<Rightarrow> ABool True | Some v \<Rightarrow> v),
            tn_allowed_models = models'\<rparr>))))))))"

definition get_tenant_record :: "'dt py_lib \<Rightarrow> 'w dynamo_api \<Rightarrow> ustr \<Rightarrow> 'w \<Rightarrow> 'dt tenant res \<times> 'w" where
  "get_tenant_record lib api tenant_id w =
     (case dy_get_item api (tenant_id, tenant_resource_id tenant_id) w of
        (Inl e, w') \<Rightarrow>
          (Inl (if is_boto_error e then AppException DataStoreError (U ''Failed to read tenant record.'') else e), w')
      | (Inr found, w') \<Rightarrow>
        (case found of
           Some (a # it) \<Rightarrow>
             (if od_get (a # it) (U ''entity_type'') = Some (AStr (U ''TENANT''))
              then item_to_tenant lib (a # it)
              else Inl (AppException TenantNotFound (quote_name ''Tenant '' tenant_id '' was not found.'')), w')
         | _ \<Rightarrow> (Inl (AppException TenantNotFound (quote_name ''Tenant '' tenant_id '' was not found.'')), w')))"

section \<open>What the code relies on of DynamoDB\<close>

definition item_key_of :: "item \<Rightarrow> item_key option" where
  "item_key_of item =
     (case (od_get item (U ''tenant_id''), od_get item (U ''resource_id'')) of
        (Some (AStr t), Some (AStr r)) \<Rightarrow> Some (t, r)
      | _ \<Rightarrow> None)"

fun as_stored :: "attr \<Rightarrow> attr" where
  \<comment> \<open>numbers are read back as \<open>Decimal\<close>\<close>
  "as_stored (AMap d) = AMap (map (\<lambda>(k, v). (k, as_stored v)) d)"
| "as_stored (AList xs) = AList (map as_stored xs)"
| "as_stored (AInt i) = ADec (Dec (of_int i))"
| "as_stored v = v"

definition stored_item :: "item \<Rightarrow> item" where
  "stored_item item = map (\<lambda>(k, v). (k, as_stored v)) item"

type_synonym 'w table = "'w \<Rightarrow> item_key \<Rightarrow> item option"

text \<open>
  \<open>tbl w\<close> is the content of the table in world \<open>w\<close>; \<open>after w t p start\<close> are the items of
  partition \<open>t\<close> whose sort key begins with \<open>p\<close>, from a start key on, in the order of the
  sort key. A failed write may have been applied or not, unless it failed on its condition.
\<close>

definition reads_ok :: "'w dynamo_api \<Rightarrow> 'w table \<Rightarrow> bool" where
  "reads_ok api tbl \<longleftrightarrow>
     (\<forall>key w r w'. dy_get_item api key w = (r, w') \<longrightarrow>
        tbl w' = tbl w \<and> (case r of Inr found \<Rightarrow> found = tbl w key | Inl e \<Rightarrow> library_error e))"

definition writes_ok :: "'w dynamo_api \<Rightarrow> ('w \<Rightarrow> 'dt \<times> 'w) \<Rightarrow> 'w table \<Rightarrow> bool" where
  "writes_ok api clock tbl \<longleftrightarrow>
     (\<forall>w. tbl (snd (clock w)) = tbl w)
   \<and> (\<forall>item key w r w'. item_key_of item = Some key \<longrightarrow> dy_put_item api item KeysAbsent w = (r, w') \<longrightarrow>
        (tbl w' = tbl w \<or> (tbl w key = None \<and> tbl w' = (tbl w)(key \<mapsto> stored_item item)))
        \<and> (case r of
             Inr _ \<Rightarrow> tbl w key = None \<and> tbl w' = (tbl w)(key \<mapsto> stored_item item)
           | Inl e \<Rightarrow> condition_failed e \<longrightarrow> tbl w key \<noteq> None \<and> tbl w' = tbl w))
   \<and> (\<forall>key w r w'. dy_delete_item api key KeysPresent w = (r, w') \<longrightarrow>
        (tbl w' = tbl w \<or> tbl w' = (tbl w)(key := None))
        \<and> (case r of
             Inr _ \<Rightarrow> tbl w key \<noteq> None \<and> tbl w' = (tbl w)(key := None)
           | Inl e \<Rightarrow> condition_failed e \<longrightarrow> tbl w key = None \<and> tbl w' = tbl w))"

definition query_ok :: "'w dynamo_api \<Rightarrow> 'w table \<Rightarrow> ('w \<Rightarrow> ustr \<Rightarrow> ustr \<Rightarrow> item_key option \<Rightarrow> item list) \<Rightarrow> bool" where
  "query_ok api tbl after \<longleftrightarrow>
     (\<forall>w t p. set (after w t p None) = {item. \<exists>r. tbl w (t, p @ r) = Some item})
   \<and> (\<forall>w t p start page w'. dy_query api t p start w = (Inr page, w') \<longrightarrow>
        tbl w' = tbl w \<and> after w' = after w
        \<and> (case qp_last_key page of
             None \<Rightarrow> after w t p start = qp_items page
           | Some k \<Rightarrow> qp_items page \<noteq> [] \<and> after w t p start = qp_items page @ after w t p (Some k)))"

definition batch_ok :: "'w dynamo_api \<Rightarrow> 'w table \<Rightarrow> bool" where
  "batch_ok api tbl \<longleftrightarrow>
     (\<forall>keys w resp w'. dy_batch_get api keys w = (Inr resp, w') \<longrightarrow>
        tbl w' = tbl w \<and> set (br_unprocessed resp) \<subseteq> set keys
        \<and> (\<forall>item \<in> set (br_items resp). \<exists>k \<in> set keys. tbl w k = Some item)
        \<and> (\<forall>k \<in> set keys. \<forall>item. tbl w k = Some item \<longrightarrow> item \<in> set (br_items resp) \<or> k \<in> set (br_unprocessed resp)))"

section \<open>The abstract store\<close>

definition abs_store :: "'dt py_lib \<Rightarrow> (item_key \<Rightarrow> item option) \<Rightarrow> ustr \<Rightarrow> ustr \<Rightarrow> 'dt feature_set option" where
  "abs_store lib t tenant_id name =
     (case t (tenant_id, feature_resource_id name) of
        Some item \<Rightarrow>
          if od_get item (U ''entity_type'') = Some (AStr (U ''FEATURE_SET''))
          then (case item_to_feature_response lib item of Inr fs \<Rightarrow> Some fs | Inl _ \<Rightarrow> None)
          else None
      | None \<Rightarrow> None)"

section \<open>Floats survive the round trip through Decimal\<close>

definition float_ok :: "pyfloat \<Rightarrow> bool" where
  "float_ok f = (case f of Fin r \<Rightarrow> is_float r | _ \<Rightarrow> True)"

lemma decimal_round_trip:
  assumes "float_ok f"
  shows "float_of_decimal (decimal_of_text f) = f"
proof (cases f)
  case (Fin r)
  then have fl: "is_float r" using assms by (simp add: float_ok_def)
  consider "r = 0" | "0 < r" | "r < 0" by linarith
  then show ?thesis
  proof cases
    case 1
    have "decimal_of_str (U ''0.0'') = Some 0"
      by (simp add: decimal_of_str_def U_def split_at_def opt_digits_def decimal_exponent_def digit_def dec_val_def)
    with 1 Fin show ?thesis by (simp add: decimal_of_text_def U_def round_float_def)
  next
    case 2
    obtain q where q: "decimal_of_str (repr_pos r) = Some q" "round_float q = Fin r"
      using repr_pos_spec(4) [OF fl 2] by blast
    have "repr_pos r \<noteq> []" "hd (repr_pos r) \<noteq> 45" using repr_pos_spec(2,3) [OF fl 2] by (auto simp: digit_def)
    then obtain c t where "repr_pos r = c # t" "c \<noteq> 45" by (cases "repr_pos r") auto
    with 2 q Fin show ?thesis by (simp add: decimal_of_text_def)
  next
    case 3
    then have pos: "0 < - r" by simp
    obtain q where q: "decimal_of_str (repr_pos (- r)) = Some q" "round_float q = Fin (- r)"
      using repr_pos_spec(4) [OF is_float_minus [OF fl] pos] by blast
    from round_float_minus [OF q(2)] q(1) 3 Fin show ?thesis by (simp add: decimal_of_text_def)
  qed
qed (simp_all add: decimal_of_text_def)

section \<open>Operations over a table that behaves\<close>

definition created :: "'dt \<Rightarrow> feature_set_create \<Rightarrow> 'dt feature_set" where
  "created now f =
     \<lparr>fs_tenant_id = fc_tenant_id f, fs_feature_set_name = fc_feature_set_name f,
      fs_features = fc_features f, fs_created_at = now, fs_updated_at = now, fs_version = 1\<rparr>"

lemma features_round_trip:
  assumes "lib_ok lib" and "list_all (\<lambda>(k, v). float_ok v) d"
  shows "features_of lib (from_decimal (as_stored (to_decimal (AMap (map (\<lambda>(k, v). (k, AFloat v)) d))))) = Inr d"
    and "features_of lib (from_decimal (to_decimal (AMap (map (\<lambda>(k, v). (k, AFloat v)) d)))) = Inr d"
proof -
  have "mapR (\<lambda>(k, x). case pl_float lib x of None \<Rightarrow> Inl validation_error | Some f \<Rightarrow> Inr (k, f))
      (map (\<lambda>x. (fst x, AFloat (float_of_decimal (decimal_of_text (snd x))))) d) = Inr d"
    using assms by (induction d) (auto simp: lib_ok_def decimal_round_trip)
  then show "features_of lib (from_decimal (as_stored (to_decimal (AMap (map (\<lambda>(k, v). (k, AFloat v)) d))))) = Inr d"
    "features_of lib (from_decimal (to_decimal (AMap (map (\<lambda>(k, v). (k, AFloat v)) d)))) = Inr d"
    unfolding features_of_def by (simp_all add: case_prod_unfold o_def)
qed

lemma feature_item_fields:
  "od_get (feature_item lib now f) (U ''entity_type'') = Some (AStr (U ''FEATURE_SET''))"
  "item_key_of (feature_item lib now f) = Some (fc_tenant_id f, feature_resource_id (fc_feature_set_name f))"
  by (simp_all add: feature_item_def item_key_of_def od_get_def del: to_decimal.simps)

lemma feature_item_response:
  assumes "lib_ok lib" and "list_all (\<lambda>(k, v). float_ok v) (fc_features f)"
  shows "item_to_feature_response lib (feature_item lib now f) = Inr (created now f)"
    and "item_to_feature_response lib (stored_item (feature_item lib now f)) = Inr (created now f)"
  using assms features_round_trip [OF assms]
  by (simp_all add: item_to_feature_response_def feature_item_def stored_item_def item_at_def od_get_def
      parse_datetime_def lib_ok_def int_of_attr_def str_of_def created_def
      del: to_decimal.simps as_stored.simps(1) from_decimal.simps(1))

lemma stored_entity: "od_get (stored_item (feature_item lib now f)) (U ''entity_type'') = Some (AStr (U ''FEATURE_SET''))"
  by (simp add: stored_item_def feature_item_def od_get_def del: to_decimal.simps as_stored.simps(1))

lemma feature_resource_inj [simp]: "feature_resource_id n = feature_resource_id m \<longleftrightarrow> n = m"
  by (simp add: feature_resource_id_def)

lemma abs_store_update:
  assumes "lib_ok lib" and "list_all (\<lambda>(k, v). float_ok v) (fc_features f)"
  shows "abs_store lib (t((fc_tenant_id f, feature_resource_id (fc_feature_set_name f))
      \<mapsto> stored_item (feature_item lib now f))) tn n
    = (if tn = fc_tenant_id f \<and> n = fc_feature_set_name f then Some (created now f) else abs_store lib t tn n)"
  using feature_item_response(2) [OF assms, of now] by (auto simp: abs_store_def stored_entity)

lemma abs_store_delete:
  "abs_store lib (t((tn, feature_resource_id n) := None)) tn' n'
    = (if tn' = tn \<and> n' = n then None else abs_store lib t tn' n')"
  by (auto simp: abs_store_def)

lemma put_law:
  assumes "writes_ok api clock tbl" and "item_key_of item = Some key" and "dy_put_item api item KeysAbsent w = (r, w')"
  shows "tbl w' = tbl w \<or> tbl w' = (tbl w)(key \<mapsto> stored_item item)"
    and "r = Inr () \<Longrightarrow> tbl w key = None \<and> tbl w' = (tbl w)(key \<mapsto> stored_item item)"
    and "r = Inl e \<Longrightarrow> condition_failed e \<Longrightarrow> tbl w key \<noteq> None \<and> tbl w' = tbl w"
proof -
  note law = assms(1) [unfolded writes_ok_def, THEN conjunct2, THEN conjunct1, rule_format, OF assms(2,3)]
  show "tbl w' = tbl w \<or> tbl w' = (tbl w)(key \<mapsto> stored_item item)" using law by blast
  show "tbl w key = None \<and> tbl w' = (tbl w)(key \<mapsto> stored_item item)" if "r = Inr ()" using law that by simp
  show "tbl w key \<noteq> None \<and> tbl w' = tbl w" if "r = Inl e" "condition_failed e" using law that by simp
qed

lemma delete_law:
  assumes "writes_ok api clock tbl" and "dy_delete_item api key KeysPresent w = (r, w')"
  shows "tbl w' = tbl w \<or> tbl w' = (tbl w)(key := None)"
    and "r = Inr () \<Longrightarrow> tbl w key \<noteq> None \<and> tbl w' = (tbl w)(key := None)"
    and "r = Inl e \<Longrightarrow> condition_failed e \<Longrightarrow> tbl w key = None \<and> tbl w' = tbl w"
proof -
  note law = assms(1) [unfolded writes_ok_def, THEN conjunct2, THEN conjunct2, rule_format, OF assms(2)]
  show "tbl w' = tbl w \<or> tbl w' = (tbl w)(key := None)" using law by blast
  show "tbl w key \<noteq> None \<and> tbl w' = (tbl w)(key := None)" if "r = Inr ()" using law that by simp
  show "tbl w key = None \<and> tbl w' = tbl w" if "r = Inl e" "condition_failed e" using law that by simp
qed

lemma put_refines:
  assumes lib: "lib_ok lib" and w: "writes_ok api clock tbl" and fl: "list_all (\<lambda>(k, v). float_ok v) (fc_features f)"
    and put: "put_feature_set lib api clock f w = (r, w')"
  shows "case r of
      Inr fs \<Rightarrow> abs_store lib (tbl w) (fc_tenant_id f) (fc_feature_set_name f) = None
        \<and> fs = created (fst (clock w)) f
        \<and> abs_store lib (tbl w') = (\<lambda>t n. if t = fc_tenant_id f \<and> n = fc_feature_set_name f then Some fs
             else abs_store lib (tbl w) t n)
    | Inl e \<Rightarrow> \<forall>t n. (t, n) \<noteq> (fc_tenant_id f, fc_feature_set_name f) \<longrightarrow>
        abs_store lib (tbl w') t n = abs_store lib (tbl w) t n"
proof -
  obtain now w1 where c: "clock w = (now, w1)" by (cases "clock w")
  have t1: "tbl w1 = tbl w" using w c unfolding writes_ok_def by (metis snd_conv)
  obtain r2 w2 where p: "dy_put_item api (feature_item lib now f) KeysAbsent w1 = (r2, w2)"
    by (cases "dy_put_item api (feature_item lib now f) KeysAbsent w1")
  let ?key = "(fc_tenant_id f, feature_resource_id (fc_feature_set_name f))"
  note law = put_law [OF w feature_item_fields(2) p, unfolded t1]
  have w': "w' = w2" using put c p by (auto simp: put_feature_set_def split: sum.splits)
  show ?thesis
  proof (cases r2)
    case (Inl e)
    then obtain e' where r: "r = Inl e'" using put c p by (auto simp: put_feature_set_def)
    from law(1) consider "tbl w2 = tbl w" | "tbl w2 = (tbl w)(?key \<mapsto> stored_item (feature_item lib now f))" by blast
    then show ?thesis
      unfolding r w' by cases (simp_all add: abs_store_update [OF lib fl])
  next
    case (Inr u)
    then have r: "r = Inr (created now f)"
      using put c p feature_item_response(1) [OF lib fl] by (auto simp: put_feature_set_def)
    from law(2) Inr have t2: "tbl w ?key = None" "tbl w2 = (tbl w)(?key \<mapsto> stored_item (feature_item lib now f))" by auto
    have "abs_store lib (tbl w) (fc_tenant_id f) (fc_feature_set_name f) = None"
      using t2(1) by (simp add: abs_store_def)
    then show ?thesis unfolding r w' t2(2) using abs_store_update [OF lib fl, of "tbl w" now] by (auto simp: c)
  qed
qed

lemma item_at_Inl: "item_at it n = Inl e \<Longrightarrow> e = KeyError"
  by (auto simp: item_at_def split: option.splits)

lemma int_of_attr_Inl: "int_of_attr v = Inl e \<Longrightarrow> library_error e"
  by (auto simp: int_of_attr_def int_of_str_def Let_def library_error_def
      split: attr.splits decimal.splits prod.splits option.splits)

lemma features_of_Inl: "features_of lib v = Inl e \<Longrightarrow> e = validation_error"
  by (auto simp: features_of_def split: attr.splits option.splits dest!: mapR_Inl)

lemma str_of_Inl: "str_of lib v = Inl e \<Longrightarrow> e = validation_error"
  by (auto simp: str_of_def split: option.splits)

lemma parse_datetime_Inl:
  assumes "lib_ok lib" and "parse_datetime lib v = Inl e"
  shows "e = AppException DataStoreError (U ''Stored timestamp is invalid.'') \<or> library_error e"
  using assms by (auto simp: parse_datetime_def lib_ok_def split: attr.splits sum.splits if_splits)

lemma response_not_found:
  assumes "lib_ok lib"
  shows "item_to_feature_response lib it \<noteq> Inl (AppException FeatureSetNotFound m)"
proof -
  have "parse_datetime lib v \<noteq> Inl (AppException FeatureSetNotFound m)" for v
    using parse_datetime_Inl [OF assms, of v] by (auto simp: library_error_def)
  then show ?thesis
  by (auto simp: item_to_feature_response_def bindR_Inl_iff library_error_def validation_error_def
      dest!: item_at_Inl int_of_attr_Inl features_of_Inl str_of_Inl)
qed

lemma get_refines:
  assumes "reads_ok api tbl" and "lib_ok lib" and get: "get_feature_set lib api t n w = (r, w')"
  shows "tbl w' = tbl w" and "r = Inr fs \<Longrightarrow> abs_store lib (tbl w) t n = Some fs"
    and "r = Inl (AppException FeatureSetNotFound m) \<Longrightarrow> abs_store lib (tbl w) t n = None"
proof -
  obtain r2 w2 where g: "dy_get_item api (t, feature_resource_id n) w = (r2, w2)"
    by (cases "dy_get_item api (t, feature_resource_id n) w")
  have b: "tbl w2 = tbl w" "case r2 of Inr found \<Rightarrow> found = tbl w (t, feature_resource_id n) | Inl e \<Rightarrow> library_error e"
    using assms(1) g unfolding reads_ok_def by blast+
  have "w' = w2" using get g by (auto simp: get_feature_set_def split: sum.splits option.splits list.splits)
  with b show "tbl w' = tbl w" by simp
  show "abs_store lib (tbl w) t n = Some fs" if "r = Inr fs"
    using that get g b(2) by (auto simp: get_feature_set_def abs_store_def split: sum.splits option.splits list.splits if_splits)
  show "abs_store lib (tbl w) t n = None" if r: "r = Inl (AppException FeatureSetNotFound m)"
  proof (cases r2)
    case (Inl e)
    with b(2) get g r show ?thesis
      by (auto simp: get_feature_set_def library_error_def split: if_splits exn.splits)
  next
    case (Inr found)
    have "item_to_feature_response lib it \<noteq> Inl (AppException FeatureSetNotFound m)" for it
      by (rule response_not_found [OF assms(2)])
    with Inr b(2) get g r show ?thesis
      by (auto simp: get_feature_set_def abs_store_def split: option.splits list.splits if_splits)
  qed
qed

lemma delete_refines:
  assumes w: "writes_ok api clock tbl" and del: "delete_feature_set api t n w = (r, w')"
  shows "case r of
      Inr _ \<Rightarrow> tbl w (t, feature_resource_id n) \<noteq> None
        \<and> abs_store lib (tbl w') = (\<lambda>t' n'. if t' = t \<and> n' = n then None else abs_store lib (tbl w) t' n')
    | Inl e \<Rightarrow> \<forall>t' n'. (t', n') \<noteq> (t, n) \<longrightarrow> abs_store lib (tbl w') t' n' = abs_store lib (tbl w) t' n'"
proof -
  obtain r2 w2 where d: "dy_delete_item api (t, feature_resource_id n) KeysPresent w = (r2, w2)"
    by (cases "dy_delete_item api (t, feature_resource_id n) KeysPresent w")
  note law = delete_law [OF w d]
  have w': "w' = w2" using del d by (auto simp: delete_feature_set_def split: sum.splits)
  show ?thesis
  proof (cases r2)
    case (Inl e)
    with del d obtain e' where r: "r = Inl e'" by (auto simp: delete_feature_set_def)
    from law(1) consider "tbl w2 = tbl w" | "tbl w2 = (tbl w)((t, feature_resource_id n) := None)" by blast
    then show ?thesis unfolding r w' by cases (simp_all add: abs_store_delete)
  next
    case (Inr u)
    with del d have r: "r = Inr ()" by (auto simp: delete_feature_set_def)
    have t2: "tbl w (t, feature_resource_id n) \<noteq> None" "tbl w2 = (tbl w)((t, feature_resource_id n) := None)"
      using law(2) Inr by auto
    have "abs_store lib (tbl w2) = (\<lambda>t' n'. if t' = t \<and> n' = n then None else abs_store lib (tbl w) t' n')"
      unfolding t2(2) by (intro ext) (rule abs_store_delete)
    with t2(1) show ?thesis unfolding r w' by simp
  qed
qed

text \<open>
  The pages of a query: the loop ends, and without an exception it has collected all items
  from the start key on.
\<close>

lemma query_pages_complete:
  assumes "query_ok api tbl after"
  shows "\<exists>r w'. query_pages api t items start w = Some (r, w') \<and>
    (case r of Inr all \<Rightarrow> all = items @ after w t FEATURE_PREFIX start \<and> tbl w' = tbl w
     | Inl e \<Rightarrow> \<exists>k w1 w2. dy_query api t FEATURE_PREFIX k w1 = (Inl e, w2))"
proof (induction "length (after w t FEATURE_PREFIX start)" arbitrary: items start w rule: less_induct)
  case less
  obtain r1 w1 where q: "dy_query api t FEATURE_PREFIX start w = (r1, w1)"
    by (cases "dy_query api t FEATURE_PREFIX start w")
  show ?case
  proof (cases r1)
    case (Inl e)
    with q show ?thesis by (subst query_pages.simps) auto
  next
    case (Inr page)
    note law = assms [unfolded query_ok_def, THEN conjunct2, rule_format, OF q [unfolded Inr]]
    show ?thesis
    proof (cases "qp_last_key page")
      case None
      with law q Inr show ?thesis by (subst query_pages.simps) simp
    next
      case (Some k)
      with law have ne: "qp_items page \<noteq> []"
        and split: "after w t FEATURE_PREFIX start = qp_items page @ after w t FEATURE_PREFIX (Some k)"
        and same: "after w1 = after w" "tbl w1 = tbl w" by simp_all
      have "length (after w1 t FEATURE_PREFIX (Some k)) < length (after w t FEATURE_PREFIX start)"
        using ne by (simp add: split same)
      from less.hyps [OF this, of "items @ qp_items page"] obtain r w' where
        "query_pages api t (items @ qp_items page) (Some k) w1 = Some (r, w')"
        "case r of Inr all \<Rightarrow> all = (items @ qp_items page) @ after w1 t FEATURE_PREFIX (Some k) \<and> tbl w' = tbl w1
         | Inl e \<Rightarrow> \<exists>k w1 w2. dy_query api t FEATURE_PREFIX k w1 = (Inl e, w2)"
        by blast
      with q Inr Some split same show ?thesis by (subst query_pages.simps) (simp split: sum.splits)
    qed
  qed
qed

lemma list_all2_values:
  "list_all2 (\<lambda>x y. f x = Inr y) xs ys \<Longrightarrow> set ys = {y. \<exists>x \<in> set xs. f x = Inr y}"
  by (induction rule: list_all2_induct) auto

definition query_fails :: "'w dynamo_api \<Rightarrow> ustr \<Rightarrow> bool" where
  \<comment> \<open>some query of the tenant's feature sets raises\<close>
  "query_fails api t \<longleftrightarrow> (\<exists>k w1 e w2. dy_query api t FEATURE_PREFIX k w1 = (Inl e, w2))"

lemma list_refines:
  assumes "query_ok api tbl after"
  shows "\<exists>r w'. list_feature_sets lib api t w = Some (r, w') \<and>
    (case r of
       Inr fss \<Rightarrow> tbl w' = tbl w
         \<and> list_all2 (\<lambda>item fs. item_to_feature_response lib item = Inr fs) (after w t FEATURE_PREFIX None) fss
     | Inl e \<Rightarrow> query_fails api t
         \<or> (\<exists>item \<in> set (after w t FEATURE_PREFIX None). item_to_feature_response lib item = Inl e))"
proof -
  obtain r1 w1 where q: "query_pages api t [] None w = Some (r1, w1)"
    and all: "case r1 of Inr all \<Rightarrow> all = after w t FEATURE_PREFIX None \<and> tbl w1 = tbl w
      | Inl e \<Rightarrow> \<exists>k w1 w2. dy_query api t FEATURE_PREFIX k w1 = (Inl e, w2)"
    using query_pages_complete [OF assms, of t "[]" None w, unfolded append_Nil] by blast
  show ?thesis
  proof (cases r1)
    case (Inl e)
    with q all show ?thesis by (auto simp: list_feature_sets_def query_fails_def)
  next
    case (Inr items)
    with all q show ?thesis
      by (auto simp: list_feature_sets_def mapR_Inr_iff dest: mapR_Inl split: sum.split)
  qed
qed

text \<open>
  Every feature-set item carries the tenant of its partition key and the name its sort key is
  made of, because \<open>put_feature_set\<close> writes them all.
\<close>

definition well_named :: "(item_key \<Rightarrow> item option) \<Rightarrow> bool" where
  "well_named t \<longleftrightarrow> (\<forall>tn n item. t (tn, feature_resource_id n) = Some item \<longrightarrow>
     od_get item (U ''entity_type'') = Some (AStr (U ''FEATURE_SET''))
     \<and> od_get item (U ''tenant_id'') = Some (AStr tn)
     \<and> od_get item (U ''feature_set_name'') = Some (AStr n))"

lemma well_named_name:
  assumes "well_named t" and "t (tn, feature_resource_id n) = Some item"
  shows "od_get item (U ''feature_set_name'') = Some (AStr n)"
    and "od_get item (U ''tenant_id'') = Some (AStr tn)"
    and "od_get item (U ''entity_type'') = Some (AStr (U ''FEATURE_SET''))"
  using assms unfolding well_named_def by blast+

lemma well_named_put:
  assumes "well_named (tbl w)" and w: "writes_ok api clock tbl" and put: "put_feature_set lib api clock f w = (r, w')"
  shows "well_named (tbl w')"
proof -
  obtain now w1 where c: "clock w = (now, w1)" by (cases "clock w")
  have t1: "tbl w1 = tbl w" using w c unfolding writes_ok_def by (metis snd_conv)
  obtain r2 w2 where p: "dy_put_item api (feature_item lib now f) KeysAbsent w1 = (r2, w2)"
    by (cases "dy_put_item api (feature_item lib now f) KeysAbsent w1")
  have w': "w' = w2" using put c p by (auto simp: put_feature_set_def split: sum.splits)
  have "od_get (stored_item (feature_item lib now f)) (U ''feature_set_name'') = Some (AStr (fc_feature_set_name f))"
    "od_get (stored_item (feature_item lib now f)) (U ''tenant_id'') = Some (AStr (fc_tenant_id f))"
    by (simp_all add: stored_item_def feature_item_def od_get_def del: to_decimal.simps as_stored.simps(1))
  with put_law(1) [OF w feature_item_fields(2) p] assms(1) show ?thesis
    unfolding w' t1 by (auto simp: well_named_def stored_entity split: if_splits)
qed

lemma batch_loop_items:
  "batch_ok api tbl \<Longrightarrow> batch_loop api n acc keys w = (Inr items, w') \<Longrightarrow>
    tbl w' = tbl w \<and> (\<exists>new. items = acc @ new
      \<and> (\<forall>item \<in> set new. \<exists>k \<in> set keys. tbl w k = Some item)
      \<and> (\<forall>k \<in> set keys. \<forall>item. tbl w k = Some item \<longrightarrow> item \<in> set new))"
proof (induction api n acc keys w rule: batch_loop.induct)
  case (1 api n acc keys w)
  obtain r1 w1 where b: "dy_batch_get api keys w = (r1, w1)" by (cases "dy_batch_get api keys w")
  with 1(3) obtain resp where resp: "r1 = Inr resp"
    by (cases r1) (simp_all add: batch_loop.simps [of api n])
  note law = 1(2) [unfolded batch_ok_def, rule_format, OF b [unfolded resp]]
  show ?case
  proof (cases "br_unprocessed resp = []")
    case True
    with 1(3) b resp have "items = acc @ br_items resp" "w' = w1"
      by (simp_all add: batch_loop.simps [of api n])
    with law True show ?thesis by auto
  next
    case False
    with 1(3) b resp have n: "\<not> n + 1 > BATCH_RETRY_LIMIT"
      and rec: "batch_loop api (n + 1) (acc @ br_items resp) (br_unprocessed resp) w1 = (Inr items, w')"
      by (auto simp: batch_loop.simps [of api n] split: if_splits)
    obtain new where new: "tbl w' = tbl w1" "items = (acc @ br_items resp) @ new"
      "\<forall>item \<in> set new. \<exists>k \<in> set (br_unprocessed resp). tbl w1 k = Some item"
      "\<forall>k \<in> set (br_unprocessed resp). \<forall>item. tbl w1 k = Some item \<longrightarrow> item \<in> set new"
      using "1.IH" [OF b [symmetric] resp False n 1(2) rec] by blast
    have same: "tbl w1 = tbl w" and sub: "set (br_unprocessed resp) \<subseteq> set keys" using law by blast+
    have "\<exists>k \<in> set keys. tbl w k = Some item" if "item \<in> set (br_items resp @ new)" for item
      using that new(3) law sub unfolding same by (metis Un_iff set_append subsetD)
    moreover have "item \<in> set (br_items resp @ new)" if "k \<in> set keys" "tbl w k = Some item" for k item
      using that new(4) law unfolding same by (metis Un_iff set_append)
    ultimately show ?thesis using new(1,2) same by (metis append_assoc)
  qed
qed

definition batch_incomplete :: "'w dynamo_api \<Rightarrow> bool" where
  \<comment> \<open>some batch read raises or leaves keys unprocessed\<close>
  "batch_incomplete api \<longleftrightarrow> (\<exists>keys w r w'. dy_batch_get api keys w = (r, w') \<and>
     (case r of Inl _ \<Rightarrow> True | Inr resp \<Rightarrow> br_unprocessed resp \<noteq> []))"

lemma batch_loop_fails: "batch_loop api n acc keys w = (Inl e, w') \<Longrightarrow> batch_incomplete api"
proof (cases "dy_batch_get api keys w")
  case (Pair r w1)
  moreover assume "batch_loop api n acc keys w = (Inl e, w')"
  ultimately show ?thesis
    unfolding batch_incomplete_def
    by (intro exI [of _ keys] exI [of _ w] exI [of _ r] exI [of _ w1]) (auto simp: batch_loop.simps [of api n] split: sum.splits if_splits)
qed

lemma by_name_fails:
  assumes "well_named t" and "by_name lib items = Inl e"
    and "\<forall>item \<in> set items. \<exists>n \<in> N. t (tn, feature_resource_id n) = Some item"
  shows "\<exists>n \<in> N. \<exists>item. t (tn, feature_resource_id n) = Some item \<and> item_to_feature_response lib item = Inl e"
proof -
  from foldR_Inl [OF assms(2) [unfolded by_name_def]] obtain acc item where item: "item \<in> set items"
    and f: "(if od_get item (U ''entity_type'') = Some (AStr (U ''FEATURE_SET''))
        then case item_at item ''feature_set_name'' of Inl e \<Rightarrow> Inl e
          | Inr name \<Rightarrow> (case item_to_feature_response lib item of Inl e \<Rightarrow> Inl e | Inr fs \<Rightarrow> Inr (od_set acc name fs))
        else Inr acc) = Inl e" by blast
  from item assms(3) obtain n where n: "n \<in> N" "t (tn, feature_resource_id n) = Some item" by blast
  have "od_get item (U ''feature_set_name'') = Some (AStr n)" using assms(1) n(2) by (simp add: well_named_def)
  with f have "item_to_feature_response lib item = Inl e" by (auto simp: item_at_def split: if_splits sum.splits)
  with n show ?thesis by blast
qed

lemma by_name_get:
  assumes wn: "well_named t" and "by_name lib items = Inr found"
    and "\<forall>item \<in> set items. \<exists>n. t (tn, feature_resource_id n) = Some item"
  shows "od_get found (AStr n) = (case t (tn, feature_resource_id n) of
      Some item \<Rightarrow> if item \<in> set items then abs_store lib t tn n else None | None \<Rightarrow> None)"
  using assms(2,3)
proof (induction items arbitrary: found rule: rev_induct)
  case Nil
  then show ?case by (simp add: by_name_def split: option.split)
next
  case (snoc item items)
  obtain acc where acc: "by_name lib items = Inr acc"
    using snoc.prems(1) by (cases "by_name lib items") (auto simp: by_name_def foldR_append)
  note IH = snoc.IH [OF acc]
  from snoc.prems(2) obtain m where m: "t (tn, feature_resource_id m) = Some item" by auto
  have IH': "od_get acc (AStr n) = (case t (tn, feature_resource_id n) of
      Some item \<Rightarrow> if item \<in> set items then abs_store lib t tn n else None | None \<Rightarrow> None)"
    using IH snoc.prems(2) by simp
  show ?case
  proof (cases "od_get item (U ''entity_type'') = Some (AStr (U ''FEATURE_SET''))")
    case False
    then have "found = acc" using snoc.prems(1) acc by (simp add: by_name_def foldR_append)
    moreover have "abs_store lib t tn n = None" if "t (tn, feature_resource_id n) = Some item"
      using that False by (simp add: abs_store_def)
    ultimately show ?thesis using IH' by (auto split: option.splits)
  next
    case True
    have nm: "od_get item (U ''feature_set_name'') = Some (AStr m)" by (rule well_named_name(1) [OF wn m])
    with True snoc.prems(1) acc obtain fs where fs: "item_to_feature_response lib item = Inr fs"
      and found: "found = od_set acc (AStr m) fs"
      by (auto simp: by_name_def foldR_append item_at_def split: sum.splits)
    have same: "n = m" if "t (tn, feature_resource_id n) = Some item"
      using well_named_name(1) [OF wn that] nm by simp
    have "abs_store lib t tn m = Some fs" using m True fs by (simp add: abs_store_def)
    then show ?thesis
    proof (cases "n = m")
      case True
      with m \<open>abs_store lib t tn m = Some fs\<close> show ?thesis by (simp add: found od_get_set)
    next
      case False
      with same have "t (tn, feature_resource_id n) \<noteq> Some item" by blast
      with IH' False show ?thesis by (auto simp: found od_get_set split: option.split)
    qed
  qed
qed

lemma batch_refines:
  assumes "batch_ok api tbl" and "well_named (tbl w)"
    and "batch_get_feature_sets lib api t names w = (Inr fss, w')"
  shows "tbl w' = tbl w \<and> fss = map (\<lambda>n. the (abs_store lib (tbl w) t n))
    (filter (\<lambda>n. abs_store lib (tbl w) t n \<noteq> None) names)"
proof (cases "names = []")
  case True
  with assms(3) show ?thesis by (simp add: batch_get_feature_sets_def)
next
  case False
  let ?keys = "map (\<lambda>n. (t, feature_resource_id n)) names"
  from False assms(3) obtain items found where b: "batch_loop api 0 [] ?keys w = (Inr items, w')"
    and f: "by_name lib items = Inr found"
    and fss: "fss = map (\<lambda>n. the (od_get found (AStr n))) (filter (\<lambda>n. od_get found (AStr n) \<noteq> None) names)"
    by (auto simp: batch_get_feature_sets_def split: sum.splits prod.splits)
  note items = batch_loop_items [OF assms(1) b]
  have "\<forall>item \<in> set items. \<exists>n. tbl w (t, feature_resource_id n) = Some item"
    using items by auto
  note get = by_name_get [OF assms(2) f this]
  have "od_get found (AStr n) = abs_store lib (tbl w) t n" if "n \<in> set names" for n
    using get [of n] items that by (auto simp: abs_store_def split: option.splits)
  then have "fss = map (\<lambda>n. the (abs_store lib (tbl w) t n)) (filter (\<lambda>n. abs_store lib (tbl w) t n \<noteq> None) names)"
    unfolding fss by (auto intro!: map_cong filter_cong)
  with items show ?thesis by blast
qed

lemma well_named_delete:
  assumes "well_named (tbl w)" and w: "writes_ok api clock tbl" and del: "delete_feature_set api t n w = (r, w')"
  shows "well_named (tbl w')"
proof -
  obtain r2 w2 where d: "dy_delete_item api (t, feature_resource_id n) KeysPresent w = (r2, w2)"
    by (cases "dy_delete_item api (t, feature_resource_id n) KeysPresent w")
  have "w' = w2" using del d by (auto simp: delete_feature_set_def split: sum.splits)
  with delete_law(1) [OF w d] assms(1) show ?thesis by (auto simp: well_named_def split: if_splits)
qed

lemma abs_store_owner:
  assumes "lib_ok lib" and "well_named t" and "abs_store lib t tn n = Some fs"
  shows "fs_tenant_id fs = tn \<and> fs_feature_set_name fs = n"
proof -
  from assms(3) obtain item where item: "t (tn, feature_resource_id n) = Some item"
      "od_get item (U ''entity_type'') = Some (AStr (U ''FEATURE_SET''))"
      "item_to_feature_response lib item = Inr fs"
    by (auto simp: abs_store_def split: option.splits if_splits sum.splits)
  from item(3) well_named_name [OF assms(2) item(1)] assms(1) show ?thesis
    by (auto simp: item_to_feature_response_def bindR_Inr_iff item_at_def str_of_def lib_ok_def)
qed

section \<open>Which keys an operation touches\<close>

text \<open>
  The same table with a log of the accesses: the partition, and the sort key or the prefix of
  the sort keys. The facts hold whatever the table does.
\<close>

datatype access = Access ustr ustr | Unkeyed

fun access_tenant :: "access \<Rightarrow> ustr option" where
  "access_tenant (Access t _) = Some t"
| "access_tenant Unkeyed = None"

fun access_feature :: "access \<Rightarrow> bool" where
  "access_feature (Access _ r) = (take (length FEATURE_PREFIX) r = FEATURE_PREFIX)"
| "access_feature Unkeyed = False"

definition item_access :: "item \<Rightarrow> access" where
  "item_access item = (case item_key_of item of Some (t, r) \<Rightarrow> Access t r | None \<Rightarrow> Unkeyed)"

definition logged_clock :: "('w \<Rightarrow> 'dt \<times> 'w) \<Rightarrow> 'w \<times> access list \<Rightarrow> 'dt \<times> ('w \<times> access list)" where
  "logged_clock clock wl = (case clock (fst wl) of (t, w') \<Rightarrow> (t, (w', snd wl)))"

definition log_call :: "access list \<Rightarrow> ('w \<Rightarrow> 'a \<times> 'w) \<Rightarrow> 'w \<times> access list \<Rightarrow> 'a \<times> ('w \<times> access list)" where
  "log_call new call wl = (case call (fst wl) of (r, w') \<Rightarrow> (r, (w', snd wl @ new)))"

definition logged_api :: "'w dynamo_api \<Rightarrow> ('w \<times> access list) dynamo_api" where
  "logged_api api =
     \<lparr>dy_load = log_call [] (dy_load api),
      dy_put_item = (\<lambda>item c. log_call [item_access item] (dy_put_item api item c)),
      dy_get_item = (\<lambda>key. log_call [Access (fst key) (snd key)] (dy_get_item api key)),
      dy_delete_item = (\<lambda>key c. log_call [Access (fst key) (snd key)] (dy_delete_item api key c)),
      dy_query = (\<lambda>t p start. log_call [Access t p] (dy_query api t p start)),
      dy_batch_get = (\<lambda>keys. log_call (map (\<lambda>k. Access (fst k) (snd k)) keys) (dy_batch_get api keys))\<rparr>"

definition touches :: "(access \<Rightarrow> bool) \<Rightarrow> 'w \<times> access list \<Rightarrow> 'w \<times> access list \<Rightarrow> bool" where
  "touches P w w' \<longleftrightarrow> (\<exists>new. snd w' = snd w @ new \<and> list_all P new)"

definition feature_of :: "ustr \<Rightarrow> access \<Rightarrow> bool" where
  "feature_of t a \<longleftrightarrow> access_tenant a = Some t \<and> access_feature a"

lemma touches_refl [simp]: "touches P w w"
  by (simp add: touches_def)

lemma touches_trans: "touches P w w' \<Longrightarrow> touches P w' w'' \<Longrightarrow> touches P w w''"
  by (auto simp: touches_def)

lemma log_call_touches: "log_call new call w = (r, w') \<Longrightarrow> list_all P new \<Longrightarrow> touches P w w'"
  by (auto simp: log_call_def touches_def split: prod.splits)

lemma feature_of_key [simp]: "feature_of t (Access t (feature_resource_id n))"
  by (simp add: feature_of_def feature_resource_id_def)

lemma put_touches:
  assumes "put_feature_set lib (logged_api api) (logged_clock clock) f w = (r, w')"
  shows "touches (feature_of (fc_tenant_id f)) w w'"
proof -
  obtain now w1 where c: "logged_clock clock w = (now, w1)" by (cases "logged_clock clock w")
  then have s: "snd w1 = snd w" by (auto simp: logged_clock_def split: prod.splits)
  obtain r2 w2 where p: "dy_put_item (logged_api api) (feature_item lib now f) KeysAbsent w1 = (r2, w2)"
    by (cases "dy_put_item (logged_api api) (feature_item lib now f) KeysAbsent w1")
  have "item_access (feature_item lib now f) = Access (fc_tenant_id f) (feature_resource_id (fc_feature_set_name f))"
    by (simp add: item_access_def feature_item_fields)
  then have "touches (feature_of (fc_tenant_id f)) w1 w2"
    using p by (auto simp: logged_api_def intro!: log_call_touches)
  moreover have "w' = w2" using assms c p by (auto simp: put_feature_set_def split: sum.splits)
  ultimately show ?thesis using s by (simp add: touches_def)
qed

lemma get_touches:
  assumes "get_feature_set lib (logged_api api) t n w = (r, w')"
  shows "touches (feature_of t) w w'"
proof -
  obtain r2 w2 where g: "dy_get_item (logged_api api) (t, feature_resource_id n) w = (r2, w2)"
    by (cases "dy_get_item (logged_api api) (t, feature_resource_id n) w")
  then have "touches (feature_of t) w w2" by (auto simp: logged_api_def intro!: log_call_touches)
  moreover have "w' = w2" using assms g by (auto simp: get_feature_set_def split: sum.splits option.splits list.splits)
  ultimately show ?thesis by simp
qed

lemma delete_touches:
  assumes "delete_feature_set (logged_api api) t n w = (r, w')"
  shows "touches (feature_of t) w w'"
proof -
  obtain r2 w2 where g: "dy_delete_item (logged_api api) (t, feature_resource_id n) KeysPresent w = (r2, w2)"
    by (cases "dy_delete_item (logged_api api) (t, feature_resource_id n) KeysPresent w")
  then have "touches (feature_of t) w w2" by (auto simp: logged_api_def intro!: log_call_touches)
  moreover have "w' = w2" using assms g by (auto simp: delete_feature_set_def split: sum.splits)
  ultimately show ?thesis by simp
qed

lemma query_touches:
  "query_pages a t items start w = Some x \<Longrightarrow> a = logged_api api \<Longrightarrow> touches (feature_of t) w (snd x)"
proof (induction rule: query_pages.raw_induct [rotated, consumes 1])
  case (1 self a t items start w x)
  obtain r1 w1 where q: "dy_query a t FEATURE_PREFIX start w = (r1, w1)"
    by (cases "dy_query a t FEATURE_PREFIX start w")
  then have t1: "touches (feature_of t) w w1"
    using "1.prems" by (auto simp: logged_api_def feature_of_def intro!: log_call_touches)
  show ?case
  proof (cases r1)
    case (Inl e)
    with "1.hyps" q t1 show ?thesis by auto
  next
    case (Inr page)
    show ?thesis
    proof (cases "qp_last_key page")
      case None
      with "1.hyps" q Inr t1 show ?thesis by auto
    next
      case (Some k)
      with "1.hyps" q Inr have "self a t (items @ qp_items page) (Some k) w1 = Some x" by simp
      from "1.IH" [OF this "1.prems"] t1 show ?thesis by (rule touches_trans [rotated])
    qed
  qed
qed

lemma list_touches:
  assumes "list_feature_sets lib (logged_api api) t w = Some (r, w')"
  shows "touches (feature_of t) w w'"
proof -
  obtain r1 w1 where q: "query_pages (logged_api api) t [] None w = Some (r1, w1)"
    using assms by (auto simp: list_feature_sets_def split: option.splits)
  moreover have "w' = w1" using assms q by (auto simp: list_feature_sets_def split: sum.splits)
  ultimately show ?thesis using query_touches [OF q refl] by simp
qed

text \<open>
  The retries of a batch repeat keys of the request, as long as the unprocessed keys of a
  response are keys of its request.
\<close>

definition unprocessed_ok :: "'w dynamo_api \<Rightarrow> bool" where
  "unprocessed_ok api \<longleftrightarrow> (\<forall>keys w resp w'. dy_batch_get api keys w = (Inr resp, w') \<longrightarrow>
     set (br_unprocessed resp) \<subseteq> set keys)"

lemma batch_loop_touches:
  "unprocessed_ok api \<Longrightarrow> batch_loop (logged_api api) n acc keys w = (r, w') \<Longrightarrow>
   \<forall>k \<in> set keys. P (Access (fst k) (snd k)) \<Longrightarrow> touches P w w'"
proof (induction "logged_api api" n acc keys w rule: batch_loop.induct)
  case (1 n acc keys w)
  obtain r1 w1 where b: "dy_batch_get (logged_api api) keys w = (r1, w1)"
    by (cases "dy_batch_get (logged_api api) keys w")
  then have t1: "touches P w w1"
    using "1.prems"(3) by (auto simp: logged_api_def list_all_iff intro!: log_call_touches)
  show ?case
  proof (cases r1)
    case (Inl e)
    with "1.prems"(2) b t1 show ?thesis by (simp add: batch_loop.simps [of _ n])
  next
    case (Inr resp)
    have sub: "set (br_unprocessed resp) \<subseteq> set keys"
      using b "1.prems"(1) unfolding Inr unprocessed_ok_def
      by (auto simp: logged_api_def log_call_def split: prod.splits)
    show ?thesis
    proof (cases "br_unprocessed resp = [] \<or> n + 1 > BATCH_RETRY_LIMIT")
      case True
      with "1.prems"(2) b Inr t1 show ?thesis by (auto simp: batch_loop.simps [of _ n] split: if_splits)
    next
      case False
      then have c: "br_unprocessed resp \<noteq> []" "\<not> n + 1 > BATCH_RETRY_LIMIT" by auto
      with "1.prems"(2) b Inr
      have "batch_loop (logged_api api) (n + 1) (acc @ br_items resp) (br_unprocessed resp) w1 = (r, w')"
        by (simp add: batch_loop.simps [of _ n])
      from "1.hyps" [OF b [symmetric] Inr c "1.prems"(1) this] "1.prems"(3) sub
      have "touches P w1 w'" by blast
      with t1 show ?thesis by (rule touches_trans)
    qed
  qed
qed

lemma batch_touches:
  assumes "unprocessed_ok api" and "batch_get_feature_sets lib (logged_api api) t names w = (r, w')"
  shows "touches (feature_of t) w w'"
proof (cases "names = []")
  case True
  with assms(2) show ?thesis by (simp add: batch_get_feature_sets_def)
next
  case False
  let ?keys = "map (\<lambda>n. (t, feature_resource_id n)) names"
  obtain r1 w1 where b: "batch_loop (logged_api api) 0 [] ?keys w = (r1, w1)"
    by (cases "batch_loop (logged_api api) 0 [] ?keys w")
  have "touches (feature_of t) w w1" by (rule batch_loop_touches [OF assms(1) b]) auto
  moreover have "w' = w1"
    using assms(2) b False by (auto simp: batch_get_feature_sets_def split: sum.splits)
  ultimately show ?thesis by simp
qed

lemma tenant_record_touches:
  assumes "get_tenant_record lib (logged_api api) t w = (r, w')"
  shows "snd w' = snd w @ [Access t (tenant_resource_id t)]"
proof -
  obtain r2 w2 where g: "dy_get_item (logged_api api) (t, tenant_resource_id t) w = (r2, w2)"
    by (cases "dy_get_item (logged_api api) (t, tenant_resource_id t) w")
  then have "snd w2 = snd w @ [Access t (tenant_resource_id t)]"
    by (auto simp: logged_api_def log_call_def split: prod.splits)
  moreover have "w' = w2" using assms g by (auto simp: get_tenant_record_def split: sum.splits option.splits list.splits)
  ultimately show ?thesis by simp
qed

section \<open>A table in memory\<close>

text \<open>A concrete table with the behaviour assumed above, for the witnesses.\<close>

definition mem_keys :: "(item_key, item) odict \<Rightarrow> ustr \<Rightarrow> ustr \<Rightarrow> item_key list" where
  "mem_keys w t p = filter (\<lambda>k. fst k = t \<and> take (length p) (snd k) = p) (remdups (map fst w))"

definition mem_after :: "(item_key, item) odict \<Rightarrow> ustr \<Rightarrow> ustr \<Rightarrow> item_key option \<Rightarrow> item list" where
  "mem_after w t p start = map (\<lambda>k. the (od_get w k)) (mem_keys w t p)"

definition mem_api :: "(item_key, item) odict dynamo_api" where
  "mem_api =
     \<lparr>dy_load = (\<lambda>w. (Inr (), w)),
      dy_put_item = (\<lambda>item c w. case item_key_of item of
          None \<Rightarrow> (Inl BotoCoreError, w)
        | Some key \<Rightarrow>
          if od_get w key = None then (Inr (), od_set w key (stored_item item))
          else (Inl (ClientError (Some (U ''ConditionalCheckFailedException''))), w)),
      dy_get_item = (\<lambda>key w. (Inr (od_get w key), w)),
      dy_delete_item = (\<lambda>key c w.
          if od_get w key = None then (Inl (ClientError (Some (U ''ConditionalCheckFailedException''))), w)
          else (Inr (), od_pop w key)),
      dy_query = (\<lambda>t p start w. (Inr \<lparr>qp_items = mem_after w t p start, qp_last_key = None\<rparr>, w)),
      dy_batch_get = (\<lambda>keys w.
          (Inr \<lparr>br_items = map (\<lambda>k. the (od_get w k)) (filter (\<lambda>k. od_get w k \<noteq> None) keys),
                br_unprocessed = []\<rparr>, w))\<rparr>"

definition mem_clock :: "(item_key, item) odict \<Rightarrow> nat \<times> (item_key, item) odict" where
  "mem_clock w = (length w, w)"

definition mem_lib :: "nat py_lib" where
  "mem_lib =
     \<lparr>pl_str = (\<lambda>v. case v of AStr s \<Rightarrow> Some s | _ \<Rightarrow> None),
      pl_float = (\<lambda>v. case v of AFloat f \<Rightarrow> Some f | _ \<Rightarrow> None),
      pl_isoformat = str_nat,
      pl_fromisoformat = (\<lambda>s. Inr (dec_val s))\<rparr>"

lemma mem_reads_ok: "reads_ok mem_api od_get"
  by (simp add: reads_ok_def mem_api_def)

lemma mem_writes_ok: "writes_ok mem_api mem_clock od_get"
  by (auto simp: writes_ok_def mem_api_def mem_clock_def condition_failed_def od_get_set od_get_pop fun_eq_iff
      split: if_splits option.splits)

lemma mem_query_ok: "query_ok mem_api od_get mem_after"
proof -
  have "set (mem_after w t p start) = {item. \<exists>r. od_get w (t, p @ r) = Some item}" for w t p start
  proof (intro set_eqI iffI)
    fix item
    assume "item \<in> set (mem_after w t p start)"
    then obtain k where k: "k \<in> fst ` set w" "fst k = t" "take (length p) (snd k) = p" "item = the (od_get w k)"
      by (auto simp: mem_after_def mem_keys_def)
    then have "snd k = p @ drop (length p) (snd k)" by (metis append_take_drop_id)
    moreover have "od_get w k \<noteq> None" using k(1) by (auto simp: od_get_def map_of_eq_None_iff)
    ultimately have "od_get w (t, p @ drop (length p) (snd k)) = Some item"
      using k(2,4) by (metis option.collapse prod.collapse)
    then show "item \<in> {item. \<exists>r. od_get w (t, p @ r) = Some item}" by blast
  next
    fix item
    assume "item \<in> {item. \<exists>r. od_get w (t, p @ r) = Some item}"
    then obtain r where r: "od_get w (t, p @ r) = Some item" by blast
    then have "(t, p @ r) \<in> set (mem_keys w t p)"
      by (force simp: mem_keys_def dest: od_get_SomeD)
    with r show "item \<in> set (mem_after w t p start)"
      unfolding mem_after_def set_map by (metis imageI option.sel)
  qed
  then show ?thesis by (simp add: query_ok_def mem_api_def mem_after_def)
qed

lemma mem_batch_ok: "batch_ok mem_api od_get"
  by (force simp: batch_ok_def mem_api_def)

lemma mem_lib_ok: "lib_ok mem_lib"
  by (simp add: lib_ok_def mem_lib_def)

section \<open>Properties\<close>


definition sample_set :: feature_set_create where
  \<comment> \<open>a concrete payload, for the witnesses\<close>
  "sample_set = \<lparr>fc_tenant_id = U ''t'', fc_feature_set_name = U ''f'', fc_features = [(U ''x'', Fin 3)]\<rparr>"

lemma sample_floats: "list_all (\<lambda>(k, v). float_ok v) (fc_features sample_set)"
proof -
  have "round_float (of_int 3) = Fin (of_int 3)" by (rule round_float_int) simp
  then show ?thesis by (simp add: sample_set_def float_ok_def is_float_def)
qed

lemma empty_well_named: "well_named (od_get [])"
  by (simp add: well_named_def)

definition sample_table :: "(item_key, item) odict" where
  "sample_table = [((U ''t'', feature_resource_id (U ''f'')), stored_item (feature_item mem_lib 0 sample_set))]"

lemma sample_put: "put_feature_set mem_lib mem_api mem_clock sample_set [] = (Inr (created 0 sample_set), sample_table)"
proof -
  have "dy_put_item mem_api (feature_item mem_lib 0 sample_set) KeysAbsent []
      = (Inr (), od_set [] (U ''t'', feature_resource_id (U ''f'')) (stored_item (feature_item mem_lib 0 sample_set)))"
    by (simp add: mem_api_def feature_item_fields sample_set_def)
  then show ?thesis
    using feature_item_response(1) [OF mem_lib_ok sample_floats, of 0]
    by (simp add: put_feature_set_def mem_clock_def sample_table_def od_set_def)
qed

lemma sample_well_named: "well_named (od_get sample_table)"
  by (rule well_named_put [where tbl = od_get, OF empty_well_named mem_writes_ok sample_put])




text \<open>C22. The page loop of \<open>list_feature_sets\<close> ends, whatever the page sizes. It returns a
  list of exactly the feature sets of the tenant, unless a query raises or one of the tenant's
  items is not a feature set.\<close>

theorem list_complete:
  assumes "query_ok api tbl after" and "well_named (tbl w)"
  shows "\<exists>r w'. list_feature_sets lib api t w = Some (r, w')
    \<and> (case r of
         Inr fss \<Rightarrow> tbl w' = tbl w \<and> set fss = {fs. \<exists>n. abs_store lib (tbl w) t n = Some fs}
       | Inl e \<Rightarrow> query_fails api t
           \<or> (\<exists>n item. tbl w (t, feature_resource_id n) = Some item \<and> item_to_feature_response lib item = Inl e))"
proof -
  obtain r w' where l: "list_feature_sets lib api t w = Some (r, w')"
    and all: "case r of
       Inr fss \<Rightarrow> tbl w' = tbl w
         \<and> list_all2 (\<lambda>item fs. item_to_feature_response lib item = Inr fs) (after w t FEATURE_PREFIX None) fss
     | Inl e \<Rightarrow> query_fails api t
         \<or> (\<exists>item \<in> set (after w t FEATURE_PREFIX None). item_to_feature_response lib item = Inl e)"
    using list_refines [OF assms(1)] by blast
  have items: "set (after w t FEATURE_PREFIX None) = {item. \<exists>n. tbl w (t, feature_resource_id n) = Some item}"
    using assms(1) unfolding query_ok_def feature_resource_id_def by blast
  have abs: "abs_store lib (tbl w) t n = Some fs \<longleftrightarrow>
      (\<exists>item. tbl w (t, feature_resource_id n) = Some item \<and> item_to_feature_response lib item = Inr fs)" for n fs
    using well_named_name(3) [OF assms(2)] by (auto simp: abs_store_def split: option.splits sum.splits)
  show ?thesis
  proof (cases r)
    case (Inl e)
    with l all items show ?thesis by auto
  next
    case (Inr fss)
    then have l2: "list_all2 (\<lambda>item fs. item_to_feature_response lib item = Inr fs) (after w t FEATURE_PREFIX None) fss"
      using all by simp
    have "set fss = {fs. \<exists>n. abs_store lib (tbl w) t n = Some fs}"
      unfolding abs using list_all2_values [OF l2] items by auto
    with l all Inr show ?thesis by auto
  qed
qed

theorem list_complete_witness:
  "\<exists>fss w'. list_feature_sets mem_lib mem_api (U ''t'') sample_table = Some (Inr fss, w')
     \<and> set fss = {fs. \<exists>n. abs_store mem_lib (od_get sample_table) (U ''t'') n = Some fs}"
proof -
  have "\<not> query_fails mem_api t" for t by (simp add: query_fails_def mem_api_def)
  moreover have "item_to_feature_response mem_lib item \<noteq> Inl e"
    if "od_get sample_table (t, feature_resource_id n) = Some item" for t n item e
    using that feature_item_response(2) [OF mem_lib_ok sample_floats, of 0]
    by (auto simp: sample_table_def od_get_def split: if_splits)
  ultimately show ?thesis
    using list_complete [OF mem_query_ok sample_well_named, of mem_lib "U ''t''"] by (fastforce split: sum.splits)
qed


lemma sample_batch:
  "batch_get_feature_sets mem_lib mem_api (U ''t'') [U ''g'', U ''f''] sample_table
     = (Inr [created 0 sample_set], sample_table)"
proof -
  have nm: "od_get (stored_item (feature_item mem_lib 0 sample_set)) (U ''feature_set_name'') = Some (AStr (U ''f''))"
    by (simp add: stored_item_def feature_item_def od_get_def sample_set_def del: to_decimal.simps as_stored.simps(1))
  have "by_name mem_lib [stored_item (feature_item mem_lib 0 sample_set)] = Inr [(AStr (U ''f''), created 0 sample_set)]"
    using feature_item_response(2) [OF mem_lib_ok sample_floats, of 0] nm
    by (simp add: by_name_def stored_entity item_at_def od_set_def)
  then show ?thesis
    by (simp add: batch_get_feature_sets_def batch_loop.simps mem_api_def sample_table_def od_get_def)
qed


end
