(* ===== verification/FeatureService.thy ===== *)
theory FeatureService
  imports Dynamo "HOL-Library.List_Lexorder" "HOL-Library.Multiset"
begin

text \<open>
  \<open>feature_store/services/feature_service.py\<close>: the checks of tenant ownership in front of the
  data layer, and the feature vectors. The service is written against a record of the data
  layer's operations, and its isolation lemmas against the interface \<open>tenant_store\<close>: every
  operation on behalf of a tenant touches feature keys of that tenant only. \<open>DynamoDBService\<close>
  provides the interface for every table.
\<close>

section \<open>The data layer as an interface\<close>

record ('dt, 'w) store_ops =
  so_put :: "feature_set_create \<Rightarrow> 'w \<Rightarrow> 'dt feature_set res \<times> 'w"
  so_get :: "ustr \<Rightarrow> ustr \<Rightarrow> 'w \<Rightarrow> 'dt feature_set res \<times> 'w"
  so_list :: "ustr \<Rightarrow> 'w \<Rightarrow> ('dt feature_set list res \<times> 'w) option"
  so_delete :: "ustr \<Rightarrow> ustr \<Rightarrow> 'w \<Rightarrow> unit res \<times> 'w"
  so_batch :: "ustr \<Rightarrow> ustr list \<Rightarrow> 'w \<Rightarrow> 'dt feature_set list res \<times> 'w"

definition dynamo_store :: "'dt py_lib \<Rightarrow> 'w dynamo_api \<Rightarrow> ('w \<Rightarrow> 'dt \<times> 'w) \<Rightarrow> ('dt, 'w) store_ops" where
  "dynamo_store lib api clock =
     \<lparr>so_put = put_feature_set lib api clock,
      so_get = get_feature_set lib api,
      so_list = list_feature_sets lib api,
      so_delete = delete_feature_set api,
      so_batch = batch_get_feature_sets lib api\<rparr>"

section \<open>The service\<close>

record inference_request =
  ir_tenant_id :: ustr
  ir_feature_set_name :: ustr
  ir_model_name :: ustr

definition forbidden :: exn where
  "forbidden = AppException ForbiddenAccess (U ''Tenant is not authorized to access the requested resource.'')"

definition ensure_tenant_access :: "ustr \<Rightarrow> ustr \<Rightarrow> unit res" where
  "ensure_tenant_access authenticated_tenant_id requested_tenant_id =
     (if authenticated_tenant_id \<noteq> requested_tenant_id then Inl forbidden else Inr ())"

definition requested_or_own :: "ustr option \<Rightarrow> ustr \<Rightarrow> ustr" where
  \<comment> \<open>\<open>requested_tenant_id or authenticated_tenant.tenant_id\<close>\<close>
  "requested_or_own requested own = (case requested of Some (c # s) \<Rightarrow> c # s | _ \<Rightarrow> own)"

definition svc_create_feature_set :: "('dt, 'w) store_ops \<Rightarrow> 'dt tenant \<Rightarrow> feature_set_create \<Rightarrow> 'w
    \<Rightarrow> 'dt feature_set res \<times> 'w" where
  "svc_create_feature_set store tenant payload w =
     (case ensure_tenant_access (tn_tenant_id tenant) (fc_tenant_id payload) of
        Inl e \<Rightarrow> (Inl e, w)
      | Inr _ \<Rightarrow> so_put store payload w)"

definition svc_get_feature_set :: "('dt, 'w) store_ops \<Rightarrow> 'dt tenant \<Rightarrow> ustr \<Rightarrow> ustr option \<Rightarrow> 'w
    \<Rightarrow> 'dt feature_set res \<times> 'w" where
  "svc_get_feature_set store tenant feature_set_name requested_tenant_id w =
     (let tenant_id = requested_or_own requested_tenant_id (tn_tenant_id tenant)
      in case ensure_tenant_access (tn_tenant_id tenant) tenant_id of
           Inl e \<Rightarrow> (Inl e, w)
         | Inr _ \<Rightarrow> so_get store tenant_id feature_set_name w)"

definition svc_list_feature_sets :: "('dt, 'w) store_ops \<Rightarrow> 'dt tenant \<Rightarrow> ustr option \<Rightarrow> 'w
    \<Rightarrow> ('dt feature_set list res \<times> 'w) option" where
  "svc_list_feature_sets store tenant requested_tenant_id w =
     (let tenant_id = requested_or_own requested_tenant_id (tn_tenant_id tenant)
      in case ensure_tenant_access (tn_tenant_id tenant) tenant_id of
           Inl e \<Rightarrow> Some (Inl e, w)
         | Inr _ \<Rightarrow> so_list store tenant_id w)"

definition svc_delete_feature_set :: "('dt, 'w) store_ops \<Rightarrow> 'dt tenant \<Rightarrow> ustr \<Rightarrow> ustr option \<Rightarrow> 'w
    \<Rightarrow> unit res \<times> 'w" where
  "svc_delete_feature_set store tenant feature_set_name requested_tenant_id w =
     (let tenant_id = requested_or_own requested_tenant_id (tn_tenant_id tenant)
      in case ensure_tenant_access (tn_tenant_id tenant) tenant_id of
           Inl e \<Rightarrow> (Inl e, w)
         | Inr _ \<Rightarrow> so_delete store tenant_id feature_set_name w)"

definition sorted_values :: "(ustr, pyfloat) odict \<Rightarrow> pyfloat list" where
  \<comment> \<open>strings are ordered by code points; the sort is stable\<close>
  "sorted_values features = map snd (sort_key fst features)"

definition prepare_feature_vector :: "('dt, 'w) store_ops \<Rightarrow> 'dt tenant \<Rightarrow> inference_request \<Rightarrow> 'w
    \<Rightarrow> pyfloat list res \<times> 'w" where
  "prepare_feature_vector store tenant request w =
     (case ensure_tenant_access (tn_tenant_id tenant) (ir_tenant_id request) of
        Inl e \<Rightarrow> (Inl e, w)
      | Inr _ \<Rightarrow>
        (case so_get store (ir_tenant_id request) (ir_feature_set_name request) w of
           (Inl e, w') \<Rightarrow> (Inl e, w')
         | (Inr feature_set, w') \<Rightarrow>
           (if fs_features feature_set = []
            then Inl (AppException FeatureSetNotFound
              (quote_name ''Feature set '' (ir_feature_set_name request) '' has no features.''))
            else Inr (sorted_values (fs_features feature_set)), w')))"

definition prepare_batch_feature_vectors :: "('dt, 'w) store_ops \<Rightarrow> 'dt tenant \<Rightarrow> ustr \<Rightarrow> ustr list \<Rightarrow> 'w
    \<Rightarrow> (ustr, pyfloat list) odict res \<times> 'w" where
  "prepare_batch_feature_vectors store tenant tenant_id feature_set_names w =
     (case ensure_tenant_access (tn_tenant_id tenant) tenant_id of
        Inl e \<Rightarrow> (Inl e, w)
      | Inr _ \<Rightarrow>
        (case so_batch store tenant_id feature_set_names w of
           (Inl e, w') \<Rightarrow> (Inl e, w')
         | (Inr feature_sets, w') \<Rightarrow>
           (Inr (foldl (\<lambda>d fs. od_set d (fs_feature_set_name fs) (sorted_values (fs_features fs))) [] feature_sets), w')))"

section \<open>Isolation\<close>

text \<open>What a service call may do: be refused without an access, or stay within the tenant.\<close>

definition confined :: "'dt tenant \<Rightarrow> ustr \<Rightarrow> 'a res \<Rightarrow> 'w \<times> access list \<Rightarrow> 'w \<times> access list \<Rightarrow> bool" where
  "confined tenant requested r w w' \<longleftrightarrow>
     (if requested = tn_tenant_id tenant then touches (feature_of (tn_tenant_id tenant)) w w'
      else r = Inl forbidden \<and> w' = w)"

text \<open>
  The contract: each operation of the data layer for a tenant logs accesses to feature keys of
  that tenant only.
\<close>

locale tenant_store =
  fixes store :: "('dt, 'w \<times> access list) store_ops"
  assumes put_scope: "so_put store f w = (r, w') \<Longrightarrow> touches (feature_of (fc_tenant_id f)) w w'"
    and get_scope: "so_get store t n w = (r', w') \<Longrightarrow> touches (feature_of t) w w'"
    and list_scope: "so_list store t w = Some (rs, w') \<Longrightarrow> touches (feature_of t) w w'"
    and delete_scope: "so_delete store t n w = (ru, w') \<Longrightarrow> touches (feature_of t) w w'"
    and batch_scope: "so_batch store t ns w = (rs, w') \<Longrightarrow> touches (feature_of t) w w'"
begin

lemma create_confined:
  "svc_create_feature_set store tenant payload w = (r, w') \<Longrightarrow> confined tenant (fc_tenant_id payload) r w w'"
  by (auto simp: svc_create_feature_set_def ensure_tenant_access_def confined_def dest: put_scope split: if_splits)

lemma get_confined:
  "svc_get_feature_set store tenant n req w = (r, w') \<Longrightarrow>
   confined tenant (requested_or_own req (tn_tenant_id tenant)) r w w'"
  by (auto simp: svc_get_feature_set_def Let_def ensure_tenant_access_def confined_def dest: get_scope split: if_splits)

lemma list_confined:
  "svc_list_feature_sets store tenant req w = Some (r, w') \<Longrightarrow>
   confined tenant (requested_or_own req (tn_tenant_id tenant)) r w w'"
  by (auto simp: svc_list_feature_sets_def Let_def ensure_tenant_access_def confined_def dest: list_scope split: if_splits)

lemma delete_confined:
  "svc_delete_feature_set store tenant n req w = (r, w') \<Longrightarrow>
   confined tenant (requested_or_own req (tn_tenant_id tenant)) r w w'"
  by (auto simp: svc_delete_feature_set_def Let_def ensure_tenant_access_def confined_def dest: delete_scope split: if_splits)

lemma vector_confined:
  "prepare_feature_vector store tenant req w = (r, w') \<Longrightarrow> confined tenant (ir_tenant_id req) r w w'"
  by (auto simp: prepare_feature_vector_def ensure_tenant_access_def confined_def dest: get_scope
      split: if_splits sum.splits prod.splits)

lemma batch_confined:
  "prepare_batch_feature_vectors store tenant t ns w = (r, w') \<Longrightarrow> confined tenant t r w w'"
  by (auto simp: prepare_batch_feature_vectors_def ensure_tenant_access_def confined_def dest: batch_scope
      split: if_splits sum.splits prod.splits)

end

text \<open>
  \<open>DynamoDBService\<close> keeps the contract over every table and clock; for the retries of a batch
  it relies on the unprocessed keys of a response being keys of its request, which
  \<open>checked_api\<close> makes part of the table.
\<close>

definition checked_api :: "'w dynamo_api \<Rightarrow> 'w dynamo_api" where
  "checked_api api = api\<lparr>dy_batch_get := (\<lambda>keys w. case dy_batch_get api keys w of
     (Inl e, w') \<Rightarrow> (Inl e, w')
   | (Inr resp, w') \<Rightarrow> (Inr (resp\<lparr>br_unprocessed := filter (\<lambda>k. k \<in> set keys) (br_unprocessed resp)\<rparr>), w'))\<rparr>"

lemma checked_unprocessed: "unprocessed_ok (checked_api api)"
  by (auto simp: unprocessed_ok_def checked_api_def split: sum.splits prod.splits)

interpretation dynamo: tenant_store "dynamo_store lib (logged_api (checked_api api)) (logged_clock clock)" for lib api clock
  by unfold_locales
    (auto simp: dynamo_store_def intro: put_touches get_touches list_touches delete_touches
      batch_touches [OF checked_unprocessed])

lemma checked_api_id: "unprocessed_ok api \<Longrightarrow> checked_api api = api"
proof -
  assume ok: "unprocessed_ok api"
  have "(case dy_batch_get api keys w of (Inl e, w') \<Rightarrow> (Inl e, w')
      | (Inr resp, w') \<Rightarrow> (Inr (resp\<lparr>br_unprocessed := filter (\<lambda>k. k \<in> set keys) (br_unprocessed resp)\<rparr>), w'))
    = dy_batch_get api keys w" for keys w
  proof -
    obtain r w' where b: "dy_batch_get api keys w = (r, w')" by (cases "dy_batch_get api keys w")
    show ?thesis
    proof (cases r)
      case (Inr resp)
      then have "set (br_unprocessed resp) \<subseteq> set keys" using ok b unfolding unprocessed_ok_def by blast
      then have "filter (\<lambda>k. k \<in> set keys) (br_unprocessed resp) = br_unprocessed resp"
        by (auto intro: filter_True)
      with b Inr show ?thesis by simp
    qed (simp add: b)
  qed
  then show ?thesis by (simp add: checked_api_def)
qed

section \<open>Feature vectors\<close>

lemma sorted_values_canonical:
  assumes "mset d = mset d'" and "distinct (map fst d)"
  shows "sorted_values d = sorted_values d'"
proof -
  have "inj_on fst (set d)" using assms(2) by (simp add: distinct_map)
  from sort_key_eq_sort_key [OF assms(1) this] show ?thesis by (simp add: sorted_values_def)
qed

lemma foldl_od_set_None: "a \<notin> k ` set xs \<Longrightarrow> od_get (foldl (\<lambda>d x. od_set d (k x) (v x)) [] xs) a = None"
  by (induction xs rule: rev_induct) (auto simp: od_get_set)

lemma foldl_od_set:
  assumes "\<And>x y. x \<in> set xs \<Longrightarrow> y \<in> set xs \<Longrightarrow> k x = k y \<Longrightarrow> v x = v y" and "x \<in> set xs"
  shows "od_get (foldl (\<lambda>d x. od_set d (k x) (v x)) [] xs) (k x) = Some (v x)"
  using assms
proof (induction xs rule: rev_induct)
  case (snoc y xs)
  show ?case
  proof (cases "k x = k y")
    case True
    have "v x = v y" by (rule snoc.prems(1) [OF snoc.prems(2) _ True]) simp
    with True show ?thesis by (simp add: od_get_set)
  next
    case False
    then have x: "x \<in> set xs" using snoc.prems(2) by (cases "x = y") auto
    have "v a = v b" if "a \<in> set xs" "b \<in> set xs" "k a = k b" for a b
      by (rule snoc.prems(1)) (use that in simp_all)
    note IH = snoc.IH [OF this x]
    show ?thesis unfolding foldl_append foldl.simps od_get_set using IH False by (simp only: if_False)
  qed
qed simp

section \<open>Properties\<close>

text \<open>C24. A feature vector is prepared only for the caller's own tenant, from
  one read of the feature set, which is not empty; the vector lists the values in the order of
  their feature names. Hence it depends on the set of named values alone: any rearrangement of
  the stored features gives the same vector.\<close>

theorem feature_vector_canonical:
  assumes "prepare_feature_vector store tenant request w = (Inr vector, w')"
  shows "ir_tenant_id request = tn_tenant_id tenant
    \<and> (\<exists>fs named. so_get store (ir_tenant_id request) (ir_feature_set_name request) w = (Inr fs, w')
        \<and> fs_features fs \<noteq> [] \<and> mset named = mset (fs_features fs) \<and> sorted (map fst named)
        \<and> vector = map snd named
        \<and> (\<forall>d. mset d = mset (fs_features fs) \<longrightarrow> distinct (map fst d) \<longrightarrow> sorted_values d = vector))"
proof -
  have t: "ir_tenant_id request = tn_tenant_id tenant"
    using assms by (auto simp: prepare_feature_vector_def ensure_tenant_access_def split: if_splits)
  obtain r w1 where g: "so_get store (ir_tenant_id request) (ir_feature_set_name request) w = (r, w1)"
    by (cases "so_get store (ir_tenant_id request) (ir_feature_set_name request) w")
  then obtain fs' where "r = Inr fs'"
    using assms t by (cases r) (simp_all add: prepare_feature_vector_def ensure_tenant_access_def)
  with assms t g obtain fs where fs: "so_get store (ir_tenant_id request) (ir_feature_set_name request) w = (Inr fs, w')"
      "fs_features fs \<noteq> []" "vector = sorted_values (fs_features fs)" "ir_tenant_id request = tn_tenant_id tenant"
    by (auto simp: prepare_feature_vector_def ensure_tenant_access_def split: if_splits)
  have "\<forall>d. mset d = mset (fs_features fs) \<longrightarrow> distinct (map fst d) \<longrightarrow> sorted_values d = vector"
    using sorted_values_canonical fs(3) by blast
  moreover have "mset (sort_key fst (fs_features fs)) = mset (fs_features fs)"
    "sorted (map fst (sort_key fst (fs_features fs)))" "vector = map snd (sort_key fst (fs_features fs))"
    using fs(3) by (simp_all add: sorted_values_def)
  ultimately show ?thesis using fs(1,2,4) by blast
qed

definition sample_tenant :: "nat tenant" where
  \<comment> \<open>a concrete tenant, for the witnesses\<close>
  "sample_tenant = \<lparr>tn_tenant_id = U ''t'', tn_api_key = U ''k'', tn_created_at = 0, tn_is_active = True,
     tn_allowed_models = []\<rparr>"

lemma sample_get: "so_get (dynamo_store mem_lib mem_api mem_clock) (U ''t'') (U ''f'') sample_table
    = (Inr (created 0 sample_set), sample_table)"
proof -
  have "dy_get_item mem_api (U ''t'', feature_resource_id (U ''f'')) sample_table
      = (Inr (Some (stored_item (feature_item mem_lib 0 sample_set))), sample_table)"
    by (simp add: mem_api_def sample_table_def od_get_def)
  moreover have "stored_item (feature_item mem_lib 0 sample_set) \<noteq> []"
    by (simp add: stored_item_def feature_item_def)
  ultimately show ?thesis
    using feature_item_response(2) [OF mem_lib_ok sample_floats, of 0] stored_entity [of mem_lib 0 sample_set]
    by (cases "stored_item (feature_item mem_lib 0 sample_set)")
      (auto simp: dynamo_store_def get_feature_set_def split: list.split)
qed

theorem feature_vector_canonical_witness:
  "prepare_feature_vector (dynamo_store mem_lib mem_api mem_clock) sample_tenant
     \<lparr>ir_tenant_id = U ''t'', ir_feature_set_name = U ''f'', ir_model_name = U ''m''\<rparr> sample_table
   = (Inr [Fin 3], sample_table) \<and> sorted_values [(U ''x'', Fin 3)] = [Fin 3]"
proof -
  let ?req = "\<lparr>ir_tenant_id = U ''t'', ir_feature_set_name = U ''f'', ir_model_name = U ''m''\<rparr>"
  have v: "prepare_feature_vector (dynamo_store mem_lib mem_api mem_clock) sample_tenant ?req sample_table
     = (Inr [Fin 3], sample_table)"
    by (simp add: prepare_feature_vector_def ensure_tenant_access_def sample_tenant_def sample_get created_def
        sample_set_def sorted_values_def)
  from feature_vector_canonical [OF v] have "\<forall>d. mset d = mset [(U ''x'', Fin 3)] \<longrightarrow> distinct (map fst d)
      \<longrightarrow> sorted_values d = [Fin 3]"
    by (auto simp: sample_get created_def sample_set_def)
  with v show ?thesis by simp
qed



end
