(* ===== verification/Auth.thy ===== *)
theory Auth
  imports Logging FeatureService
begin

text \<open>
  \<open>feature_store/middleware/tenant_auth.py\<close>: a request is authenticated by two headers against
  the tenant's record. The scope of a request is what handlers share: Starlette's
  \<open>request.state\<close> and the logging context.
\<close>

record 'dt scope =
  sp_request_id :: "ustr option"
  sp_tenant :: "'dt tenant option"
  sp_tenant_id :: "ustr option"
  sp_log :: log_context

definition unauthorized :: "string \<Rightarrow> exn" where
  "unauthorized m = AppException UnauthorizedAccess (U m)"

definition compare_digest :: "ustr \<Rightarrow> ustr \<Rightarrow> bool res" where
  \<comment> \<open>strings must be ASCII\<close>
  "compare_digest a b = (if ascii a \<and> ascii b then Inr (a = b) else Inl TypeError)"

fun is_tenant_not_found :: "exn \<Rightarrow> bool" where
  "is_tenant_not_found (AppException k _) = (k = TenantNotFound)"
| "is_tenant_not_found _ = False"

definition header_text :: "ustr option \<Rightarrow> ustr" where
  \<comment> \<open>\<open>(header or "").strip()\<close>\<close>
  "header_text h = strip (case h of None \<Rightarrow> [] | Some s \<Rightarrow> s)"

definition get_current_tenant :: "'dt py_lib \<Rightarrow> 'w dynamo_api \<Rightarrow> ustr option \<Rightarrow> ustr option \<Rightarrow> 'dt scope \<Rightarrow> 'w
    \<Rightarrow> 'dt tenant res \<times> 'dt scope \<times> 'w" where
  "get_current_tenant lib api x_tenant_id x_api_key sc w =
     (let normalized_tenant_id = header_text x_tenant_id;
          provided_api_key = header_text x_api_key
      in if normalized_tenant_id = [] \<or> provided_api_key = []
         then (Inl (unauthorized ''Missing required authentication headers: X-Tenant-ID and X-API-Key.''), sc, w)
         else case get_tenant_record lib api normalized_tenant_id w of
           (Inl e, w') \<Rightarrow> (Inl (if is_tenant_not_found e then unauthorized ''Invalid tenant credentials.'' else e), sc, w')
         | (Inr tenant, w') \<Rightarrow>
           if \<not> tn_is_active tenant then (Inl (unauthorized ''Tenant account is inactive.''), sc, w')
           else case compare_digest (tn_api_key tenant) provided_api_key of
             Inl e \<Rightarrow> (Inl e, sc, w')
           | Inr same \<Rightarrow>
             if \<not> same then (Inl (unauthorized ''Invalid tenant credentials.''), sc, w')
             else (Inr tenant,
                   sc\<lparr>sp_tenant := Some tenant, sp_tenant_id := Some (tn_tenant_id tenant),
                      sp_log := set_log_context None (Some (tn_tenant_id tenant)) (sp_log sc)\<rparr>, w'))"

definition get_optional_tenant :: "'dt scope \<Rightarrow> 'dt tenant option" where
  "get_optional_tenant sc = sp_tenant sc"

section \<open>What a table says of credentials\<close>

definition credentials :: "'dt py_lib \<Rightarrow> (item_key \<Rightarrow> item option) \<Rightarrow> ustr option \<Rightarrow> ustr option \<Rightarrow> 'dt tenant \<Rightarrow> bool" where
  \<comment> \<open>the headers name an active tenant with a record and give its key\<close>
  "credentials lib t x_tenant_id x_api_key tenant \<longleftrightarrow>
     header_text x_tenant_id \<noteq> [] \<and> header_text x_api_key \<noteq> []
   \<and> (\<exists>item. t (header_text x_tenant_id, tenant_resource_id (header_text x_tenant_id)) = Some item
        \<and> od_get item (U ''entity_type'') = Some (AStr (U ''TENANT'')) \<and> item_to_tenant lib item = Inr tenant)
   \<and> tn_is_active tenant \<and> tn_api_key tenant = header_text x_api_key"

fun store_failure :: "exn \<Rightarrow> bool" where
  \<comment> \<open>what reading a record raises beside \<open>TenantNotFound\<close>\<close>
  "store_failure (AppException k _) = (k = DataStoreError)"
| "store_failure _ = True"

lemma store_failure_library: "library_error e \<Longrightarrow> store_failure e"
  by (cases e) (simp_all add: library_error_def)

lemma store_failureD: "store_failure e \<Longrightarrow> \<not> is_tenant_not_found e \<and> (\<forall>m. e \<noteq> AppException UnauthorizedAccess m)"
  by (cases e) auto

lemma item_to_tenant_Inl:
  assumes "lib_ok lib" and "item_to_tenant lib item = Inl e"
  shows "store_failure e"
proof -
  have v: "store_failure validation_error" "store_failure KeyError" by (simp_all add: validation_error_def)
  have l: "list_of v = Inl e' \<Longrightarrow> store_failure e'" for v e'
    by (auto simp: list_of_def split: attr.splits)
  have m: "mapR (str_of lib) vs = Inl e' \<Longrightarrow> store_failure e'" for vs e'
    using str_of_Inl v by (fastforce dest!: mapR_Inl)
  have p: "parse_datetime lib v = Inl e' \<Longrightarrow> store_failure e'" for v e'
    using parse_datetime_Inl [OF assms(1), of v e'] by (auto intro: store_failure_library)
  show ?thesis
    using assms(2) v unfolding item_to_tenant_def bindR_Inl_iff
    by (elim disjE exE conjE) (auto dest: l m p item_at_Inl str_of_Inl split: option.splits)
qed

lemma tenant_record_cases:
  assumes "lib_ok lib" and "reads_ok api tbl" and "get_tenant_record lib api t w = (r, w')"
  shows "tbl w' = tbl w"
    and "case r of
        Inr tenant \<Rightarrow> \<exists>item. tbl w (t, tenant_resource_id t) = Some item
          \<and> od_get item (U ''entity_type'') = Some (AStr (U ''TENANT'')) \<and> item_to_tenant lib item = Inr tenant
      | Inl e \<Rightarrow> store_failure e \<or> is_tenant_not_found e \<and>
          (\<forall>item. tbl w (t, tenant_resource_id t) = Some item \<longrightarrow> od_get item (U ''entity_type'') \<noteq> Some (AStr (U ''TENANT'')))"
    (is "?cases")
proof -
  obtain rf w1 where g: "dy_get_item api (t, tenant_resource_id t) w = (rf, w1)"
    by (cases "dy_get_item api (t, tenant_resource_id t) w")
  with assms(2) have tbl: "tbl w1 = tbl w"
    and rf: "case rf of Inr found \<Rightarrow> found = tbl w (t, tenant_resource_id t) | Inl e \<Rightarrow> library_error e"
    unfolding reads_ok_def by blast+
  have "w' = w1" using assms(3) g by (auto simp: get_tenant_record_def split: sum.splits option.splits list.splits)
  with tbl show "tbl w' = tbl w" by simp
  show ?cases
  proof (cases rf)
    case (Inl e)
    with rf assms(3) g show ?thesis by (auto simp: get_tenant_record_def intro: store_failure_library)
  next
    case (Inr found)
    then have found: "tbl w (t, tenant_resource_id t) = found" using rf by simp
    consider "found = None \<or> found = Some []" | a it where "found = Some (a # it)" by (cases found; cases "the found") auto
    then show ?thesis
    proof cases
      case 1
      with assms(3) g Inr found show ?thesis by (auto simp: get_tenant_record_def)
    next
      case (2 a it)
      show ?thesis
      proof (cases "od_get (a # it) (U ''entity_type'') = Some (AStr (U ''TENANT''))")
        case True
        then have "r = item_to_tenant lib (a # it)" using assms(3) g Inr 2 by (auto simp: get_tenant_record_def)
        with True found 2 item_to_tenant_Inl [OF assms(1), of "a # it"] show ?thesis
          by (auto split: sum.split)
      next
        case False
        with assms(3) g Inr 2 found show ?thesis by (auto simp: get_tenant_record_def)
      qed
    qed
  qed
qed

section \<open>Properties\<close>

definition authenticated_scope :: "'dt tenant \<Rightarrow> 'dt scope \<Rightarrow> 'dt scope" where
  "authenticated_scope tenant sc =
     sc\<lparr>sp_tenant := Some tenant, sp_tenant_id := Some (tn_tenant_id tenant),
        sp_log := (sp_log sc)\<lparr>lc_tenant_id := Some (tn_tenant_id tenant)\<rparr>\<rparr>"

lemma authentication_result:
  assumes "get_current_tenant lib api hid hkey sc w = (r, sc', w')"
  shows "header_text hid \<noteq> [] \<and> header_text hkey \<noteq> [] \<and> (\<exists>rt. get_tenant_record lib api (header_text hid) w = (rt, w')
      \<and> (case rt of
           Inl e \<Rightarrow> sc' = sc \<and> r = Inl (if is_tenant_not_found e then unauthorized ''Invalid tenant credentials.'' else e)
         | Inr tenant \<Rightarrow>
             if tn_is_active tenant \<and> tn_api_key tenant = header_text hkey \<and> ascii (header_text hkey)
             then r = Inr tenant \<and> sc' = authenticated_scope tenant sc
             else sc' = sc \<and> (\<exists>e. r = Inl e \<and> ((\<exists>m. e = unauthorized m) \<and> \<not> (tn_is_active tenant \<and> tn_api_key tenant = header_text hkey) \<or> e = TypeError))))
    \<or> (header_text hid = [] \<or> header_text hkey = []) \<and> sc' = sc \<and> w' = w \<and> (\<exists>m. r = Inl (unauthorized m))"
proof (cases "header_text hid = [] \<or> header_text hkey = []")
  case True
  with assms show ?thesis by (auto simp: get_current_tenant_def Let_def)
next
  case False
  obtain rt w1 where g: "get_tenant_record lib api (header_text hid) w = (rt, w1)"
    by (cases "get_tenant_record lib api (header_text hid) w")
  have "w' = w1" using assms False g by (auto simp: get_current_tenant_def Let_def split: sum.splits if_splits)
  with assms False g show ?thesis
    by (cases rt) (auto simp: get_current_tenant_def Let_def compare_digest_def authenticated_scope_def set_log_context_def
        split: if_splits)
qed

lemma authentication_passed:
  assumes "lib_ok lib" and "reads_ok api tbl" and "get_current_tenant lib api hid hkey sc w = (Inr tenant, sc', w')"
  shows "credentials lib (tbl w) hid hkey tenant"
  using authentication_result [OF assms(3)] tenant_record_cases(2) [OF assms(1,2), of "header_text hid" w]
  by (fastforce simp: credentials_def split: sum.splits if_splits)

text \<open>C4. A request passes only with credentials the tenants' records bear out: the
  record of the tenant named by the header, active, with the very key of the other header. Then
  the scope and the logs carry that tenant. Valid credentials are never refused as unauthorized,
  and whatever the outcome, nothing is written.\<close>

theorem authentication_sound:
  assumes "lib_ok lib" and "reads_ok api tbl"
    and "get_current_tenant lib api x_tenant_id x_api_key sc w = (r, sc', w')"
  shows "tbl w' = tbl w
    \<and> (case r of
        Inr tenant \<Rightarrow> credentials lib (tbl w) x_tenant_id x_api_key tenant \<and> sc' = authenticated_scope tenant sc
      | Inl e \<Rightarrow> sc' = sc \<and> (case e of
            AppException UnauthorizedAccess _ \<Rightarrow> \<not> (\<exists>tenant. credentials lib (tbl w) x_tenant_id x_api_key tenant)
          | _ \<Rightarrow> True))"
  using authentication_result [OF assms(3)]
proof (elim disjE conjE exE)
  fix rt
  assume h: "header_text x_tenant_id \<noteq> []" "header_text x_api_key \<noteq> []"
    and g: "get_tenant_record lib api (header_text x_tenant_id) w = (rt, w')"
    and rt: "case rt of
           Inl e \<Rightarrow> sc' = sc \<and> r = Inl (if is_tenant_not_found e then unauthorized ''Invalid tenant credentials.'' else e)
         | Inr tenant \<Rightarrow>
             if tn_is_active tenant \<and> tn_api_key tenant = header_text x_api_key \<and> ascii (header_text x_api_key)
             then r = Inr tenant \<and> sc' = authenticated_scope tenant sc
             else sc' = sc \<and> (\<exists>e. r = Inl e \<and> ((\<exists>m. e = unauthorized m) \<and> \<not> (tn_is_active tenant \<and> tn_api_key tenant = header_text x_api_key) \<or> e = TypeError))"
  note c = tenant_record_cases [OF assms(1,2) g]
  show ?thesis
  proof (cases rt)
    case (Inl e)
    with c(2) have "store_failure e \<or> is_tenant_not_found e \<and> \<not> (\<exists>tenant. credentials lib (tbl w) x_tenant_id x_api_key tenant)"
      by (auto simp: credentials_def)
    with rt Inl c(1) show ?thesis
      using store_failureD [of e] by (auto simp: unauthorized_def split: exn.split app_kind.split)
  next
    case (Inr tenant)
    with c(2) obtain item where "tbl w (header_text x_tenant_id, tenant_resource_id (header_text x_tenant_id)) = Some item"
        "od_get item (U ''entity_type'') = Some (AStr (U ''TENANT''))" "item_to_tenant lib item = Inr tenant" by auto
    then have cred: "credentials lib (tbl w) x_tenant_id x_api_key t \<longleftrightarrow>
        t = tenant \<and> tn_is_active tenant \<and> tn_api_key tenant = header_text x_api_key" for t
      using h by (auto simp: credentials_def)
    from rt Inr cred c(1) show ?thesis by (auto simp: unauthorized_def split: if_splits)
  qed
qed (auto simp: unauthorized_def credentials_def)

definition tenant_table :: "(item_key, item) odict" where
  \<comment> \<open>a table with one tenant, for the witnesses\<close>
  "tenant_table =
     [((U ''t'', tenant_resource_id (U ''t'')),
       [(U ''tenant_id'', AStr (U ''t'')), (U ''resource_id'', AStr (tenant_resource_id (U ''t''))),
        (U ''entity_type'', AStr (U ''TENANT'')), (U ''api_key'', AStr (U ''k'')), (U ''created_at'', AStr (U ''0''))])]"

lemma tenant_table_record: "get_tenant_record mem_lib mem_api (U ''t'') tenant_table = (Inr sample_tenant, tenant_table)"
  by (simp add: get_tenant_record_def mem_api_def tenant_table_def od_get_def item_to_tenant_def item_at_def mem_lib_def
      parse_datetime_def str_of_def sample_tenant_def truthy_def) (simp add: U_def dec_val_def)

theorem authentication_sound_witness:
  "\<exists>sc'. get_current_tenant mem_lib mem_api (Some (U ''t'')) (Some (U '' k''))
       \<lparr>sp_request_id = None, sp_tenant = None, sp_tenant_id = None, sp_log = no_context\<rparr> tenant_table
     = (Inr sample_tenant, sc', tenant_table)
   \<and> credentials mem_lib (od_get tenant_table) (Some (U ''t'')) (Some (U '' k'')) sample_tenant"
proof -
  let ?sc = "\<lparr>sp_request_id = None, sp_tenant = None, sp_tenant_id = None, sp_log = no_context\<rparr> :: nat scope"
  have h: "header_text (Some (U ''t'')) = U ''t''" "header_text (Some (U '' k'')) = U ''k''"
    by (simp_all add: header_text_def strip_def U_def py_space_def)
  have g: "get_current_tenant mem_lib mem_api (Some (U ''t'')) (Some (U '' k'')) ?sc tenant_table
      = (Inr sample_tenant, authenticated_scope sample_tenant ?sc, tenant_table)"
    unfolding get_current_tenant_def Let_def h tenant_table_record
    by (simp add: sample_tenant_def compare_digest_def authenticated_scope_def set_log_context_def) (simp add: U_def)
  from authentication_sound [OF mem_lib_ok mem_reads_ok g] g show ?thesis by auto
qed

end
