(* ===== verification/Artifacts.thy ===== *)
theory Artifacts
  imports Errors
begin

text \<open>
  The encrypted model artifacts on the host, as \<open>feature_store/routers/inference.py\<close> finds them:
  POSIX paths as \<open>pathlib\<close> parses and joins them, over the file system's operations.
\<close>

section \<open>Paths\<close>

text \<open>\<open>PurePosixPath\<close>: the root (nothing, one or two slashes) and the parts.\<close>

record pypath =
  pa_root :: ustr
  pa_parts :: "ustr list"

fun split_slash :: "ustr \<Rightarrow> ustr list" where
  "split_slash [] = [[]]"
| "split_slash (c # s) =
     (if c = 47 then [] # split_slash s
      else case split_slash s of p # ps \<Rightarrow> (c # p) # ps | [] \<Rightarrow> [[c]])"

definition parse_path :: "ustr \<Rightarrow> pypath" where
  "parse_path s =
     \<lparr>pa_root = (if take 2 s = [47, 47] \<and> take 3 s \<noteq> [47, 47, 47] then [47, 47]
                 else if take 1 s = [47] then [47] else []),
      pa_parts = filter (\<lambda>p. p \<noteq> [] \<and> p \<noteq> [46]) (split_slash s)\<rparr>"

definition join_path :: "pypath \<Rightarrow> ustr \<Rightarrow> pypath" where
  \<comment> \<open>\<open>p / s\<close>: an absolute \<open>s\<close> replaces \<open>p\<close>\<close>
  "join_path p s =
     (let q = parse_path s in if pa_root q \<noteq> [] then q else p\<lparr>pa_parts := pa_parts p @ pa_parts q\<rparr>)"

section \<open>Files\<close>

record 'w files =
  fl_resolve :: "pypath \<Rightarrow> 'w \<Rightarrow> pypath res \<times> 'w"
  fl_is_file :: "pypath \<Rightarrow> 'w \<Rightarrow> bool res \<times> 'w"
  fl_is_dir :: "pypath \<Rightarrow> 'w \<Rightarrow> bool res \<times> 'w"
  fl_exists :: "pypath \<Rightarrow> 'w \<Rightarrow> bool res \<times> 'w"
  fl_iterdir :: "pypath \<Rightarrow> 'w \<Rightarrow> ustr list res \<times> 'w"
  fl_read_bytes :: "pypath \<Rightarrow> 'w \<Rightarrow> bytes res \<times> 'w"
  fl_write_bytes :: "pypath \<Rightarrow> bytes \<Rightarrow> 'w \<Rightarrow> unit res \<times> 'w"
  fl_mkdir :: "pypath \<Rightarrow> 'w \<Rightarrow> unit res \<times> 'w"

definition thenW :: "'a res \<times> 'w \<Rightarrow> ('a \<Rightarrow> 'w \<Rightarrow> 'b res \<times> 'w) \<Rightarrow> 'b res \<times> 'w" where
  \<comment> \<open>one call after another\<close>
  "thenW x f = (case x of (Inl e, w) \<Rightarrow> (Inl e, w) | (Inr a, w) \<Rightarrow> f a w)"

lemma thenW_simps [simp]: "thenW (Inl e, w) f = (Inl e, w)" "thenW (Inr a, w) f = f a w"
  by (simp_all add: thenW_def)

lemma thenW_cong [fundef_cong]:
  "x = y \<Longrightarrow> (\<And>a w. y = (Inr a, w) \<Longrightarrow> f a w = g a w) \<Longrightarrow> thenW x f = thenW y g"
  by (cases y; cases "fst y") auto

lemma thenW_case: "thenW x f = (r, w') \<longleftrightarrow>
    (\<exists>e. x = (Inl e, w') \<and> r = Inl e) \<or> (\<exists>a w. x = (Inr a, w) \<and> f a w = (r, w'))"
  by (cases x; cases "fst x") auto

definition both_files :: "'w files \<Rightarrow> pypath \<Rightarrow> 'w \<Rightarrow> bool res \<times> 'w" where
  \<comment> \<open>whether a directory has both artifacts; the second is not looked for without the first\<close>
  "both_files fl dir w =
     thenW (fl_is_file fl (join_path dir (U ''encrypted_model.bin'')) w) (\<lambda>found w1.
       if found then fl_is_file fl (join_path dir (U ''encrypted_data_key.bin'')) w1 else (Inr False, w1))"

section \<open>The router's operations\<close>

definition model_storage_root :: "'w files \<Rightarrow> ustr option \<Rightarrow> 'w \<Rightarrow> pypath res \<times> 'w" where
  \<comment> \<open>the second argument is the environment variable \<open>MODEL_STORAGE_DIR\<close>\<close>
  "model_storage_root fl env w =
     fl_resolve fl (parse_path (case env of Some s \<Rightarrow> s | None \<Rightarrow> U ''artifacts'')) w"

definition in_quotes :: "ustr \<Rightarrow> ustr" where
  "in_quotes s = [39] @ s @ [39]"

definition load_model_artifacts :: "'w files \<Rightarrow> ustr option \<Rightarrow> ustr \<Rightarrow> ustr \<Rightarrow> 'w \<Rightarrow> (bytes \<times> bytes) res \<times> 'w" where
  "load_model_artifacts fl env tenant_id model_name w =
     thenW (model_storage_root fl env w) (\<lambda>root w1.
     let model_directory = join_path (join_path root tenant_id) model_name in
     thenW (both_files fl model_directory w1) (\<lambda>found w2.
     if \<not> found
     then (Inl (AppException ModelArtifactNotFoundError
            (U ''Encrypted model artifacts for '' @ in_quotes model_name @ U '' were not found for tenant ''
             @ in_quotes tenant_id @ U ''.'')), w2)
     else
       thenW (fl_read_bytes fl (join_path model_directory (U ''encrypted_model.bin'')) w2) (\<lambda>encrypted_model_blob w3.
       thenW (fl_read_bytes fl (join_path model_directory (U ''encrypted_data_key.bin'')) w3) (\<lambda>encrypted_model_key w4.
         if encrypted_model_blob = [] \<or> encrypted_model_key = []
         then (Inl (AppException ModelArtifactInvalidError
                (U ''Encrypted model artifacts for '' @ in_quotes model_name @ U '' are empty or invalid.'')), w4)
         else (Inr (encrypted_model_blob, encrypted_model_key), w4)))))"

fun stored_names :: "'w files \<Rightarrow> pypath \<Rightarrow> ustr list \<Rightarrow> 'w \<Rightarrow> ustr list res \<times> 'w" where
  \<comment> \<open>the list comprehension over the entries of the tenant's directory\<close>
  "stored_names fl dir [] w = (Inr [], w)"
| "stored_names fl dir (name # names) w =
     thenW (fl_is_dir fl (join_path dir name) w) (\<lambda>is_directory w1.
     thenW (if is_directory then both_files fl (join_path dir name) w1 else (Inr False, w1)) (\<lambda>stored w2.
     thenW (stored_names fl dir names w2) (\<lambda>rest w3. (Inr (if stored then name # rest else rest), w3))))"

definition list_stored_models :: "'w files \<Rightarrow> ustr option \<Rightarrow> ustr \<Rightarrow> 'w \<Rightarrow> ustr list res \<times> 'w" where
  "list_stored_models fl env tenant_id w =
     thenW (model_storage_root fl env w) (\<lambda>root w1.
     let tenant_dir = join_path root tenant_id in
     thenW (fl_exists fl tenant_dir w1) (\<lambda>found w2.
     if \<not> found then (Inr [], w2)
     else thenW (fl_iterdir fl tenant_dir w2) (\<lambda>names w3. stored_names fl tenant_dir names w3)))"

section \<open>Plain names\<close>

definition plain :: "ustr \<Rightarrow> bool" where
  \<comment> \<open>a file name: no slash, not empty, neither \<open>.\<close> nor \<open>..\<close>\<close>
  "plain s \<longleftrightarrow> s \<noteq> [] \<and> s \<noteq> [46] \<and> s \<noteq> [46, 46] \<and> 47 \<notin> set s"

lemma split_plain: "47 \<notin> set s \<Longrightarrow> split_slash s = [s]"
  by (induction s) auto

lemma parse_plain: "plain s \<Longrightarrow> parse_path s = \<lparr>pa_root = [], pa_parts = [s]\<rparr>"
  by (cases s) (auto simp: plain_def parse_path_def split_plain)

lemma join_plain: "plain s \<Longrightarrow> join_path p s = p\<lparr>pa_parts := pa_parts p @ [s]\<rparr>"
  by (simp add: join_path_def parse_plain Let_def)

lemma artifact_names: "plain (U ''encrypted_model.bin'')" "plain (U ''encrypted_data_key.bin'')"
  by (simp_all add: plain_def U_def)

text \<open>A name that is not plain leaves the tenant's directory.\<close>

lemma split_slash_append: "47 \<notin> set s \<Longrightarrow> split_slash (s @ 47 # t) = s # split_slash t"
  by (induction s) auto

lemma traversal:
  assumes "plain other" and "plain name"
  shows "pa_parts (join_path (join_path root tenant) ([46, 46] @ [47] @ other @ [47] @ name))
    = pa_parts (join_path root tenant) @ [[46, 46], other, name]"
proof -
  have "split_slash (46 # 46 # 47 # other @ 47 # name) = [[46, 46], other, name]"
    using assms split_slash_append [of "[46, 46]"] split_slash_append [of other] split_plain [of name]
    by (simp add: plain_def)
  moreover have "pa_root (parse_path (46 # 46 # 47 # other @ 47 # name)) = []" by (simp add: parse_path_def)
  ultimately show ?thesis using assms by (simp add: join_path_def parse_path_def plain_def Let_def)
qed

lemma absolute_name_replaces: "join_path p (47 # s) = parse_path (47 # s)"
  by (auto simp: join_path_def parse_path_def Let_def)

section \<open>Which files are touched\<close>

definition logged_files :: "'w files \<Rightarrow> ('w \<times> pypath list) files" where
  "logged_files fl =
     \<lparr>fl_resolve = (\<lambda>p (w, l). case fl_resolve fl p w of (r, w') \<Rightarrow> (r, (w', l))),
      fl_is_file = (\<lambda>p (w, l). case fl_is_file fl p w of (r, w') \<Rightarrow> (r, (w', l @ [p]))),
      fl_is_dir = (\<lambda>p (w, l). case fl_is_dir fl p w of (r, w') \<Rightarrow> (r, (w', l @ [p]))),
      fl_exists = (\<lambda>p (w, l). case fl_exists fl p w of (r, w') \<Rightarrow> (r, (w', l @ [p]))),
      fl_iterdir = (\<lambda>p (w, l). case fl_iterdir fl p w of (r, w') \<Rightarrow> (r, (w', l @ [p]))),
      fl_read_bytes = (\<lambda>p (w, l). case fl_read_bytes fl p w of (r, w') \<Rightarrow> (r, (w', l @ [p]))),
      fl_write_bytes = (\<lambda>p b (w, l). case fl_write_bytes fl p b w of (r, w') \<Rightarrow> (r, (w', l @ [p]))),
      fl_mkdir = (\<lambda>p (w, l). case fl_mkdir fl p w of (r, w') \<Rightarrow> (r, (w', l @ [p])))\<rparr>"

definition visits :: "('a \<Rightarrow> bool) \<Rightarrow> 'w \<times> 'a list \<Rightarrow> 'w \<times> 'a list \<Rightarrow> bool" where
  \<comment> \<open>the log grows, by entries of a kind\<close>
  "visits P w w' \<longleftrightarrow> (\<exists>new. snd w' = snd w @ new \<and> list_all P new)"

lemma visits_refl [simp]: "visits P w w"
  by (simp add: visits_def)

lemma visits_trans: "visits P w w' \<Longrightarrow> visits P w' w'' \<Longrightarrow> visits P w w''"
  by (auto simp: visits_def)

lemma visits_thenW:
  assumes "visits P w (snd x)" and "\<And>a w1. x = (Inr a, w1) \<Longrightarrow> visits P w1 (snd (f a w1))"
  shows "visits P w (snd (thenW x f))"
  using assms by (cases x; cases "fst x") (auto intro: visits_trans)

lemma visits_if: "(b \<Longrightarrow> visits P w (snd x)) \<Longrightarrow> (\<not> b \<Longrightarrow> visits P w (snd y)) \<Longrightarrow> visits P w (snd (if b then x else y))"
  by simp

lemma visits_done: "visits P w (snd (r, w))"
  by simp

lemma logged_files_visits:
  "visits P w (snd (fl_resolve (logged_files fl) p w))"
  "P p \<Longrightarrow> visits P w (snd (fl_is_file (logged_files fl) p w))"
  "P p \<Longrightarrow> visits P w (snd (fl_is_dir (logged_files fl) p w))"
  "P p \<Longrightarrow> visits P w (snd (fl_exists (logged_files fl) p w))"
  "P p \<Longrightarrow> visits P w (snd (fl_iterdir (logged_files fl) p w))"
  "P p \<Longrightarrow> visits P w (snd (fl_read_bytes (logged_files fl) p w))"
  by (cases w; auto simp: logged_files_def visits_def split: prod.split)+

definition artifact_of :: "pypath \<Rightarrow> ustr \<Rightarrow> ustr \<Rightarrow> pypath \<Rightarrow> bool" where
  \<comment> \<open>one of the two artifact files of a tenant's model\<close>
  "artifact_of root tenant model p \<longleftrightarrow>
     (\<exists>f \<in> {U ''encrypted_model.bin'', U ''encrypted_data_key.bin''}.
        p = root\<lparr>pa_parts := pa_parts root @ [tenant, model, f]\<rparr>)"

lemma artifact_paths:
  assumes "plain tenant" and "plain model"
  shows "join_path (join_path root tenant) model = root\<lparr>pa_parts := pa_parts root @ [tenant, model]\<rparr>"
    and "artifact_of root tenant model (join_path (join_path (join_path root tenant) model) (U ''encrypted_model.bin''))"
    and "artifact_of root tenant model (join_path (join_path (join_path root tenant) model) (U ''encrypted_data_key.bin''))"
  using assms artifact_names by (simp_all add: join_plain artifact_of_def)

lemma artifact_of_tenant: "artifact_of root t m p \<Longrightarrow> artifact_of root t' m' p \<Longrightarrow> t = t' \<and> m = m'"
  by (cases root) (auto simp: artifact_of_def)

lemma both_files_visits:
  assumes "P (join_path dir (U ''encrypted_model.bin''))" and "P (join_path dir (U ''encrypted_data_key.bin''))"
  shows "visits P w (snd (both_files (logged_files fl) dir w))"
  unfolding both_files_def by (intro visits_thenW visits_if visits_done logged_files_visits assms)

lemma root_visits: "visits P w (snd (model_storage_root (logged_files fl) env w))"
  unfolding model_storage_root_def by (rule logged_files_visits)

lemma logged_root: "fst (model_storage_root (logged_files fl) env w) = fst (model_storage_root fl env (fst w))"
  by (cases w) (simp add: model_storage_root_def logged_files_def split: prod.split)

lemma load_visits:
  assumes "plain tenant" and "plain model"
    and "\<And>root p. fst (model_storage_root fl env (fst w)) = Inr root \<Longrightarrow> artifact_of root tenant model p \<Longrightarrow> P p"
  shows "visits P w (snd (load_model_artifacts (logged_files fl) env tenant model w))"
  unfolding load_model_artifacts_def
proof (rule visits_thenW [OF root_visits])
  fix root w1
  assume "model_storage_root (logged_files fl) env w = (Inr root, w1)"
  then have "fst (model_storage_root fl env (fst w)) = Inr root" using logged_root [of fl env w] by simp
  from assms(3) [OF this] have P: "P (join_path (join_path (join_path root tenant) model) (U ''encrypted_model.bin''))"
      "P (join_path (join_path (join_path root tenant) model) (U ''encrypted_data_key.bin''))"
    using artifact_paths(2,3) [OF assms(1,2)] by blast+
  show "visits P w1 (snd (let model_directory = join_path (join_path root tenant) model in
     thenW (both_files (logged_files fl) model_directory w1) (\<lambda>found w2.
     if \<not> found
     then (Inl (AppException ModelArtifactNotFoundError
            (U ''Encrypted model artifacts for '' @ in_quotes model @ U '' were not found for tenant ''
             @ in_quotes tenant @ U ''.'')), w2)
     else
       thenW (fl_read_bytes (logged_files fl) (join_path model_directory (U ''encrypted_model.bin'')) w2) (\<lambda>encrypted_model_blob w3.
       thenW (fl_read_bytes (logged_files fl) (join_path model_directory (U ''encrypted_data_key.bin'')) w3) (\<lambda>encrypted_model_key w4.
         if encrypted_model_blob = [] \<or> encrypted_model_key = []
         then (Inl (AppException ModelArtifactInvalidError
                (U ''Encrypted model artifacts for '' @ in_quotes model @ U '' are empty or invalid.'')), w4)
         else (Inr (encrypted_model_blob, encrypted_model_key), w4))))))"
    unfolding Let_def by (intro visits_thenW visits_if visits_done both_files_visits logged_files_visits P)
qed

section \<open>Listing and loading\<close>

text \<open>
  A file system nobody changes meanwhile: looking leaves it alone, a directory's entries have
  plain names, and its exceptions are the library's.
\<close>

definition quiet_files :: "'w files \<Rightarrow> bool" where
  "quiet_files fl \<longleftrightarrow>
     (\<forall>p w. snd (fl_resolve fl p w) = w \<and> snd (fl_is_file fl p w) = w \<and> snd (fl_is_dir fl p w) = w
        \<and> snd (fl_exists fl p w) = w \<and> snd (fl_iterdir fl p w) = w \<and> snd (fl_read_bytes fl p w) = w)
   \<and> (\<forall>p w e. fst (fl_read_bytes fl p w) = Inl e \<longrightarrow> is_OSError e)"

lemma quiet_filesD:
  assumes "quiet_files fl"
  shows "fl_resolve fl p w = (fst (fl_resolve fl p w), w)" "fl_is_file fl p w = (fst (fl_is_file fl p w), w)"
    "fl_is_dir fl p w = (fst (fl_is_dir fl p w), w)" "fl_exists fl p w = (fst (fl_exists fl p w), w)"
    "fl_iterdir fl p w = (fst (fl_iterdir fl p w), w)" "fl_read_bytes fl p w = (fst (fl_read_bytes fl p w), w)"
    "fst (fl_read_bytes fl p w) = Inl e \<Longrightarrow> is_OSError e"
  using assms unfolding quiet_files_def by (simp_all add: prod_eq_iff)

lemma both_files_quiet: "quiet_files fl \<Longrightarrow> snd (both_files fl dir w) = w"
  unfolding both_files_def by (subst quiet_filesD(2)) (auto simp: thenW_def quiet_files_def split: sum.split)

lemma stored_names_quiet:
  assumes "quiet_files fl"
  shows "stored_names fl dir names w = (Inr stored, w') \<Longrightarrow> w' = w \<and>
    stored = filter (\<lambda>n. fst (fl_is_dir fl (join_path dir n) w) = Inr True \<and> fst (both_files fl (join_path dir n) w) = Inr True) names"
proof (induction names arbitrary: stored w')
  case (Cons n ns)
  obtain d where d: "fl_is_dir fl (join_path dir n) w = (d, w)" using quiet_filesD(3) [OF assms] by metis
  obtain b where b: "both_files fl (join_path dir n) w = (b, w)" using both_files_quiet [OF assms] by (metis prod.collapse)
  from Cons.prems d b obtain rest where "stored_names fl dir ns w = (Inr rest, w')" and
    "stored = (if d = Inr True \<and> b = Inr True then n # rest else rest)"
    by (auto simp: thenW_case split: if_splits)
  with Cons.IH [of rest w'] d b show ?case by simp
qed simp

lemma list_stored_cases:
  assumes "quiet_files fl" and "list_stored_models fl env tenant w = (Inr names, w')"
  shows "w' = w \<and> (\<exists>root. fst (model_storage_root fl env w) = Inr root \<and>
    (names = [] \<or> (\<exists>entries. fst (fl_iterdir fl (join_path root tenant) w) = Inr entries \<and>
      names = filter (\<lambda>n. fst (fl_is_dir fl (join_path (join_path root tenant) n) w) = Inr True
        \<and> fst (both_files fl (join_path (join_path root tenant) n) w) = Inr True) entries)))"
proof -
  from assms(2) obtain root w1 where root: "model_storage_root fl env w = (Inr root, w1)"
    by (auto simp: list_stored_models_def thenW_case)
  with quiet_filesD(1) [OF assms(1)] have w1: "w1 = w" unfolding model_storage_root_def by (metis snd_conv)
  from assms(2) root obtain found w2 where found: "fl_exists fl (join_path root tenant) w = (Inr found, w2)"
    by (auto simp: list_stored_models_def thenW_case Let_def w1)
  with quiet_filesD(4) [OF assms(1), of "join_path root tenant" w] have w2: "w2 = w" by simp
  show ?thesis
  proof (cases found)
    case False
    with assms(2) root found w1 w2 show ?thesis by (auto simp: list_stored_models_def Let_def)
  next
    case True
    with assms(2) root found w1 w2 obtain entries w3 where
      e: "fl_iterdir fl (join_path root tenant) w = (Inr entries, w3)"
        "stored_names fl (join_path root tenant) entries w3 = (Inr names, w')"
      by (auto simp: list_stored_models_def Let_def thenW_case)
    with quiet_filesD(5) [OF assms(1), of "join_path root tenant" w] have "w3 = w" by simp
    with e stored_names_quiet [OF assms(1) e(2)] root w1 show ?thesis by auto
  qed
qed

section \<open>Files in memory\<close>

text \<open>A concrete file system, for the witnesses: files by absolute path, directories as far as they hold files.\<close>

definition below :: "pypath \<Rightarrow> pypath \<Rightarrow> bool" where
  "below p q \<longleftrightarrow> pa_root q = pa_root p \<and> length (pa_parts p) < length (pa_parts q)
     \<and> take (length (pa_parts p)) (pa_parts q) = pa_parts p"

definition mem_files :: "((pypath, bytes) odict) files" where
  "mem_files =
     \<lparr>fl_resolve = (\<lambda>p w. (Inr (if pa_root p = [] then \<lparr>pa_root = [47], pa_parts = pa_parts p\<rparr> else p), w)),
      fl_is_file = (\<lambda>p w. (Inr (od_get w p \<noteq> None), w)),
      fl_is_dir = (\<lambda>p w. (Inr (list_ex (\<lambda>q. below p (fst q)) w), w)),
      fl_exists = (\<lambda>p w. (Inr (od_get w p \<noteq> None \<or> list_ex (\<lambda>q. below p (fst q)) w), w)),
      fl_iterdir = (\<lambda>p w. (Inr (remdups (map (\<lambda>q. pa_parts (fst q) ! length (pa_parts p)) (filter (\<lambda>q. below p (fst q)) w))), w)),
      fl_read_bytes = (\<lambda>p w. (case od_get w p of Some b \<Rightarrow> Inr b | None \<Rightarrow> Inl OSError, w)),
      fl_write_bytes = (\<lambda>p b w. (Inr (), od_set w p b)),
      fl_mkdir = (\<lambda>p w. (Inr (), w))\<rparr>"

lemma mem_files_quiet: "quiet_files mem_files"
  by (auto simp: quiet_files_def mem_files_def split: option.splits)

definition artifact_file :: "string \<Rightarrow> pypath" where
  "artifact_file f = \<lparr>pa_root = [47], pa_parts = [U ''artifacts'', U ''t'', U ''m'', U f]\<rparr>"

definition sample_files :: "(pypath, bytes) odict" where
  "sample_files = [(artifact_file ''encrypted_model.bin'', [1]), (artifact_file ''encrypted_data_key.bin'', [2])]"

lemma plain_samples: "plain (U ''t'')" "plain (U ''m'')" "plain (U ''artifacts'')"
  by (simp_all add: plain_def U_def)

lemma sample_root: "model_storage_root mem_files None w = (Inr \<lparr>pa_root = [47], pa_parts = [U ''artifacts'']\<rparr>, w)"
  by (simp add: model_storage_root_def parse_plain [OF plain_samples(3)] mem_files_def)

lemma sample_both:
  "both_files mem_files \<lparr>pa_root = [47], pa_parts = [U ''artifacts'', U ''t'', U ''m'']\<rparr> sample_files = (Inr True, sample_files)"
  by (simp add: both_files_def join_plain artifact_names mem_files_def sample_files_def artifact_file_def od_get_def)

lemma sample_list: "list_stored_models mem_files None (U ''t'') sample_files = (Inr [U ''m''], sample_files)"
proof -
  have j: "join_path \<lparr>pa_root = [47], pa_parts = [U ''artifacts'']\<rparr> (U ''t'') = \<lparr>pa_root = [47], pa_parts = [U ''artifacts'', U ''t'']\<rparr>"
    "join_path \<lparr>pa_root = [47], pa_parts = [U ''artifacts'', U ''t'']\<rparr> (U ''m'') = \<lparr>pa_root = [47], pa_parts = [U ''artifacts'', U ''t'', U ''m'']\<rparr>"
    using plain_samples by (simp_all add: join_plain)
  have fs: "fl_exists mem_files \<lparr>pa_root = [47], pa_parts = [U ''artifacts'', U ''t'']\<rparr> sample_files = (Inr True, sample_files)"
    "fl_iterdir mem_files \<lparr>pa_root = [47], pa_parts = [U ''artifacts'', U ''t'']\<rparr> sample_files = (Inr [U ''m''], sample_files)"
    "fl_is_dir mem_files \<lparr>pa_root = [47], pa_parts = [U ''artifacts'', U ''t'', U ''m'']\<rparr> sample_files = (Inr True, sample_files)"
    by (simp_all add: mem_files_def sample_files_def artifact_file_def below_def od_get_def)
  show ?thesis by (simp add: list_stored_models_def sample_root Let_def j fs sample_both)
qed

section \<open>Properties\<close>

text \<open>C28. With plain names, loading a model's artifacts looks at nothing but the two
  files of that model in that tenant's directory under the storage root, so that no file is
  reached on behalf of two tenants.\<close>

theorem artifacts_stay_with_tenant:
  assumes "plain tenant" and "plain model"
  shows "visits (\<lambda>p. \<exists>root. fst (model_storage_root fl env (fst w)) = Inr root \<and> artifact_of root tenant model p
      \<and> (\<forall>t m. artifact_of root t m p \<longrightarrow> t = tenant \<and> m = model))
    w (snd (load_model_artifacts (logged_files fl) env tenant model w))"
  by (rule load_visits [OF assms]) (blast dest: artifact_of_tenant)

theorem artifacts_stay_with_tenant_witness:
  "visits (\<lambda>p. \<exists>root. fst (model_storage_root mem_files None sample_files) = Inr root \<and> artifact_of root (U ''t'') (U ''m'') p
      \<and> (\<forall>t m. artifact_of root t m p \<longrightarrow> t = U ''t'' \<and> m = U ''m''))
    (sample_files, []) (snd (load_model_artifacts (logged_files mem_files) None (U ''t'') (U ''m'') (sample_files, [])))"
  using artifacts_stay_with_tenant [OF plain_samples(1,2), of mem_files None "(sample_files, [])"] by simp

text \<open>C38. On a file system nobody changes meanwhile, every model that is listed as
  available can be loaded: the artifacts are found, and the only complaint left is that one of
  them is empty or cannot be read.\<close>

theorem listed_models_can_be_loaded:
  assumes "quiet_files fl" and "list_stored_models fl env tenant w = (Inr names, w')" and "name \<in> set names"
  shows "case fst (load_model_artifacts fl env tenant name w) of
      Inr (blob, key) \<Rightarrow> blob \<noteq> [] \<and> key \<noteq> []
    | Inl e \<Rightarrow> is_OSError e \<or> (\<exists>m. e = AppException ModelArtifactInvalidError m)"
proof -
  obtain root where root: "fst (model_storage_root fl env w) = Inr root"
    and both: "fst (both_files fl (join_path (join_path root tenant) name) w) = Inr True"
    using list_stored_cases [OF assms(1,2)] assms(3) by auto
  have "model_storage_root fl env w = (Inr root, w)"
    using root quiet_filesD(1) [OF assms(1)] unfolding model_storage_root_def by metis
  moreover have "both_files fl (join_path (join_path root tenant) name) w = (Inr True, w)"
    using both both_files_quiet [OF assms(1)] by (metis prod.collapse)
  moreover obtain rb where rb: "fl_read_bytes fl (join_path (join_path (join_path root tenant) name) (U ''encrypted_model.bin'')) w = (rb, w)"
    using quiet_filesD(6) [OF assms(1)] by metis
  moreover obtain rk where rk: "fl_read_bytes fl (join_path (join_path (join_path root tenant) name) (U ''encrypted_data_key.bin'')) w = (rk, w)"
    using quiet_filesD(6) [OF assms(1)] by metis
  moreover have "rb = Inl e \<Longrightarrow> is_OSError e" "rk = Inl e \<Longrightarrow> is_OSError e" for e
    using quiet_filesD(7) [OF assms(1)] rb rk by (metis fst_conv)+
  ultimately show ?thesis
    by (cases rb; cases rk) (auto simp: load_model_artifacts_def Let_def)
qed

theorem listed_models_can_be_loaded_witness:
  "list_stored_models mem_files None (U ''t'') sample_files = (Inr [U ''m''], sample_files)
   \<and> (case fst (load_model_artifacts mem_files None (U ''t'') (U ''m'') sample_files) of
        Inr (blob, key) \<Rightarrow> blob \<noteq> [] \<and> key \<noteq> []
      | Inl e \<Rightarrow> is_OSError e \<or> (\<exists>m. e = AppException ModelArtifactInvalidError m))"
  using listed_models_can_be_loaded [OF mem_files_quiet sample_list, of "U ''m''"] sample_list by simp

end
