(* ===== verification/EnclaveClient.thy ===== *)
theory EnclaveClient
  imports EnclaveServer
begin

text \<open>
  The host's client of the enclave in \<open>feature_store/services/enclave_client.py\<close>: one request
  with its retries over a pool of connections, and the reading of responses. Sockets are handles
  \<open>'h\<close> of a network that acts on a world \<open>'c\<close>. The last sections follow a request through
  \<open>logged_net\<close>, which records what happens to the sockets, and through the enclave's own server.
\<close>

section \<open>The network\<close>

record ('h, 'c) net =
  nt_factory :: "int \<Rightarrow> int \<Rightarrow> pyfloat \<Rightarrow> 'c \<Rightarrow> 'h res \<times> 'c"
  nt_sendall :: "'h \<Rightarrow> bytes \<Rightarrow> 'c \<Rightarrow> unit res \<times> 'c"
  nt_recv :: "'h \<Rightarrow> nat \<Rightarrow> 'c \<Rightarrow> bytes res \<times> 'c"
  nt_close :: "'h \<Rightarrow> 'c \<Rightarrow> unit res \<times> 'c"
  nt_sleep :: "pyfloat \<Rightarrow> 'c \<Rightarrow> 'c"

record 'h enclave_client =
  ec_cid :: int
  ec_port :: int
  ec_timeout_seconds :: pyfloat
  ec_max_retries :: int
  ec_max_pool_size :: int
  ec_pool :: "'h list"

definition enclave_client_init :: "int \<Rightarrow> int \<Rightarrow> pyfloat \<Rightarrow> int \<Rightarrow> int \<Rightarrow> 'h enclave_client" where
  "enclave_client_init cid port timeout_seconds max_retries max_pool_size =
     \<lparr>ec_cid = cid, ec_port = port, ec_timeout_seconds = timeout_seconds, ec_max_retries = max_retries,
      ec_max_pool_size = max_pool_size, ec_pool = []\<rparr>"

text \<open>The default factory, over the operating system's vsock sockets if it has them.\<close>

record ('h, 'c) vsock =
  vs_socket :: "'c \<Rightarrow> 'h res \<times> 'c"
  vs_settimeout :: "'h \<Rightarrow> pyfloat \<Rightarrow> 'c \<Rightarrow> unit res \<times> 'c"
  vs_connect :: "'h \<Rightarrow> int \<Rightarrow> int \<Rightarrow> 'c \<Rightarrow> unit res \<times> 'c"

definition default_socket_factory :: "('h, 'c) vsock option \<Rightarrow> int \<Rightarrow> int \<Rightarrow> pyfloat \<Rightarrow> 'c \<Rightarrow> 'h res \<times> 'c" where
  "default_socket_factory os cid port timeout_seconds c =
     (case os of
        None \<Rightarrow> (Inl (AppException EnclaveCommunicationError
          (U ''AF_VSOCK is not available on this host. Use MockEnclaveClient for local development.'')), c)
      | Some vs \<Rightarrow>
        (case vs_socket vs c of (Inl e, c1) \<Rightarrow> (Inl e, c1)
         | (Inr h, c1) \<Rightarrow>
           (case vs_settimeout vs h timeout_seconds c1 of (Inl e, c2) \<Rightarrow> (Inl e, c2)
            | (Inr _, c2) \<Rightarrow>
              (case vs_connect vs h cid port c2 of (Inl e, c3) \<Rightarrow> (Inl e, c3)
               | (Inr _, c3) \<Rightarrow> (Inr h, c3)))))"

section \<open>The pool\<close>

definition with_pool :: "'h enclave_client \<Rightarrow> 'h list \<Rightarrow> 'h enclave_client" where
  "with_pool cl pool = cl\<lparr>ec_pool := pool\<rparr>"

definition acquire_connection :: "('h, 'c) net \<Rightarrow> 'h enclave_client \<Rightarrow> 'c \<Rightarrow> 'h res \<times> 'h enclave_client \<times> 'c" where
  \<comment> \<open>the pool's last connection, or a new one\<close>
  "acquire_connection net cl c =
     (if ec_pool cl \<noteq> [] then (Inr (last (ec_pool cl)), with_pool cl (butlast (ec_pool cl)), c)
      else (case nt_factory net (ec_cid cl) (ec_port cl) (ec_timeout_seconds cl) c of (r, c') \<Rightarrow> (r, cl, c')))"

definition safe_close :: "('h, 'c) net \<Rightarrow> 'h \<Rightarrow> 'c \<Rightarrow> unit res \<times> 'c" where
  "safe_close net h c =
     (case nt_close net h c of
        (Inl e, c') \<Rightarrow> (if is_OSError e then Inr () else Inl e, c')
      | (Inr _, c') \<Rightarrow> (Inr (), c'))"

definition release_connection :: "('h, 'c) net \<Rightarrow> 'h \<Rightarrow> 'h enclave_client \<Rightarrow> 'c
    \<Rightarrow> unit res \<times> 'h enclave_client \<times> 'c" where
  "release_connection net h cl c =
     (if int (length (ec_pool cl)) \<ge> ec_max_pool_size cl
      then (case safe_close net h c of (r, c') \<Rightarrow> (r, cl, c'))
      else (Inr (), with_pool cl (ec_pool cl @ [h]), c))"

definition discard_connection :: "('h, 'c) net \<Rightarrow> 'h option \<Rightarrow> 'c \<Rightarrow> unit res \<times> 'c" where
  \<comment> \<open>\<open>if connection is not None\<close>\<close>
  "discard_connection net connection c =
     (case connection of None \<Rightarrow> (Inr (), c) | Some h \<Rightarrow> safe_close net h c)"

section \<open>One request\<close>

text \<open>The \<open>try\<close> block: a response, or the exception and the value of \<open>connection\<close> at that point.\<close>

definition exchange :: "('h, 'c) net \<Rightarrow> nat \<Rightarrow> bytes \<Rightarrow> 'h enclave_client \<Rightarrow> 'c
    \<Rightarrow> ((exn \<times> 'h option) + message) \<times> 'h enclave_client \<times> 'c" where
  "exchange net depth frame cl c =
     (case acquire_connection net cl c of
        (Inl e, cl1, c1) \<Rightarrow> (Inl (e, None), cl1, c1)
      | (Inr h, cl1, c1) \<Rightarrow>
        (case nt_sendall net h frame c1 of
           (Inl e, c2) \<Rightarrow> (Inl (e, Some h), cl1, c2)
         | (Inr _, c2) \<Rightarrow>
           (case receive_response depth (nt_recv net h) c2 of
              (Inl e, c3) \<Rightarrow> (Inl (e, Some h), cl1, c3)
            | (Inr response, c3) \<Rightarrow>
              (case release_connection net h cl1 c3 of
                 (Inl e, cl2, c4) \<Rightarrow> (Inl (e, Some h), cl2, c4)
               | (Inr _, cl2, c4) \<Rightarrow> (Inr response, cl2, c4)))))"

definition backoff_seconds :: "nat \<Rightarrow> pyfloat res" where
  \<comment> \<open>\<open>min(0.1 * (2 ** (attempt - 1)), 1.0)\<close>\<close>
  "backoff_seconds attempt =
     bindR (float_of_int (2 ^ (attempt - 1))) (\<lambda>factor.
       let x = fmul (round_float (1 / 10)) factor in Inr (if fle x (Fin 1) then x else Fin 1))"

definition timed_out :: exn where
  "timed_out = AppException EnclaveTimeoutError (U ''Timed out waiting for the enclave response.'')"

definition unreachable :: exn where
  "unreachable = AppException EnclaveCommunicationError (U ''Failed to communicate with the enclave over vsock.'')"

definition malformed :: exn where
  "malformed = AppException MalformedEnclaveResponseError (U ''The enclave returned a malformed response.'')"

text \<open>
  The \<open>for\<close> loop from a given attempt on; the first argument is the number of attempts left,
  so that \<open>attempt >= max_retries\<close> is the case with one left.
\<close>

fun attempts :: "nat \<Rightarrow> ('h, 'c) net \<Rightarrow> nat \<Rightarrow> bytes \<Rightarrow> nat \<Rightarrow> 'h enclave_client \<Rightarrow> 'c
    \<Rightarrow> message res \<times> 'h enclave_client \<times> 'c" where
  "attempts 0 net depth frame attempt cl c =
     (Inl (AppException EnclaveCommunicationError (U ''The enclave request failed.'')), cl, c)"
| "attempts (Suc left) net depth frame attempt cl c =
     (case exchange net depth frame cl c of
        (Inr response, cl1, c1) \<Rightarrow> (Inr response, cl1, c1)
      | (Inl (e, connection), cl1, c1) \<Rightarrow>
        if is_OSError e then
          (case discard_connection net connection c1 of
             (Inl e', c2) \<Rightarrow> (Inl e', cl1, c2)
           | (Inr _, c2) \<Rightarrow>
             if int attempt \<ge> ec_max_retries cl
             then (Inl (if e = TimeoutError then timed_out else unreachable), cl1, c2)
             else (case backoff_seconds attempt of
                 Inl e' \<Rightarrow> (Inl e', cl1, c2)
               | Inr s \<Rightarrow> attempts left net depth frame (Suc attempt) cl1 (nt_sleep net s c2)))
        else if is_ValueError e then
          (case discard_connection net connection c1 of
             (Inl e', c2) \<Rightarrow> (Inl e', cl1, c2)
           | (Inr _, c2) \<Rightarrow> (Inl malformed, cl1, c2))
        else (Inl e, cl1, c1))"

definition send_request :: "('h, 'c) net \<Rightarrow> nat \<Rightarrow> ustr \<Rightarrow> message \<Rightarrow> 'h enclave_client \<Rightarrow> 'c
    \<Rightarrow> message res \<times> 'h enclave_client \<times> 'c" where
  "send_request net depth action payload cl c =
     (case encode_frame (od_set payload (U ''action'') (JStr action)) of
        Inl e \<Rightarrow> (Inl e, cl, c)
      | Inr frame \<Rightarrow> attempts (nat (ec_max_retries cl)) net depth frame 1 cl c)"

section \<open>The operations of the client\<close>

definition normalize_predict_response :: "(json \<Rightarrow> ustr) \<Rightarrow> message \<Rightarrow> prediction res" where
  \<comment> \<open>the first argument is Python's \<open>str\<close> of a value that is no string\<close>
  "normalize_predict_response py_str response =
     (if od_get response (U ''status'') = Some (JStr (U ''error'')) then
        (let code = od_get response (U ''code'');
             text = (case od_get response (U ''message'') of
                       None \<Rightarrow> U ''Enclave inference failed.'' | Some (JStr s) \<Rightarrow> s | Some v \<Rightarrow> py_str v)
         in Inl (AppException
              (if code = Some (JStr (U ''MODEL_NOT_FOUND'')) then RemoteModelNotFoundError
               else if code = Some (JStr (U ''FEATURE_DIMENSION_MISMATCH'')) then RemoteFeatureDimensionMismatchError
               else if code = Some (JStr (U ''INVALID_REQUEST'')) then RemoteInvalidRequestError
               else EnclaveCommunicationError) text))
      else if od_get response (U ''status'') \<noteq> Some (JStr (U ''ok'')) then
        Inl (AppException MalformedEnclaveResponseError (U ''The enclave response is missing a valid status field.''))
      else case filter (\<lambda>field. od_get response (U field) = None) [''prediction'', ''confidence'', ''latency_ms''] of
        field # _ \<Rightarrow> Inl (AppException MalformedEnclaveResponseError
          (U ''The enclave response is missing '' @ [39] @ U field @ [39] @ U ''.''))
      | [] \<Rightarrow>
        bindR (json_float (the (od_get response (U ''prediction'')))) (\<lambda>prediction.
        bindR (json_float (the (od_get response (U ''confidence'')))) (\<lambda>confidence.
        bindR (json_float (the (od_get response (U ''latency_ms'')))) (\<lambda>latency_ms.
          Inr \<lparr>pr_prediction = prediction, pr_confidence = confidence, pr_latency_ms = latency_ms,
               pr_served_from_cache = (case od_get response (U ''served_from_cache'') of
                 None \<Rightarrow> False | Some v \<Rightarrow> json_truthy v)\<rparr>))))"

definition predict_payload :: "ustr \<Rightarrow> pyfloat list \<Rightarrow> bytes \<Rightarrow> bytes option \<Rightarrow> ustr option \<Rightarrow> message" where
  "predict_payload model_name features encrypted_model_key encrypted_model_blob tenant_id =
     [(U ''model_name'', JStr model_name), (U ''features'', JList (map JFloat features)),
      (U ''encrypted_model_key'', JStr (b64encode encrypted_model_key))]
     @ (case encrypted_model_blob of None \<Rightarrow> [] | Some b \<Rightarrow> [(U ''encrypted_model_blob'', JStr (b64encode b))])
     @ (case tenant_id of None \<Rightarrow> [] | Some t \<Rightarrow> [(U ''tenant_id'', JStr t)])"

definition client_predict :: "('h, 'c) net \<Rightarrow> nat \<Rightarrow> (json \<Rightarrow> ustr) \<Rightarrow> ustr \<Rightarrow> pyfloat list \<Rightarrow> bytes \<Rightarrow> bytes option
    \<Rightarrow> ustr option \<Rightarrow> 'h enclave_client \<Rightarrow> 'c \<Rightarrow> prediction res \<times> 'h enclave_client \<times> 'c" where
  "client_predict net depth py_str model_name features encrypted_model_key encrypted_model_blob tenant_id cl c =
     (case send_request net depth (U ''predict'')
         (predict_payload model_name features encrypted_model_key encrypted_model_blob tenant_id) cl c of
        (Inl e, cl', c') \<Rightarrow> (Inl e, cl', c')
      | (Inr response, cl', c') \<Rightarrow> (normalize_predict_response py_str response, cl', c'))"

definition health_check :: "('h, 'c) net \<Rightarrow> nat \<Rightarrow> 'h enclave_client \<Rightarrow> 'c \<Rightarrow> bool res \<times> 'h enclave_client \<times> 'c" where
  "health_check net depth cl c =
     (case send_request net depth (U ''health'') [(U ''echo'', JStr (U ''ping''))] cl c of
        (Inl e, cl', c') \<Rightarrow> (if is_enclave_comm e then Inr False else Inl e, cl', c')
      | (Inr response, cl', c') \<Rightarrow>
        (Inr (od_get response (U ''status'') = Some (JStr (U ''ok''))
           \<and> od_get response (U ''echo'') = Some (JStr (U ''ping''))), cl', c'))"

fun json_strings :: "json list \<Rightarrow> ustr list option" where
  "json_strings [] = Some []"
| "json_strings (JStr s # vs) = map_option ((#) s) (json_strings vs)"
| "json_strings (_ # vs) = None"

definition client_list_models :: "('h, 'c) net \<Rightarrow> nat \<Rightarrow> 'h enclave_client \<Rightarrow> 'c
    \<Rightarrow> ustr list res \<times> 'h enclave_client \<times> 'c" where
  "client_list_models net depth cl c =
     (case send_request net depth (U ''list_models'') [] cl c of
        (Inl e, cl', c') \<Rightarrow> (Inl e, cl', c')
      | (Inr response, cl', c') \<Rightarrow>
        (if od_get response (U ''status'') \<noteq> Some (JStr (U ''ok''))
         then Inl (AppException EnclaveCommunicationError (U ''The enclave did not return a valid model list.''))
         else case (case od_get response (U ''models'') of None \<Rightarrow> JList [] | Some v \<Rightarrow> v) of
            JList vs \<Rightarrow> (case json_strings vs of Some names \<Rightarrow> Inr names
              | None \<Rightarrow> Inl (AppException MalformedEnclaveResponseError (U ''The enclave returned an invalid model list.'')))
          | _ \<Rightarrow> Inl (AppException MalformedEnclaveResponseError (U ''The enclave returned an invalid model list.'')),
         cl', c'))"

section \<open>The trace of a request\<close>

datatype 'h net_event = Opened 'h | Sent 'h bytes | Closed 'h | Slept pyfloat

definition logged_net :: "('h, 'c) net \<Rightarrow> ('h, 'c \<times> 'h net_event list) net" where
  "logged_net net =
     \<lparr>nt_factory = (\<lambda>cid port t (c, l). case nt_factory net cid port t c of (r, c') \<Rightarrow>
        (r, (c', l @ (case r of Inr h \<Rightarrow> [Opened h] | Inl _ \<Rightarrow> [])))),
      nt_sendall = (\<lambda>h b (c, l). case nt_sendall net h b c of (r, c') \<Rightarrow> (r, (c', l @ [Sent h b]))),
      nt_recv = (\<lambda>h n (c, l). case nt_recv net h n c of (r, c') \<Rightarrow> (r, (c', l))),
      nt_close = (\<lambda>h (c, l). case nt_close net h c of (r, c') \<Rightarrow> (r, (c', l @ [Closed h]))),
      nt_sleep = (\<lambda>t (c, l). (nt_sleep net t c, l @ [Slept t]))\<rparr>"

lemma logged_net_calls [simp]:
  "nt_factory (logged_net net) cid port t (c, l) = (case nt_factory net cid port t c of (r, c') \<Rightarrow>
     (r, (c', l @ (case r of Inr h \<Rightarrow> [Opened h] | Inl _ \<Rightarrow> []))))"
  "nt_sendall (logged_net net) h b (c, l) = (case nt_sendall net h b c of (r, c') \<Rightarrow> (r, (c', l @ [Sent h b])))"
  "nt_recv (logged_net net) h n (c, l) = (case nt_recv net h n c of (r, c') \<Rightarrow> (r, (c', l)))"
  "nt_close (logged_net net) h (c, l) = (case nt_close net h c of (r, c') \<Rightarrow> (r, (c', l @ [Closed h])))"
  "nt_sleep (logged_net net) t (c, l) = (nt_sleep net t c, l @ [Slept t])"
  by (simp_all add: logged_net_def)

lemma logged_recv_exact:
  "recv_exact (nt_recv (logged_net net) h) n buffer (c, l)
   = (case recv_exact (nt_recv net h) n buffer c of (r, c') \<Rightarrow> (r, (c', l)))"
proof (induction "n - length buffer" arbitrary: buffer c rule: less_induct)
  case less
  show ?case
  proof (cases "length buffer < n")
    case True
    obtain r c1 where r: "nt_recv net h (n - length buffer) c = (r, c1)" by (cases "nt_recv net h (n - length buffer) c")
    show ?thesis
    proof (cases r)
      case (Inl e)
      with r True show ?thesis by (simp add: recv_exact.simps [of _ n buffer])
    next
      case (Inr chunk)
      show ?thesis
      proof (cases "chunk = []")
        case True
        with r Inr \<open>length buffer < n\<close> show ?thesis by (simp add: recv_exact.simps [of _ n buffer])
      next
        case False
        then have "n - length (buffer @ chunk) < n - length buffer" using \<open>length buffer < n\<close> by (cases chunk) auto
        note IH = less.hyps [OF this, of c1]
        from r Inr False \<open>length buffer < n\<close> show ?thesis
          by (simp add: recv_exact.simps [of _ n buffer] IH [simplified])
      qed
    qed
  qed (simp add: recv_exact.simps [of _ n buffer])
qed

lemma logged_receive:
  "receive_response depth (nt_recv (logged_net net) h) (c, l)
   = (case receive_response depth (nt_recv net h) c of (r, c') \<Rightarrow> (r, (c', l)))"
  by (auto simp: receive_response_def decode_frame_def logged_recv_exact split: prod.splits sum.splits)

lemma safe_close_log: "safe_close (logged_net net) h (c, l) = (r, (c', l')) \<Longrightarrow> l' = l @ [Closed h]"
  by (auto simp: safe_close_def split: prod.splits sum.splits if_splits)

lemma with_pool_sel [simp]:
  "ec_pool (with_pool cl p) = p" "ec_max_pool_size (with_pool cl p) = ec_max_pool_size cl"
  "ec_max_retries (with_pool cl p) = ec_max_retries cl"
  "with_pool (with_pool cl p) q = with_pool cl q" "with_pool cl (ec_pool cl) = cl"
  by (simp_all add: with_pool_def)

lemma acquire_log:
  assumes "acquire_connection (logged_net net) cl (c, l) = (r, cl', (c', l'))"
  shows "cl' = with_pool cl (butlast (ec_pool cl))"
    and "\<exists>op. l' = l @ op \<and> (op = [] \<or> (\<exists>h. r = Inr h \<and> op = [Opened h]))"
proof -
  show "cl' = with_pool cl (butlast (ec_pool cl))"
    using assms by (cases "ec_pool cl = []") (auto simp: acquire_connection_def split: prod.splits, metis with_pool_sel(5))
  show "\<exists>op. l' = l @ op \<and> (op = [] \<or> (\<exists>h. r = Inr h \<and> op = [Opened h]))"
    using assms by (auto simp: acquire_connection_def split: prod.splits if_splits sum.splits)
qed

text \<open>
  What one exchange leaves: the pool without its last connection, or with the connection the
  response came from at the end; in the log, what was opened, the frame if a connection was
  got, and its close when a full pool refuses it.
\<close>

definition used :: "'h \<Rightarrow> bytes \<Rightarrow> bool \<Rightarrow> 'h net_event list \<Rightarrow> bool" where
  "used h frame shut tr \<longleftrightarrow>
     (\<exists>opened. tr = (if opened then [Opened h] else []) @ Sent h frame # (if shut then [Closed h] else []))"

lemma usedI:
  "used h frame False [Sent h frame]" "used h frame False [Opened h, Sent h frame]"
  "used h frame True [Sent h frame, Closed h]" "used h frame True [Opened h, Sent h frame, Closed h]"
  by (simp_all add: used_def split: if_splits) (metis append_Nil append_Cons)+

lemma used_any:
  "\<exists>shut. used h frame shut [Sent h frame]" "\<exists>shut. used h frame shut [Opened h, Sent h frame]"
  "\<exists>shut. used h frame shut [Sent h frame, Closed h]" "\<exists>shut. used h frame shut [Opened h, Sent h frame, Closed h]"
  "\<exists>h'. used h' frame True [Sent h frame, Closed h]" "\<exists>h'. used h' frame True [Opened h, Sent h frame, Closed h]"
  by (blast intro: usedI)+

definition kept :: "'h enclave_client \<Rightarrow> ((exn \<times> 'h option) + message) \<Rightarrow> 'h enclave_client \<Rightarrow> 'h net_event list
    \<Rightarrow> bytes \<Rightarrow> bool" where
  "kept cl r cl' tr frame \<longleftrightarrow>
     (case r of
        Inl (e, None) \<Rightarrow> cl' = with_pool cl (butlast (ec_pool cl)) \<and> tr = []
      | Inl (e, Some h) \<Rightarrow> cl' = with_pool cl (butlast (ec_pool cl)) \<and> (\<exists>shut. used h frame shut tr)
      | Inr _ \<Rightarrow> (\<exists>h. if int (length (butlast (ec_pool cl))) \<ge> ec_max_pool_size cl
             then cl' = with_pool cl (butlast (ec_pool cl)) \<and> used h frame True tr
             else cl' = with_pool cl (butlast (ec_pool cl) @ [h]) \<and> used h frame False tr))"

lemma release_log:
  assumes "release_connection (logged_net net) h cl (c, l) = (r, cl', (c', l'))"
  shows "if int (length (ec_pool cl)) \<ge> ec_max_pool_size cl then cl' = cl \<and> l' = l @ [Closed h]
    else r = Inr () \<and> cl' = with_pool cl (ec_pool cl @ [h]) \<and> l' = l"
  using assms by (auto simp: release_connection_def split: prod.splits if_splits dest: safe_close_log)

text \<open>What is left after a connection was got (\<open>opened\<close> or from the pool) and the response read: it is released.\<close>

lemma released_kept:
  assumes "release_connection (logged_net net) h cl1 (c3, l @ opened @ [Sent h frame]) = (rl, cl2, (c4, l4))"
    and "opened = [] \<or> opened = [Opened h]" and "cl1 = with_pool cl (butlast (ec_pool cl))"
    and "r = (case rl of Inl e \<Rightarrow> Inl (e, Some h) | Inr _ \<Rightarrow> Inr response)"
  shows "\<exists>tr. l4 = l @ tr \<and> kept cl r cl2 tr frame"
proof (cases "int (length (ec_pool cl1)) \<ge> ec_max_pool_size cl1")
  case True
  then have "cl2 = cl1" "l4 = l @ opened @ [Sent h frame, Closed h]" using release_log [OF assms(1)] by auto
  with assms True show ?thesis by (cases rl) (auto simp: kept_def intro: usedI used_any)
next
  case False
  then have "rl = Inr ()" "cl2 = with_pool cl1 (ec_pool cl1 @ [h])" "l4 = l @ opened @ [Sent h frame]"
    using release_log [OF assms(1)] by auto
  moreover have "used h frame False (opened @ [Sent h frame])" using assms(2) by (auto intro: usedI)
  ultimately show ?thesis using False assms(3,4) by (auto simp: kept_def intro!: exI [of _ h])
qed

lemma exchange_log:
  assumes "exchange (logged_net net) depth frame cl (c, l) = (r, cl', (c', l'))"
  shows "\<exists>tr. l' = l @ tr \<and> kept cl r cl' tr frame"
proof -
  obtain ra cl1 c1 l1 where a: "acquire_connection (logged_net net) cl (c, l) = (ra, cl1, (c1, l1))" by (metis surj_pair)
  note aq = acquire_log [OF a]
  show ?thesis
  proof (cases ra)
    case (Inl e)
    then have "l1 = l" using aq(2) by auto
    with assms a Inl aq(1) show ?thesis by (auto simp: exchange_def kept_def)
  next
    case (Inr h)
    then obtain op where op: "l1 = l @ op" "op = [] \<or> op = [Opened h]" using aq(2) by auto
    have failed: ?thesis if "r = Inl (e, Some h)" "cl' = cl1" "l' = l @ op @ [Sent h frame]" for e
      using that op(2) aq(1) by (auto simp: kept_def intro: usedI used_any)
    obtain rs c2 where s: "nt_sendall net h frame c1 = (rs, c2)" by (cases "nt_sendall net h frame c1")
    obtain rr c3 where rr: "receive_response depth (nt_recv net h) c2 = (rr, c3)"
      by (cases "receive_response depth (nt_recv net h) c2")
    show ?thesis
    proof (cases "\<exists>response. rs = Inr () \<and> rr = Inr response")
      case False
      then obtain e where "rs = Inl e \<or> rs = Inr () \<and> rr = Inl e" by (cases rs; cases rr) auto
      with assms a \<open>ra = Inr h\<close> s rr show ?thesis
        by (intro failed [of e]) (auto simp: exchange_def op logged_receive)
    next
      case True
      then obtain response where ok: "rs = Inr ()" "rr = Inr response" by blast
      obtain rl cl2 c4 l4 where rel: "release_connection (logged_net net) h cl1 (c3, l @ op @ [Sent h frame]) = (rl, cl2, (c4, l4))"
        by (metis surj_pair)
      have "r = (case rl of Inl e \<Rightarrow> Inl (e, Some h) | Inr _ \<Rightarrow> Inr response)" "cl' = cl2" "l' = l4"
        using assms a \<open>ra = Inr h\<close> s rr ok rel by (auto simp: exchange_def logged_receive op split: sum.splits)
      with released_kept [OF rel op(2) aq(1)] show ?thesis by simp
    qed
  qed
qed

text \<open>One round of the loop: an answer, an error after the connection was closed, an exception nobody
  catches, or a pause and the next attempt.\<close>

definition shutting :: "'h option \<Rightarrow> 'h net_event list" where
  "shutting connection = (case connection of None \<Rightarrow> [] | Some h \<Rightarrow> [Closed h])"

lemma discard_log:
  "discard_connection (logged_net net) connection (c, l) = (r, (c', l')) \<Longrightarrow> l' = l @ shutting connection"
  by (auto simp: discard_connection_def shutting_def split: option.splits dest: safe_close_log)

lemma attempt_cases:
  assumes "attempts (Suc left) (logged_net net) depth frame attempt cl (c, l) = (r, cl', (c', l'))"
  obtains (answered) response tr where "r = Inr response" "l' = l @ tr" "kept cl (Inr response) cl' tr frame"
  | (failed) e connection tr x where "r = Inl x" "l' = l @ tr @ shutting connection" "kept cl (Inl (e, connection)) cl' tr frame"
  | (escaped) e connection tr c1 where "r = Inl e" "l' = l @ tr" "kept cl (Inl (e, connection)) cl' tr frame"
      "\<not> is_OSError e" "\<not> is_ValueError e"
      "exchange (logged_net net) depth frame cl (c, l) = (Inl (e, connection), cl', c1)"
  | (again) e connection tr cl1 s c2 where "kept cl (Inl (e, connection)) cl1 tr frame"
      "int attempt < ec_max_retries cl" "backoff_seconds attempt = Inr s"
      "attempts left (logged_net net) depth frame (Suc attempt) cl1 (c2, l @ tr @ shutting connection @ [Slept s]) = (r, cl', (c', l'))"
proof -
  obtain rx cl1 c1 l1 where x: "exchange (logged_net net) depth frame cl (c, l) = (rx, cl1, (c1, l1))" by (metis surj_pair)
  from exchange_log [OF x] obtain tr where tr: "l1 = l @ tr" "kept cl rx cl1 tr frame" by blast
  show thesis
  proof (cases rx)
    case (Inr response)
    with assms x have "r = Inr response" "cl' = cl1" "l' = l1" by auto
    with tr Inr show thesis by (intro answered) auto
  next
    case (Inl ec)
    obtain e connection where ec: "ec = (e, connection)" by (cases ec)
    obtain rd c2 l2 where d: "discard_connection (logged_net net) connection (c1, l1) = (rd, (c2, l2))" by (metis surj_pair)
    note l2 = discard_log [OF d]
    have retries: "ec_max_retries cl1 = ec_max_retries cl"
      using tr(2) Inl ec by (auto simp: kept_def split: option.splits)
    consider "\<not> is_OSError e \<and> \<not> is_ValueError e" | "(is_OSError e \<or> is_ValueError e)" "\<exists>y. r = Inl y" "cl' = cl1" "l' = l2"
      | s where "is_OSError e" "int attempt < ec_max_retries cl1" "backoff_seconds attempt = Inr s"
        "attempts left (logged_net net) depth frame (Suc attempt) cl1 (nt_sleep net s c2, l2 @ [Slept s]) = (r, cl', (c', l'))"
      using assms x Inl ec d retries by (auto split: if_splits sum.splits)
    then show thesis
    proof cases
      case 1
      with assms x Inl ec have "r = Inl e" "cl' = cl1" "c' = c1" "l' = l1" by auto
      with 1 x tr Inl ec show thesis by (intro escaped [of e tr connection "(c1, l1)"]) auto
    next
      case 2
      then obtain y where y: "r = Inl y" by blast
      show thesis by (rule failed [OF y]) (use 2 l2 tr Inl ec in auto)
    next
      case 3
      with retries l2 tr Inl ec show thesis by (intro again) auto
    qed
  qed
qed

section \<open>Bounds of the loop\<close>

definition frames_sent :: "'h net_event list \<Rightarrow> bytes list" where
  "frames_sent tr = concat (map (\<lambda>e. case e of Sent h f \<Rightarrow> [f] | _ \<Rightarrow> []) tr)"

definition pauses :: "'h net_event list \<Rightarrow> pyfloat list" where
  "pauses tr = concat (map (\<lambda>e. case e of Slept t \<Rightarrow> [t] | _ \<Rightarrow> []) tr)"

lemma trace_simps [simp]:
  "frames_sent [] = []" "frames_sent (Sent h f # tr) = f # frames_sent tr" "frames_sent (Opened h # tr) = frames_sent tr"
  "frames_sent (Closed h # tr) = frames_sent tr" "frames_sent (Slept t # tr) = frames_sent tr"
  "frames_sent (tr @ tr') = frames_sent tr @ frames_sent tr'"
  "pauses [] = []" "pauses (Sent h f # tr) = pauses tr" "pauses (Opened h # tr) = pauses tr"
  "pauses (Closed h # tr) = pauses tr" "pauses (Slept t # tr) = t # pauses tr" "pauses (tr @ tr') = pauses tr @ pauses tr'"
  by (simp_all add: frames_sent_def pauses_def)

lemma shutting_trace [simp]: "frames_sent (shutting connection) = []" "pauses (shutting connection) = []"
  by (simp_all add: shutting_def split: option.split)

lemma used_trace: "used h frame shut tr \<Longrightarrow> frames_sent tr = [frame] \<and> pauses tr = []"
  unfolding used_def by (elim exE) (cases shut; simp)

lemma kept_cases:
  assumes "kept cl r cl' tr frame"
  obtains (none) e where "r = Inl (e, None)" "cl' = with_pool cl (butlast (ec_pool cl))" "tr = []"
  | (broken) e h shut where "r = Inl (e, Some h)" "cl' = with_pool cl (butlast (ec_pool cl))" "used h frame shut tr"
  | (closed) h response where "r = Inr response" "cl' = with_pool cl (butlast (ec_pool cl))" "used h frame True tr"
  | (pooled) h response where "r = Inr response" "int (length (butlast (ec_pool cl))) < ec_max_pool_size cl"
      "cl' = with_pool cl (butlast (ec_pool cl) @ [h])" "used h frame False tr"
  using assms unfolding kept_def
  by (cases r) (simp_all add: not_le split: prod.splits option.splits if_splits del: length_butlast, blast+)

lemma kept_trace:
  assumes "kept cl r cl' tr frame"
  shows "frames_sent tr = [] \<or> frames_sent tr = [frame]" and "pauses tr = []"
    and "ec_max_retries cl' = ec_max_retries cl" and "ec_max_pool_size cl' = ec_max_pool_size cl"
  using assms by (cases rule: kept_cases; auto dest: used_trace)+

definition within_bounds :: "bytes \<Rightarrow> nat \<Rightarrow> nat \<Rightarrow> 'h net_event list \<Rightarrow> bool" where
  \<comment> \<open>at most so many attempts from a given one on, each with the frame, with the pauses between them\<close>
  "within_bounds frame left attempt tr \<longleftrightarrow>
     (\<exists>n m. frames_sent tr = replicate n frame \<and> n \<le> left
        \<and> map Inr (pauses tr) = map backoff_seconds [attempt ..< attempt + m] \<and> m \<le> left - 1)"

lemma within_bounds_once:
  assumes "kept cl r cl' tr frame"
  shows "within_bounds frame (Suc left) attempt tr" "within_bounds frame (Suc left) attempt (tr @ shutting connection)"
proof -
  note k = kept_trace [OF assms]
  show "within_bounds frame (Suc left) attempt tr"
    using k(1) unfolding within_bounds_def by (intro exI [of _ "length (frames_sent tr)"] exI [of _ 0]) (auto simp: k(2))
  then show "within_bounds frame (Suc left) attempt (tr @ shutting connection)" by (simp add: within_bounds_def)
qed

lemma within_bounds_again:
  assumes "kept cl r cl' tr frame" and "backoff_seconds attempt = Inr s" and "0 < left"
    and "within_bounds frame left (Suc attempt) tr'"
  shows "within_bounds frame (Suc left) attempt (tr @ shutting connection @ [Slept s] @ tr')"
proof -
  obtain n m where nm: "frames_sent tr' = replicate n frame" "n \<le> left"
      "map Inr (pauses tr') = map backoff_seconds [Suc attempt ..< Suc attempt + m]" "m \<le> left - 1"
    using assms(4) by (auto simp: within_bounds_def)
  note k = kept_trace [OF assms(1)]
  have "frames_sent tr = replicate (length (frames_sent tr)) frame" "length (frames_sent tr) \<le> 1" using k(1) by auto
  then have "frames_sent (tr @ shutting connection @ [Slept s] @ tr') = replicate (length (frames_sent tr) + n) frame"
    "length (frames_sent tr) + n \<le> Suc left"
    using nm by (auto simp: replicate_add)
  moreover have "map Inr (pauses (tr @ shutting connection @ [Slept s] @ tr')) = map backoff_seconds [attempt ..< attempt + Suc m]"
    using nm(3) by (simp add: k(2) assms(2) upt_conv_Cons del: upt_Suc)
  ultimately show ?thesis using nm(4) assms(3) unfolding within_bounds_def
    by (intro exI [of _ "length (frames_sent tr) + n"] exI [of _ "Suc m"]) simp
qed

lemma attempts_bounds:
  assumes "attempts left (logged_net net) depth frame attempt cl (c, l) = (r, cl', (c', l'))"
    and "int left + int attempt = ec_max_retries cl + 1"
  shows "\<exists>tr. l' = l @ tr \<and> within_bounds frame left attempt tr"
  using assms
proof (induction left arbitrary: attempt cl c l)
  case 0
  then show ?case by (auto simp: within_bounds_def)
next
  case (Suc left)
  from Suc.prems(1) show ?case
  proof (cases rule: attempt_cases)
    case (answered response tr)
    then show ?thesis using within_bounds_once(1) [OF answered(3)] by blast
  next
    case (failed e connection tr x)
    then show ?thesis using within_bounds_once(2) [OF failed(3)] by blast
  next
    case (escaped e connection tr c1)
    then show ?thesis using within_bounds_once(1) [OF escaped(3)] by blast
  next
    case (again e connection tr cl1 s c2)
    have "int left + int (Suc attempt) = ec_max_retries cl1 + 1"
      using Suc.prems(2) kept_trace(3) [OF again(1)] by simp
    from Suc.IH [OF again(4) this] obtain tr' where
      "l' = (l @ tr @ shutting connection @ [Slept s]) @ tr'" "within_bounds frame left (Suc attempt) tr'" by blast
    moreover have "0 < left" using again(2) Suc.prems(2) by linarith
    ultimately show ?thesis using within_bounds_again [OF again(1,3)] by auto
  qed
qed

lemma backoff_at_most_one: "backoff_seconds n = Inr s \<Longrightarrow> fle s (Fin 1)"
  by (auto simp: backoff_seconds_def res_simps Let_def split: if_splits)

section \<open>What happens to the connections\<close>

text \<open>What sockets document: their calls raise subclasses of \<open>OSError\<close>, and \<open>recv(n)\<close> returns at most \<open>n\<close> bytes.\<close>

definition sockets_ok :: "('h, 'c) net \<Rightarrow> bool" where
  "sockets_ok net \<longleftrightarrow>
     (\<forall>h b c e c'. nt_sendall net h b c = (Inl e, c') \<longrightarrow> is_OSError e)
   \<and> (\<forall>h n c e c'. nt_recv net h n c = (Inl e, c') \<longrightarrow> is_OSError e)
   \<and> (\<forall>h n c chunk c'. nt_recv net h n c = (Inr chunk, c') \<longrightarrow> length chunk \<le> n)
   \<and> (\<forall>h c e c'. nt_close net h c = (Inl e, c') \<longrightarrow> is_OSError e)"

lemma sockets_okD:
  assumes "sockets_ok net"
  shows "nt_sendall net h b c = (Inl e, c') \<Longrightarrow> is_OSError e" and "nt_recv net h n c = (Inl e, c') \<Longrightarrow> is_OSError e"
    and "nt_recv net h n c = (Inr chunk, c') \<Longrightarrow> length chunk \<le> n" and "nt_close net h c = (Inl e, c') \<Longrightarrow> is_OSError e"
  using assms unfolding sockets_ok_def by blast+

lemma sockets_ok_logged: "sockets_ok net \<Longrightarrow> sockets_ok (logged_net net)"
  unfolding sockets_ok_def by (auto split: prod.splits) blast+

lemma recv_exact_result:
  assumes "sockets_ok net"
  shows "recv_exact (nt_recv net h) n buffer c = (r, c') \<Longrightarrow> length buffer \<le> n
    \<Longrightarrow> (case r of Inl e \<Rightarrow> is_OSError e | Inr b \<Rightarrow> length b = n)"
proof (induction "n - length buffer" arbitrary: buffer c rule: less_induct)
  case less
  obtain rr c1 where rr: "nt_recv net h (n - length buffer) c = (rr, c1)" by (cases "nt_recv net h (n - length buffer) c")
  show ?case
  proof (cases "length buffer < n")
    case False
    with less.prems show ?thesis by (subst (asm) recv_exact.simps) auto
  next
    case True
    consider e where "rr = Inl e" | "rr = Inr []" | chunk where "rr = Inr chunk" "chunk \<noteq> []" by (cases rr) auto
    then show ?thesis
    proof cases
      case 1
      with less.prems True rr sockets_okD(2) [OF assms, of h "n - length buffer" c] show ?thesis
        by (subst (asm) recv_exact.simps) auto
    next
      case 2
      with less.prems True rr show ?thesis by (subst (asm) recv_exact.simps) auto
    next
      case 3
      have "length (buffer @ chunk) \<le> n" using sockets_okD(3) [OF assms, of h "n - length buffer" c] rr 3 True by simp
      moreover have "n - length (buffer @ chunk) < n - length buffer" using 3 True by (cases chunk) auto
      moreover have "recv_exact (nt_recv net h) n (buffer @ chunk) c1 = (r, c')"
        using less.prems(1) True rr 3 by (subst (asm) recv_exact.simps) auto
      ultimately show ?thesis using less.hyps by blast
    qed
  qed
qed

lemma decode_payload_errors:
  "decode_payload depth (ValueError m) b = Inl e \<Longrightarrow> is_ValueError e \<or> e = RecursionError"
  unfolding decode_payload_def res_simps
  by (elim disjE exE conjE; (drule utf8_decode_errors loads_Inl)?; auto simp: json_error_def split: json.split_asm)

lemma receive_errors:
  assumes "sockets_ok net" and "receive_response depth (nt_recv net h) c = (Inl e, c')"
  shows "is_OSError e \<or> is_ValueError e \<or> e = RecursionError"
proof -
  obtain rh c1 where h: "recv_exact (nt_recv net h) 4 [] c = (rh, c1)" by (cases "recv_exact (nt_recv net h) 4 [] c")
  note hr = recv_exact_result [OF assms(1) h]
  show ?thesis
  proof (cases rh)
    case (Inl e')
    with assms(2) h hr show ?thesis by (simp add: receive_response_def)
  next
    case (Inr header)
    then have u: "unpack_length header = Inr (from_bytes_big header)" using hr by (simp add: unpack_length_def)
    obtain rp c2 where p: "recv_exact (nt_recv net h) (from_bytes_big header) [] c1 = (rp, c2)"
      by (cases "recv_exact (nt_recv net h) (from_bytes_big header) [] c1")
    note pr = recv_exact_result [OF assms(1) p]
    show ?thesis
    proof (cases "from_bytes_big header = 0")
      case True
      with assms(2) h Inr u show ?thesis by (auto simp: receive_response_def decode_frame_def)
    next
      case False
      with assms(2) h Inr u p have "(case rp of Inl e' \<Rightarrow> e = e'
          | Inr payload \<Rightarrow> decode_payload depth (ValueError (U ''The enclave response payload must be a JSON object.'')) payload = Inl e)"
        by (auto simp: receive_response_def decode_frame_def split: sum.splits)
      with pr show ?thesis
        by (cases rp) (auto dest: decode_payload_errors)
    qed
  qed
qed

lemma exchange_errors:
  assumes "sockets_ok net" and "exchange net depth frame cl c = (Inl (e, Some h), cl', c')"
  shows "is_OSError e \<or> is_ValueError e \<or> e = RecursionError"
proof -
  have shut: "fst (safe_close net h c) \<noteq> Inl e" for h c e
    using sockets_okD(4) [OF assms(1), of h c] by (auto simp: safe_close_def split: prod.splits sum.splits)
  have rel: "fst (release_connection net h cl c) \<noteq> Inl e" for h cl c e
    using shut [of h c e] by (auto simp: release_connection_def split: prod.splits)
  from assms(2) consider c1 c2 where "nt_sendall net h frame c1 = (Inl e, c2)"
    | c1 c2 where "receive_response depth (nt_recv net h) c1 = (Inl e, c2)"
    | cl1 c1 x where "release_connection net h cl1 c1 = (Inl e, x)"
    by (auto simp: exchange_def split: prod.splits sum.splits)
  then show ?thesis
    using sockets_okD(1) [OF assms(1)] receive_errors [OF assms(1)] rel by cases (blast, blast, metis fst_conv)
qed

text \<open>
  The pool afterwards is the old one with connections taken from its end, and at most the one the
  answer came from put back. Every connection a frame was sent on was closed, or is that one.
\<close>

definition tidy :: "'h enclave_client \<Rightarrow> message res \<Rightarrow> 'h enclave_client \<Rightarrow> 'h net_event list \<Rightarrow> bool" where
  "tidy cl r cl' tr \<longleftrightarrow>
     (\<exists>k. ec_pool cl' = take k (ec_pool cl)
       \<or> (\<exists>response h. r = Inr response \<and> ec_pool cl' = take k (ec_pool cl) @ [h]
            \<and> int (length (take k (ec_pool cl))) < ec_max_pool_size cl))
   \<and> (r \<noteq> Inl RecursionError \<longrightarrow> (\<forall>h f. Sent h f \<in> set tr \<longrightarrow>
        Closed h \<in> set tr \<or> (\<exists>response. r = Inr response) \<and> ec_pool cl' \<noteq> [] \<and> last (ec_pool cl') = h))"

lemma used_sent: "used h frame shut tr \<Longrightarrow> Sent h' f \<in> set tr \<Longrightarrow> h' = h \<and> (shut \<longrightarrow> Closed h \<in> set tr)"
  unfolding used_def by (elim exE) (cases shut; auto split: if_splits)

lemma kept_failed:
  assumes "kept cl (Inl (e, connection)) cl' tr frame"
  shows "ec_pool cl' = take (length (ec_pool cl) - 1) (ec_pool cl)"
    and "Sent h f \<in> set tr \<Longrightarrow> connection = Some h"
  using assms by (cases rule: kept_cases; auto simp: butlast_conv_take dest: used_sent)+

lemma tidy_failed:
  assumes "kept cl (Inl (e, connection)) cl' tr frame"
  shows "tidy cl (Inl x) cl' (tr @ shutting connection)"
  using kept_failed [OF assms] unfolding tidy_def shutting_def by fastforce

lemma tidy_answered:
  assumes "kept cl (Inr response) cl' tr frame"
  shows "tidy cl (Inr response') cl' tr"
  using assms
proof (cases rule: kept_cases)
  case (closed h response)
  then show ?thesis unfolding tidy_def using used_sent [OF closed(3)] by (auto simp: butlast_conv_take)
next
  case (pooled h response)
  then show ?thesis unfolding tidy_def using used_sent [OF pooled(4)]
    by (auto simp: butlast_conv_take intro!: exI [of _ "length (ec_pool cl) - 1"])
qed auto

lemma tidy_again:
  assumes "kept cl (Inl (e, connection)) cl1 tr frame" and "tidy cl1 r cl' tr'"
  shows "tidy cl r cl' (tr @ shutting connection @ [Slept s] @ tr')"
proof -
  note k = kept_failed [OF assms(1)]
  have m: "ec_max_pool_size cl1 = ec_max_pool_size cl" by (rule kept_trace(4) [OF assms(1)])
  from assms(2) obtain j where j: "ec_pool cl' = take j (ec_pool cl1)
       \<or> (\<exists>response h. r = Inr response \<and> ec_pool cl' = take j (ec_pool cl1) @ [h]
            \<and> int (length (take j (ec_pool cl1))) < ec_max_pool_size cl1)" unfolding tidy_def by blast
  have t: "take j (ec_pool cl1) = take (min j (length (ec_pool cl) - 1)) (ec_pool cl)" unfolding k(1) by simp
  have sent: "Closed h \<in> set (tr @ shutting connection @ [Slept s] @ tr')" if "Sent h f \<in> set (tr @ shutting connection)" for h f
    using that k(2) [of h f] by (auto simp: shutting_def split: option.splits)
  show ?thesis unfolding tidy_def
  proof (intro conjI)
    show "\<exists>k. ec_pool cl' = take k (ec_pool cl)
       \<or> (\<exists>response h. r = Inr response \<and> ec_pool cl' = take k (ec_pool cl) @ [h]
            \<and> int (length (take k (ec_pool cl))) < ec_max_pool_size cl)"
      using j unfolding t m by blast
    show "r \<noteq> Inl RecursionError \<longrightarrow> (\<forall>h f. Sent h f \<in> set (tr @ shutting connection @ [Slept s] @ tr') \<longrightarrow>
        Closed h \<in> set (tr @ shutting connection @ [Slept s] @ tr')
        \<or> (\<exists>response. r = Inr response) \<and> ec_pool cl' \<noteq> [] \<and> last (ec_pool cl') = h)"
      using assms(2) sent unfolding tidy_def by fastforce
  qed
qed

lemma attempts_tidy:
  assumes "sockets_ok net" and "attempts left (logged_net net) depth frame attempt cl (c, l) = (r, cl', (c', l'))"
  shows "\<exists>tr. l' = l @ tr \<and> tidy cl r cl' tr"
  using assms(2)
proof (induction left arbitrary: attempt cl c l)
  case 0
  then show ?case by (auto simp: tidy_def intro: exI [of _ "length (ec_pool cl')"])
next
  case (Suc left)
  from Suc.prems show ?case
  proof (cases rule: attempt_cases)
    case (answered response tr)
    with tidy_answered [OF answered(3)] show ?thesis by blast
  next
    case (failed e connection tr x)
    with tidy_failed [OF failed(3)] show ?thesis by blast
  next
    case (escaped e connection tr c1)
    have "tidy cl r cl' tr"
    proof (cases connection)
      case None
      then show ?thesis using tidy_failed [OF escaped(3), of e] escaped(1) by (simp add: shutting_def)
    next
      case (Some h)
      have "r = Inl RecursionError"
        using exchange_errors [OF sockets_ok_logged [OF assms(1)]] escaped Some by blast
      then show ?thesis using kept_failed(1) [OF escaped(3)] by (auto simp: tidy_def)
    qed
    with escaped(2) show ?thesis by blast
  next
    case (again e connection tr cl1 s c2)
    from Suc.IH [OF again(4)] obtain tr' where
      "l' = (l @ tr @ shutting connection @ [Slept s]) @ tr'" "tidy cl1 r cl' tr'" by blast
    with tidy_again [OF again(1)] show ?thesis by (metis append_assoc)
  qed
qed

section \<open>The client and the server\<close>

text \<open>
  A network whose other end is the enclave's server: what is sent is served by the server's loop
  on a socket in memory, and its output is there to be received in chunks of \<open>Suc k\<close> bytes.
\<close>

definition loopback :: "nat \<Rightarrow> ('m, 'p, 'w) server \<Rightarrow> (unit, 'm engine \<times> 'w \<times> bytes) net" where
  "loopback k sv =
     \<lparr>nt_factory = (\<lambda>cid port t c. (Inr (), c)),
      nt_sendall = (\<lambda>h b (en, w, out). case serve_loop sv (mem_conn k) en w (b, []) of
          None \<Rightarrow> (Inl TimeoutError, (en, w, out))
        | Some (r, en', w', c) \<Rightarrow> (Inr (), (en', w', out @ snd c))),
      nt_recv = (\<lambda>h n (en, w, out). case mem_recv k n (out, []) of (r, c) \<Rightarrow> (r, (en, w, fst c))),
      nt_close = (\<lambda>h c. (Inr (), c)),
      nt_sleep = (\<lambda>t c. c)\<rparr>"

lemma loopback_stream: "stream_recv (nt_recv (loopback k sv) h) (snd \<circ> snd) (\<lambda>(en, w, out). (en, w))"
  using mem_stream [of k] by (fastforce simp: stream_recv_def loopback_def split: prod.splits)

lemma loopback_sendall:
  assumes "message_wf (sv_depth sv) request" and "encode_frame request = Inr f"
    and "dispatch sv request en w = (d, en', w')" and "encode_frame d = Inr g"
  shows "nt_sendall (loopback k sv) h f (en, w, []) = (Inr (), (en', w', g))"
proof -
  have run: "answers sv [request] en w = ([d], en', w')" by (simp add: assms(3))
  have fs: "frames_of [request] [f]" "frames_of [d] [g]" by (simp_all add: frames_of_def assms(2,4))
  have "\<exists>c'. serve_loop sv (mem_conn k) en w (f, []) = Some (Inr (), en', w', c') \<and> fst c' = [] \<and> snd c' = g"
    using serve_stream [OF mem_conn_ok [of k], of sv "[request]" "[f]" "(f, [])" en w "[d]" en' w' "[g]"] fs run assms(1)
    by simp
  then show ?thesis by (auto simp: loopback_def)
qed

lemma loopback_request:
  assumes "message_wf (sv_depth sv) (od_set payload (U ''action'') (JStr action))" and "0 < ec_max_retries cl"
    and "dispatch sv (od_set payload (U ''action'') (JStr action)) en w = (d, en', w')" and "message_wf depth d"
  shows "\<exists>cl'. send_request (loopback k sv) depth action payload cl (en, w, []) = (Inr d, cl', (en', w', []))
    \<and> ec_max_retries cl' = ec_max_retries cl"
proof -
  let ?request = "od_set payload (U ''action'') (JStr action)"
  obtain f where f: "encode_frame ?request = Inr f" using encode_frame_wf [OF assms(1)] by blast
  obtain g where g: "encode_frame d = Inr g" using encode_frame_wf [OF assms(4)] by blast
  note s = loopback_sendall [OF assms(1) f assms(3) g]
  have "(snd \<circ> snd) (en', w', g) = g @ []" by simp
  from host_reads_frame [OF assms(4) loopback_stream [of k sv "()"] this g] obtain c'
    where "receive_response depth (nt_recv (loopback k sv) ()) (en', w', g) = (Inr d, c')" "(snd \<circ> snd) c' = []"
      "(\<lambda>(en, w, out). (en, w)) c' = (en', w')" by auto
  then have r: "receive_response depth (nt_recv (loopback k sv) ()) (en', w', g) = (Inr d, (en', w', []))"
    by (cases c') auto
  obtain cl1 where a: "acquire_connection (loopback k sv) cl (en, w, []) = (Inr (), cl1, (en, w, []))"
      "ec_max_retries cl1 = ec_max_retries cl"
    by (cases "ec_pool cl = []") (auto simp: acquire_connection_def loopback_def)
  obtain cl2 where "release_connection (loopback k sv) () cl1 (en', w', []) = (Inr (), cl2, (en', w', []))"
      and cl2: "ec_max_retries cl2 = ec_max_retries cl1"
    by (cases "int (length (ec_pool cl1)) \<ge> ec_max_pool_size cl1")
      (auto simp: release_connection_def safe_close_def loopback_def)
  with a(1) s [of k "()"] r have "exchange (loopback k sv) depth f cl (en, w, []) = (Inr d, cl2, (en', w', []))"
    by (simp add: exchange_def)
  moreover obtain left where "nat (ec_max_retries cl) = Suc left" using assms(2) by (cases "nat (ec_max_retries cl)") auto
  ultimately show ?thesis using f a(2) cl2 by (simp add: send_request_def)
qed

section \<open>The reading of answers\<close>

definition remote_kind :: "ustr \<Rightarrow> app_kind" where
  "remote_kind code =
     (if code = U ''MODEL_NOT_FOUND'' then RemoteModelNotFoundError
      else if code = U ''FEATURE_DIMENSION_MISMATCH'' then RemoteFeatureDimensionMismatchError
      else if code = U ''INVALID_REQUEST'' then RemoteInvalidRequestError
      else EnclaveCommunicationError)"

lemma normalize_error: "normalize_predict_response py_str (error_message code text) = Inl (AppException (remote_kind code) text)"
  by (simp add: normalize_predict_response_def error_message_def remote_kind_def od_get_def)

lemma normalize_prediction:
  "normalize_predict_response py_str (prediction_message p served) = Inr (p\<lparr>pr_served_from_cache := served\<rparr>)"
  by (cases p) (simp add: normalize_predict_response_def prediction_message_def od_get_def json_float_def json_truthy_def)

section \<open>Findings\<close>

text \<open>An answer nested deeper than the parser's limit leaves its connection open and outside of the pool.\<close>

lemma deep_response_leaks:
  assumes "acquire_connection net cl c = (Inr h, cl1, c1)" and "nt_sendall net h frame c1 = (Inr u, c2)"
    and "receive_response depth (nt_recv net h) c2 = (Inl RecursionError, c3)"
  shows "attempts (Suc left) net depth frame attempt cl c = (Inl RecursionError, cl1, c3)"
  using assms by (simp add: exchange_def)

text \<open>An answer whose numbers are none is reported by a bare built-in exception.\<close>

lemma malformed_number_escapes:
  "normalize_predict_response py_str
     [(U ''status'', JStr (U ''ok'')), (U ''prediction'', JNull), (U ''confidence'', JFloat (Fin 1)), (U ''latency_ms'', JFloat (Fin 1))]
   = Inl TypeError"
  by (simp add: normalize_predict_response_def od_get_def json_float_def)

section \<open>Properties\<close>


text \<open>C10. After a request the pool is the old one with connections taken from its
  end, and at most one put back, for an answer and only if there is room: it never grows beyond
  its size. No connection is lost: each one the request was sent on has been closed or is the one
  put back. The exception is an answer nested deeper than Python's recursion limit.\<close>

theorem connections_accounted:
  assumes "sockets_ok net"
  shows "case send_request (logged_net net) depth action payload cl (c, []) of (r, cl', (c', tr)) \<Rightarrow>
      tidy cl r cl' tr \<and> int (length (ec_pool cl')) \<le> max (int (length (ec_pool cl))) (ec_max_pool_size cl)"
proof -
  obtain r cl' c' tr where s: "send_request (logged_net net) depth action payload cl (c, []) = (r, cl', (c', tr))" by (metis surj_pair)
  have "tidy cl r cl' tr"
  proof (cases "encode_frame (od_set payload (U ''action'') (JStr action))")
    case (Inl e)
    with s have "tr = []" "cl' = cl" by (auto simp: send_request_def)
    then show ?thesis by (auto simp: tidy_def intro: exI [of _ "length (ec_pool cl)"])
  next
    case (Inr f)
    with s attempts_tidy [OF assms] show ?thesis by (fastforce simp: send_request_def)
  qed
  moreover from this have "int (length (ec_pool cl')) \<le> max (int (length (ec_pool cl))) (ec_max_pool_size cl)"
    by (auto simp: tidy_def)
  ultimately show ?thesis unfolding s by simp
qed

definition dead_net :: "(nat, nat) net" where
  \<comment> \<open>for the witness: connections numbered by the world, on which no write succeeds\<close>
  "dead_net = \<lparr>nt_factory = (\<lambda>cid port t c. (Inr c, Suc c)), nt_sendall = (\<lambda>h b c. (Inl TimeoutError, c)),
     nt_recv = (\<lambda>h n c. (Inr [], c)), nt_close = (\<lambda>h c. (Inr (), c)), nt_sleep = (\<lambda>t c. c)\<rparr>"

definition pooled_client :: "nat enclave_client" where
  "pooled_client = \<lparr>ec_cid = 16, ec_port = 5000, ec_timeout_seconds = Fin 30, ec_max_retries = 1, ec_max_pool_size = 4,
     ec_pool = [7, 8]\<rparr>"

theorem connections_accounted_witness:
  "\<exists>f. send_request (logged_net dead_net) 5 (U ''list_models'') [] pooled_client (0, [])
       = (Inl timed_out, with_pool pooled_client [7], (0, [Sent 8 f, Closed 8]))
   \<and> tidy pooled_client (Inl timed_out) (with_pool pooled_client [7]) [Sent 8 f, Closed 8]"
proof -
  obtain f where f: "encode_frame sample_request = Inr f" using frame.enc_total [OF sample_request_wf] by blast
  have q: "od_set [] (U ''action'') (JStr (U ''list_models'')) = sample_request" by (simp add: sample_request_def od_set_def)
  have ok: "sockets_ok dead_net" by (simp add: sockets_ok_def dead_net_def)
  have "send_request (logged_net dead_net) 5 (U ''list_models'') [] pooled_client (0, [])
       = (Inl timed_out, with_pool pooled_client [7], (0, [Sent 8 f, Closed 8]))"
    unfolding send_request_def q f
    by (simp add: exchange_def acquire_connection_def discard_connection_def safe_close_def pooled_client_def with_pool_def
        logged_net_def dead_net_def)
  with connections_accounted [OF ok, where depth = 5 and action = "U ''list_models''" and payload = "[]"
      and cl = pooled_client and c = 0] show ?thesis by auto
qed

text \<open>A prediction asked for by the client over a working connection to the
  enclave's server is the server's answer to the request, read by the client: one request reaches
  the engine, exactly once, and the connection is left with nothing to read.\<close>

theorem predict_over_the_wire:
  assumes "0 < ec_max_retries cl"
    and "request = od_set (predict_payload name features key blob tenant_id) (U ''action'') (JStr (U ''predict''))"
    and "message_wf (sv_depth sv) request" and "dispatch sv request en w = (d, en', w')" and "message_wf depth d"
  shows "\<exists>cl'. client_predict (loopback k sv) depth py_str name features key blob tenant_id cl (en, w, [])
    = (normalize_predict_response py_str d, cl', (en', w', []))"
proof -
  obtain cl' where "send_request (loopback k sv) depth (U ''predict'')
      (predict_payload name features key blob tenant_id) cl (en, w, []) = (Inr d, cl', (en', w', []))"
    using loopback_request [of sv _ "U ''predict''"] assms by blast
  then show ?thesis by (simp add: client_predict_def)
qed

lemma sample_predict_wf:
  "message_wf 5 (od_set (predict_payload (U ''x'') [] [] None (Some (U ''t''))) (U ''action'') (JStr (U ''predict'')))"
  by (simp add: message_wf_def predict_payload_def od_set_def)
    (simp add: dump_str_def U_def escape_char_def)

lemma not_found_wf:
  "message_wf 5 (error_message (U ''MODEL_NOT_FOUND'') (U ''Model is not loaded and no encrypted model blob was provided.''))"
  by (simp add: message_wf_def error_message_def) (simp add: dump_str_def U_def escape_char_def)

theorem predict_over_the_wire_witness:
  "\<exists>cl'. client_predict (loopback 3 sample_server) 5 (\<lambda>_. []) (U ''x'') [] [] None (Some (U ''t'')) (enclave_client_init 16 5000 (Fin 30) 3 4)
      (sample_loaded, (), [])
    = (Inl (AppException RemoteModelNotFoundError (U ''Model is not loaded and no encrypted model blob was provided.'')),
       cl', (sample_loaded, (), []))"
proof -
  let ?request = "od_set (predict_payload (U ''x'') [] [] None (Some (U ''t''))) (U ''action'') (JStr (U ''predict''))"
  have wf: "message_wf (sv_depth sample_server) ?request" using sample_predict_wf by (simp add: sample_server_def)
  have "str_field ?request ''model_name'' = Some (U ''x'')" "str_field ?request ''tenant_id'' = Some (U ''t'')"
    "od_get ?request (U ''features'') = Some (JList [])" "od_get ?request (U ''encrypted_model_blob'') = None"
    "strip (U ''x'') \<noteq> []" "strip (U ''t'') \<noteq> []" "\<not> is_model_loaded (U ''x'') sample_loaded"
    "od_get ?request (U ''action'') = Some (JStr (U ''predict''))"
    by (simp_all add: predict_payload_def str_field_def od_get_def od_set_def is_model_loaded_def sample_loaded_def strip_def U_def py_space_def)
  then have d: "dispatch sample_server ?request sample_loaded () =
      (error_message (U ''MODEL_NOT_FOUND'') (U ''Model is not loaded and no encrypted model blob was provided.''), sample_loaded, ())"
    by (simp add: dispatch_def handle_predict_def Let_def)
  have "0 < ec_max_retries (enclave_client_init 16 5000 (Fin 30) 3 4)" by (simp add: enclave_client_init_def)
  from predict_over_the_wire [OF this refl wf d not_found_wf]
  show ?thesis by (simp add: normalize_error remote_kind_def)
qed

text \<open>C31. The client understands every answer the enclave gives to a predict
  request, never calling one malformed: a prediction becomes its numbers and the server's word on
  the cache, an error the exception of its code, with the message.\<close>

theorem predict_answer_understood:
  "case dispatch sv (od_set payload (U ''action'') (JStr (U ''predict''))) en w of (d, _) \<Rightarrow>
     (\<exists>p served. d = prediction_message p served
        \<and> normalize_predict_response py_str d = Inr (p\<lparr>pr_served_from_cache := served\<rparr>))
   \<or> (\<exists>code text. d = error_message code text \<and> code \<in> set error_codes
        \<and> normalize_predict_response py_str d = Inl (AppException (remote_kind code) text))"
proof -
  let ?request = "od_set payload (U ''action'') (JStr (U ''predict''))"
  obtain d en' w' where d: "dispatch sv ?request en w = (d, en', w')" by (cases "dispatch sv ?request en w")
  then have "handle_predict sv ?request en w = (d, en', w')" by (simp add: dispatch_def Let_def od_get_set)
  from handle_predict_shape [OF this] consider code m where "d = error_message code m" "code \<in> set error_codes"
    | p served where "d = prediction_message p served"
    by (auto simp: error_shape_def prediction_shape_def)
  then show ?thesis
    unfolding d prod.case by cases (use normalize_error normalize_prediction in blast)+
qed

end
