(* ===== verification/MockEnclave.thy ===== *)
theory MockEnclave
  imports EnclaveClient
begin

text \<open>
  The mock client of \<open>feature_store/services/enclave_client.py\<close>, which runs an inference engine in
  process, and the choice between the two clients. The mock is compared with the enclave's
  server, whose protocol it repeats.
\<close>

section \<open>The mock\<close>

text \<open>
  \<open>_StaticKeyResolverClient\<close> is the adapter from a key resolver to the engine's KMS client. The
  mock uses the same parameters as the server; \<open>py_str\<close> is \<open>str(exc)\<close> of any exception.
\<close>

definition static_resolver :: "(bytes \<Rightarrow> ustr \<Rightarrow> 'w \<Rightarrow> bytes res \<times> 'w) \<Rightarrow> bytes \<Rightarrow> ustr \<Rightarrow> 'w \<Rightarrow> bytes res \<times> 'w" where
  "static_resolver resolver ciphertext_blob tenant_id = resolver ciphertext_blob tenant_id"

definition default_resolver :: "bytes \<Rightarrow> ustr \<Rightarrow> 'w \<Rightarrow> bytes res \<times> 'w" where
  "default_resolver encrypted_key tenant_id w = (Inr encrypted_key, w)"

definition mock_failure :: "(exn \<Rightarrow> ustr) \<Rightarrow> exn \<Rightarrow> message" where
  "mock_failure py_str e =
     (case e of
        FeatureDimensionMismatchError m \<Rightarrow> error_message (U ''FEATURE_DIMENSION_MISMATCH'') m
      | ModelNotLoadedError m \<Rightarrow> error_message (U ''MODEL_NOT_FOUND'') m
      | ModelLoadError m \<Rightarrow> error_message (U ''DECRYPTION_FAILED'') m
      | _ \<Rightarrow> error_message (U ''INVALID_REQUEST'') (py_str e))"

definition mock_predict_loaded :: "(exn \<Rightarrow> ustr) \<Rightarrow> ('m, 'p, 'w) server \<Rightarrow> ustr \<Rightarrow> json list \<Rightarrow> bool \<Rightarrow> 'm engine \<Rightarrow> 'w
    \<Rightarrow> message \<times> 'm engine \<times> 'w" where
  "mock_predict_loaded py_str sv model_name features served_from_cache en w =
     (case mapR json_float features of
        Inl e \<Rightarrow> (mock_failure py_str e, en, w)
      | Inr values \<Rightarrow>
        (case engine_predict (sv_lib sv) (sv_perf_counter sv) model_name values en w of
           (Inl e, en', w') \<Rightarrow> (mock_failure py_str e, en', w')
         | (Inr p, en', w') \<Rightarrow> (prediction_message p served_from_cache, en', w')))"

definition mock_handle_predict :: "(exn \<Rightarrow> ustr) \<Rightarrow> ('m, 'p, 'w) server \<Rightarrow> message \<Rightarrow> 'm engine \<Rightarrow> 'w
    \<Rightarrow> message \<times> 'm engine \<times> 'w" where
  "mock_handle_predict py_str sv payload en w =
     (case (str_field payload ''model_name'', od_get payload (U ''features'')) of
        (Some model_name, Some (JList features)) \<Rightarrow>
          (case str_field payload ''tenant_id'' of
             Some (t # tenant) \<Rightarrow>
               (let served_from_cache = is_model_loaded model_name en;
                    blob = (case od_get payload (U ''encrypted_model_blob'') of Some v \<Rightarrow> v | None \<Rightarrow> JNull)
                in if blob \<noteq> JNull then
                     (case str_field payload ''encrypted_model_key'' of
                        Some (k # key) \<Rightarrow>
                          (case utf8_encode (dumps (JObj (load_bundle (t # tenant) model_name (k # key) blob))) of
                             Inl e \<Rightarrow> (mock_failure py_str e, en, w)
                           | Inr encoded \<Rightarrow>
                             (case load_model (sv_lib sv) (sv_kms sv) (sv_depth sv) model_name encoded en w of
                                (Inl e, en', w') \<Rightarrow> (mock_failure py_str e, en', w')
                              | (Inr _, en', w') \<Rightarrow> mock_predict_loaded py_str sv model_name features False en' w'))
                      | _ \<Rightarrow> (error_message (U ''INVALID_REQUEST'')
                               (U ''encrypted_model_key is required when encrypted_model_blob is provided.''), en, w))
                   else if \<not> served_from_cache then
                     (error_message (U ''MODEL_NOT_FOUND'')
                        (U ''Model is not loaded and no encrypted model blob was provided.''), en, w)
                   else mock_predict_loaded py_str sv model_name features served_from_cache en w)
           | _ \<Rightarrow> (error_message (U ''INVALID_REQUEST'') (U ''tenant_id is required.''), en, w))
      | _ \<Rightarrow> (error_message (U ''INVALID_REQUEST'') (U ''model_name and features are required.''), en, w))"

definition mock_send_request :: "(exn \<Rightarrow> ustr) \<Rightarrow> ('m, 'p, 'w) server \<Rightarrow> ustr \<Rightarrow> message \<Rightarrow> 'm engine \<Rightarrow> 'w
    \<Rightarrow> message \<times> 'm engine \<times> 'w" where
  "mock_send_request py_str sv action payload en w =
     (if action = U ''health'' then
        ([(U ''status'', JStr (U ''ok'')),
          (U ''echo'', case od_get payload (U ''echo'') of Some v \<Rightarrow> v | None \<Rightarrow> JStr (U ''ping'')),
          (U ''models_loaded'', JInt (int (length (list_loaded_models en))))], en, w)
      else if action = U ''list_models'' then
        ([(U ''status'', JStr (U ''ok'')), (U ''models'', JList (map JStr (list_loaded_models en)))], en, w)
      else if action \<noteq> U ''predict'' then
        (error_message (U ''INVALID_ACTION'') (U ''Unsupported action: '' @ sv_repr sv (Some (JStr action))), en, w)
      else mock_handle_predict py_str sv payload en w)"

definition mock_predict_payload :: "ustr \<Rightarrow> pyfloat list \<Rightarrow> bytes \<Rightarrow> bytes option \<Rightarrow> ustr option \<Rightarrow> message" where
  "mock_predict_payload model_name features encrypted_model_key encrypted_model_blob tenant_id =
     [(U ''model_name'', JStr model_name), (U ''features'', JList (map JFloat features)),
      (U ''tenant_id'', case tenant_id of None \<Rightarrow> JNull | Some t \<Rightarrow> JStr t),
      (U ''encrypted_model_key'', JStr (b64encode encrypted_model_key)),
      (U ''encrypted_model_blob'', case encrypted_model_blob of None \<Rightarrow> JNull | Some b \<Rightarrow> JStr (b64encode b))]"

definition mock_predict :: "(exn \<Rightarrow> ustr) \<Rightarrow> (json \<Rightarrow> ustr) \<Rightarrow> ('m, 'p, 'w) server \<Rightarrow> ustr \<Rightarrow> pyfloat list \<Rightarrow> bytes
    \<Rightarrow> bytes option \<Rightarrow> ustr option \<Rightarrow> 'm engine \<Rightarrow> 'w \<Rightarrow> prediction res \<times> 'm engine \<times> 'w" where
  "mock_predict exn_str py_str sv model_name features encrypted_model_key encrypted_model_blob tenant_id en w =
     (case mock_send_request exn_str sv (U ''predict'')
         (mock_predict_payload model_name features encrypted_model_key encrypted_model_blob tenant_id) en w of
        (response, en', w') \<Rightarrow> (normalize_predict_response py_str response, en', w'))"

definition mock_health_check :: "(exn \<Rightarrow> ustr) \<Rightarrow> ('m, 'p, 'w) server \<Rightarrow> 'm engine \<Rightarrow> 'w \<Rightarrow> bool" where
  "mock_health_check exn_str sv en w =
     (case mock_send_request exn_str sv (U ''health'') [(U ''echo'', JStr (U ''ping''))] en w of
        (response, _) \<Rightarrow> od_get response (U ''status'') = Some (JStr (U ''ok'')))"

definition mock_list_models :: "(exn \<Rightarrow> ustr) \<Rightarrow> (json \<Rightarrow> ustr) \<Rightarrow> ('m, 'p, 'w) server \<Rightarrow> 'm engine \<Rightarrow> 'w \<Rightarrow> ustr list res" where
  "mock_list_models exn_str py_str sv en w =
     (case mock_send_request exn_str sv (U ''list_models'') [] en w of
        (response, _) \<Rightarrow>
          (case (case od_get response (U ''models'') of None \<Rightarrow> JList [] | Some v \<Rightarrow> v) of
             JList vs \<Rightarrow> Inr (map (\<lambda>v. case v of JStr s \<Rightarrow> s | _ \<Rightarrow> py_str v) vs)
           | _ \<Rightarrow> Inl (AppException MalformedEnclaveResponseError (U ''The mock enclave returned an invalid model list.''))))"

section \<open>Which client\<close>

datatype ('h, 'm) any_client = RealClient "'h enclave_client" | MockClient "'m engine"

record client_environ =
  ce_use_mock_enclave :: bool
  ce_enclave_cid :: int
  ce_enclave_port :: int
  ce_rpc_timeout_seconds :: "ustr option"
  ce_rpc_max_retries :: "ustr option"
  ce_rpc_pool_size :: "ustr option"
  ce_max_loaded_models :: "ustr option"

definition get_enclave_client :: "client_environ \<Rightarrow> ('h, 'm) any_client option \<Rightarrow> ('h, 'm) any_client res" where
  \<comment> \<open>the second argument is the client kept on the application's state, the result is kept there\<close>
  "get_enclave_client env existing =
     (case existing of
        Some client \<Rightarrow> Inr client
      | None \<Rightarrow>
        if ce_use_mock_enclave env then
          (case engine_init (ce_max_loaded_models env) None of Inl e \<Rightarrow> Inl e | Inr en \<Rightarrow> Inr (MockClient en))
        else
          bindR (float_of_str (case ce_rpc_timeout_seconds env of Some s \<Rightarrow> s | None \<Rightarrow> U ''30'')) (\<lambda>timeout_seconds.
          bindR (int_of_str (case ce_rpc_max_retries env of Some s \<Rightarrow> s | None \<Rightarrow> U ''3'')) (\<lambda>max_retries.
          bindR (int_of_str (case ce_rpc_pool_size env of Some s \<Rightarrow> s | None \<Rightarrow> U ''4'')) (\<lambda>max_pool_size.
            Inr (RealClient (enclave_client_init (ce_enclave_cid env) (ce_enclave_port env) timeout_seconds
              max_retries max_pool_size))))))"

section \<open>The mock's keys\<close>

text \<open>The resolver, recording what it is asked: the adapter is a key decryptor as the enclave's KMS client is.\<close>

definition logged_resolver :: "(bytes \<Rightarrow> ustr \<Rightarrow> 'w \<Rightarrow> bytes res \<times> 'w) \<Rightarrow> bytes \<Rightarrow> ustr
    \<Rightarrow> 'w \<times> (ustr \<times> bytes) list \<Rightarrow> bytes res \<times> ('w \<times> (ustr \<times> bytes) list)" where
  "logged_resolver resolver c t = (\<lambda>(w, l). case resolver c t w of (r, w') \<Rightarrow> (r, (w', l @ [(t, c)])))"

interpretation static_keys: key_decryptor "static_resolver (logged_resolver resolver)" snd for resolver
  by unfold_locales (auto simp: static_resolver_def logged_resolver_def split: prod.splits)

section \<open>The mock and the server\<close>

definition same_answer :: "(exn \<Rightarrow> ustr) \<Rightarrow> message \<Rightarrow> message \<Rightarrow> bool" where
  \<comment> \<open>the same, or both report one exception, or both refuse the request\<close>
  "same_answer py_str d d' \<longleftrightarrow> d' = d
     \<or> (\<exists>e. d = predict_failure e \<and> d' = mock_failure py_str e)
     \<or> (\<exists>m m'. d = error_message (U ''INVALID_REQUEST'') m \<and> d' = error_message (U ''INVALID_REQUEST'') m')"

definition agree :: "(exn \<Rightarrow> ustr) \<Rightarrow> message \<times> 'm engine \<times> 'w \<Rightarrow> message \<times> 'm engine \<times> 'w \<Rightarrow> bool" where
  "agree py_str x y \<longleftrightarrow> same_answer py_str (fst x) (fst y) \<and> snd x = snd y"

lemma agree_refl [simp]: "agree py_str x x" by (simp add: agree_def same_answer_def)

lemma agree_failure [simp]: "agree py_str (predict_failure e, s) (mock_failure py_str e, s)"
  by (auto simp: agree_def same_answer_def)

lemma agree_refused [simp]:
  "agree py_str (error_message (U ''INVALID_REQUEST'') m, s) (error_message (U ''INVALID_REQUEST'') m', s)"
  by (auto simp: agree_def same_answer_def)

lemma predict_loaded_agrees:
  "agree py_str (predict_loaded sv name features served en w) (mock_predict_loaded py_str sv name features served en w)"
  by (auto simp: predict_loaded_def mock_predict_loaded_def split: sum.split prod.split)

lemma load_and_predict_agrees:
  "agree py_str (load_and_predict sv name bundle features en w)
    (case utf8_encode (dumps (JObj bundle)) of
       Inl e \<Rightarrow> (mock_failure py_str e, en, w)
     | Inr encoded \<Rightarrow>
       (case load_model (sv_lib sv) (sv_kms sv) (sv_depth sv) name encoded en w of
          (Inl e, en', w') \<Rightarrow> (mock_failure py_str e, en', w')
        | (Inr _, en', w') \<Rightarrow> mock_predict_loaded py_str sv name features False en' w'))"
  by (simp add: load_and_predict_def predict_loaded_agrees split: sum.split prod.split del: dumps.simps)

lemma str_field_set: "k \<noteq> U f \<Longrightarrow> str_field (od_set d k v) f = str_field d f"
  by (simp add: str_field_def od_get_set)

definition unblank :: "message \<Rightarrow> string \<Rightarrow> bool" where
  "unblank payload field = (case str_field payload field of None \<Rightarrow> True | Some v \<Rightarrow> strip v \<noteq> [])"

lemma handle_predict_agrees:
  assumes "unblank payload ''model_name''" and "unblank payload ''tenant_id''"
  shows "agree py_str (handle_predict sv (od_set payload (U ''action'') a) en w) (mock_handle_predict py_str sv payload en w)"
proof -
  have f: "str_field (od_set payload (U ''action'') a) ''model_name'' = str_field payload ''model_name''"
    "str_field (od_set payload (U ''action'') a) ''tenant_id'' = str_field payload ''tenant_id''"
    "str_field (od_set payload (U ''action'') a) ''encrypted_model_key'' = str_field payload ''encrypted_model_key''"
    "od_get (od_set payload (U ''action'') a) (U ''features'') = od_get payload (U ''features'')"
    "od_get (od_set payload (U ''action'') a) (U ''encrypted_model_blob'') = od_get payload (U ''encrypted_model_blob'')"
    by (simp_all add: str_field_set od_get_set)
  note u = handle_predict_def mock_handle_predict_def f Let_def
  show ?thesis
  proof (cases "str_field payload ''model_name''")
    case None
    then show ?thesis by (simp add: u)
  next
    case name: (Some name)
    with assms(1) have n: "strip name \<noteq> []" by (simp add: unblank_def)
    show ?thesis
    proof (cases "str_field payload ''tenant_id''")
      case None
      with name n show ?thesis by (simp add: u split: option.split json.split)
    next
      case t: (Some tenant)
      with assms(2) have "strip tenant \<noteq> []" by (simp add: unblank_def)
      moreover then obtain c cs where c: "tenant = c # cs" by (cases tenant) auto
      ultimately show ?thesis using name n t unfolding u
        by (simp add: predict_loaded_agrees load_and_predict_agrees split: option.split json.split list.split
            del: dumps.simps)
    qed
  qed
qed

section \<open>Properties\<close>



text \<open>A blank name is refused by the server; the mock goes on with it and answers that no such model is loaded.\<close>

lemma mock_accepts_blank_names:
  assumes "payload = [(U ''model_name'', JStr (U '' '')), (U ''features'', JList []), (U ''tenant_id'', JStr (U '' ''))]"
    and "od_get (en_models en) (U '' '') = None"
  shows "fst (dispatch sv (od_set payload (U ''action'') (JStr (U ''predict''))) en w)
      = error_message (U ''INVALID_REQUEST'') (U ''model_name is required.'')"
    and "fst (mock_send_request py_str sv (U ''predict'') payload en w)
      = error_message (U ''MODEL_NOT_FOUND'') (U ''Model is not loaded and no encrypted model blob was provided.'')"
  using assms(2)
  by (simp_all add: assms(1) dispatch_def handle_predict_def mock_send_request_def mock_handle_predict_def od_get_set
      str_field_def od_get_def od_set_def is_model_loaded_def strip_def U_def py_space_def)

end
