(* ===== verification/Api.thy ===== *)
theory Api
  imports Auth Artifacts MockEnclave
begin

text \<open>
  The HTTP application: the routers of \<open>feature_store/routers\<close>, the request-context middleware of
  \<open>feature_store/main.py\<close> and the exception handlers around them. FastAPI's part is the order in
  which it runs this code: the tenant dependency, then the other dependencies, then the handler.
  A call of \<open>api_call\<close> has been routed and its parameters validated.
\<close>

section \<open>The enclave behind the API\<close>

record 'w inference_client =
  ic_predict :: "ustr \<Rightarrow> pyfloat list \<Rightarrow> bytes \<Rightarrow> bytes option \<Rightarrow> ustr option \<Rightarrow> 'w \<Rightarrow> prediction res \<times> 'w"
  ic_list_models :: "'w \<Rightarrow> ustr list res \<times> 'w"

text \<open>The two clients the application may hold, each with its own state in the world.\<close>

definition real_inference_client :: "('h, 'c) net \<Rightarrow> nat \<Rightarrow> (json \<Rightarrow> ustr) \<Rightarrow> ('h enclave_client \<times> 'c) inference_client" where
  "real_inference_client net depth py_str =
     \<lparr>ic_predict = (\<lambda>model_name features key blob tenant_id (cl, c).
        client_predict net depth py_str model_name features key blob tenant_id cl c),
      ic_list_models = (\<lambda>(cl, c). client_list_models net depth cl c)\<rparr>"

definition mock_inference_client :: "(exn \<Rightarrow> ustr) \<Rightarrow> (json \<Rightarrow> ustr) \<Rightarrow> ('m, 'p, 'w) server \<Rightarrow> ('m engine \<times> 'w) inference_client" where
  "mock_inference_client exn_str py_str sv =
     \<lparr>ic_predict = (\<lambda>model_name features key blob tenant_id (en, w).
        mock_predict exn_str py_str sv model_name features key blob tenant_id en w),
      ic_list_models = (\<lambda>(en, w). (mock_list_models exn_str py_str sv en w, (en, w)))\<rparr>"

section \<open>The application\<close>

record ('dt, 'w) app =
  ap_lib :: "'dt py_lib"
  ap_api :: "'w dynamo_api"
  ap_table_name :: ustr
  ap_version :: ustr
  ap_clock :: "'w \<Rightarrow> 'dt \<times> 'w"
  ap_perf_counter :: "'w \<Rightarrow> pyfloat \<times> 'w"
  ap_files :: "'w files"
  ap_storage_dir :: "ustr option"
  ap_client :: "'w \<Rightarrow> 'w inference_client res \<times> 'w"

definition ap_store :: "('dt, 'w) app \<Rightarrow> ('dt, 'w) store_ops" where
  \<comment> \<open>the data layer of \<open>get_feature_service\<close>\<close>
  "ap_store app = dynamo_store (ap_lib app) (ap_api app) (ap_clock app)"

record inference_response =
  in_prediction :: pyfloat
  in_confidence :: pyfloat
  in_latency_ms :: pyfloat
  in_served_from_cache :: bool

datatype 'dt reply =
    HealthReply ustr ustr bool ustr
  | FeatureSetReply "'dt feature_set"
  | FeatureSetsReply "'dt feature_set list"
  | EmptyReply
  | InferenceReply inference_response
  | ModelsReply "ustr list" "ustr list"

section \<open>Handlers\<close>

definition health :: "('dt, 'w) app \<Rightarrow> 'w \<Rightarrow> 'dt reply res \<times> 'w" where
  "health app w =
     (case check_connectivity (ap_api app) w of
        (Inl e, w') \<Rightarrow> (Inl e, w')
      | (Inr reachable, w') \<Rightarrow>
        (Inr (HealthReply (if reachable then U ''ok'' else U ''degraded'') (ap_version app) reachable (ap_table_name app)), w'))"

definition create_feature_set :: "('dt, 'w) app \<Rightarrow> feature_set_create \<Rightarrow> 'dt tenant \<Rightarrow> 'w \<Rightarrow> 'dt reply res \<times> 'w" where
  "create_feature_set app payload tenant w =
     (case svc_create_feature_set (ap_store app) tenant payload w of
        (Inl e, w') \<Rightarrow> (Inl e, w') | (Inr fs, w') \<Rightarrow> (Inr (FeatureSetReply fs), w'))"

definition api_get_feature_set :: "('dt, 'w) app \<Rightarrow> ustr \<Rightarrow> 'dt tenant \<Rightarrow> ustr option \<Rightarrow> 'w \<Rightarrow> 'dt reply res \<times> 'w" where
  "api_get_feature_set app feature_set_name tenant tenant_id w =
     (case svc_get_feature_set (ap_store app) tenant feature_set_name tenant_id w of
        (Inl e, w') \<Rightarrow> (Inl e, w') | (Inr fs, w') \<Rightarrow> (Inr (FeatureSetReply fs), w'))"

definition api_list_feature_sets :: "('dt, 'w) app \<Rightarrow> 'dt tenant \<Rightarrow> ustr option \<Rightarrow> 'w \<Rightarrow> ('dt reply res \<times> 'w) option" where
  "api_list_feature_sets app tenant tenant_id w =
     (case svc_list_feature_sets (ap_store app) tenant tenant_id w of
        None \<Rightarrow> None
      | Some (Inl e, w') \<Rightarrow> Some (Inl e, w') | Some (Inr fss, w') \<Rightarrow> Some (Inr (FeatureSetsReply fss), w'))"

definition api_delete_feature_set :: "('dt, 'w) app \<Rightarrow> ustr \<Rightarrow> 'dt tenant \<Rightarrow> ustr option \<Rightarrow> 'w \<Rightarrow> 'dt reply res \<times> 'w" where
  "api_delete_feature_set app feature_set_name tenant tenant_id w =
     (case svc_delete_feature_set (ap_store app) tenant feature_set_name tenant_id w of
        (Inl e, w') \<Rightarrow> (Inl e, w') | (Inr _, w') \<Rightarrow> (Inr EmptyReply, w'))"

definition elapsed_ms :: "pyfloat \<Rightarrow> pyfloat \<Rightarrow> pyfloat" where
  \<comment> \<open>\<open>(perf_counter() - started) * 1000.0\<close>\<close>
  "elapsed_ms now started = fmul (fsub now started) (Fin 1000)"

definition run_inference :: "('dt, 'w) app \<Rightarrow> inference_request \<Rightarrow> 'dt tenant \<Rightarrow> 'w inference_client \<Rightarrow> 'w
    \<Rightarrow> 'dt reply res \<times> 'w" where
  \<comment> \<open>the counter is also read for the log line, which is not modelled\<close>
  "run_inference app payload tenant client w =
     (case ap_perf_counter app w of (total_started, w1) \<Rightarrow>
      case ap_perf_counter app w1 of (dynamodb_started, w2) \<Rightarrow>
      thenW (prepare_feature_vector (ap_store app) tenant payload w2) (\<lambda>feature_vector w3.
      case ap_perf_counter app w3 of (dynamodb_finished, w4) \<Rightarrow>
      thenW (load_model_artifacts (ap_files app) (ap_storage_dir app) (tn_tenant_id tenant) (ir_model_name payload) w4)
        (\<lambda>(encrypted_model_blob, encrypted_model_key) w5.
      case ap_perf_counter app w5 of (enclave_started, w6) \<Rightarrow>
      thenW (ic_predict client (ir_model_name payload) feature_vector encrypted_model_key (Some encrypted_model_blob)
          (Some (tn_tenant_id tenant)) w6) (\<lambda>enclave_response w7.
      case ap_perf_counter app w7 of (enclave_finished, w8) \<Rightarrow>
      case ap_perf_counter app w8 of (total_finished, w9) \<Rightarrow>
        (Inr (InferenceReply
           \<lparr>in_prediction = pr_prediction enclave_response, in_confidence = pr_confidence enclave_response,
            in_latency_ms = elapsed_ms total_finished total_started,
            in_served_from_cache = pr_served_from_cache enclave_response\<rparr>), w9)))))"

definition list_available_models :: "('dt, 'w) app \<Rightarrow> 'dt tenant \<Rightarrow> 'w inference_client \<Rightarrow> 'w \<Rightarrow> 'dt reply res \<times> 'w" where
  "list_available_models app tenant client w =
     thenW (list_stored_models (ap_files app) (ap_storage_dir app) (tn_tenant_id tenant) w) (\<lambda>stored w1.
     case ic_list_models client w1 of
       (Inl e, w2) \<Rightarrow> (if is_enclave_comm e then Inr (ModelsReply (sort stored) []) else Inl e, w2)
     | (Inr loaded, w2) \<Rightarrow> (Inr (ModelsReply (sort stored) (sort loaded)), w2))"

section \<open>Routing\<close>

datatype api_call =
    Health
  | CreateFeatureSet feature_set_create
  | GetFeatureSet ustr "ustr option"
  | ListFeatureSets "ustr option"
  | DeleteFeatureSet ustr "ustr option"
  | RunInference inference_request
  | ListModels

record http_request =
  ht_call :: api_call
  ht_request_id :: "ustr option"
  ht_tenant_id :: "ustr option"
  ht_api_key :: "ustr option"

definition with_client :: "('dt, 'w) app \<Rightarrow> ('w inference_client \<Rightarrow> 'w \<Rightarrow> 'a res \<times> 'w) \<Rightarrow> 'w \<Rightarrow> 'a res \<times> 'w" where
  \<comment> \<open>\<open>Depends(get_enclave_client)\<close>\<close>
  "with_client app f w = thenW (ap_client app w) f"

definition tenant_endpoint :: "('dt, 'w) app \<Rightarrow> api_call \<Rightarrow> 'dt tenant \<Rightarrow> 'w \<Rightarrow> ('dt reply res \<times> 'w) option" where
  "tenant_endpoint app call tenant w =
     (case call of
        Health \<Rightarrow> Some (health app w)
      | CreateFeatureSet payload \<Rightarrow> Some (create_feature_set app payload tenant w)
      | GetFeatureSet name tenant_id \<Rightarrow> Some (api_get_feature_set app name tenant tenant_id w)
      | ListFeatureSets tenant_id \<Rightarrow> api_list_feature_sets app tenant tenant_id w
      | DeleteFeatureSet name tenant_id \<Rightarrow> Some (api_delete_feature_set app name tenant tenant_id w)
      | RunInference payload \<Rightarrow> Some (with_client app (run_inference app payload tenant) w)
      | ListModels \<Rightarrow> Some (with_client app (list_available_models app tenant) w))"

definition endpoint :: "('dt, 'w) app \<Rightarrow> http_request \<Rightarrow> 'dt scope \<Rightarrow> 'w \<Rightarrow> ('dt reply res \<times> 'w) option" where
  \<comment> \<open>health has no tenant dependency\<close>
  "endpoint app req sc w =
     (if ht_call req = Health then Some (health app w)
      else case get_current_tenant (ap_lib app) (ap_api app) (ht_tenant_id req) (ht_api_key req) sc w of
          (Inl e, sc', w') \<Rightarrow> Some (Inl e, w')
        | (Inr tenant, sc', w') \<Rightarrow> tenant_endpoint app (ht_call req) tenant w')"

definition success_status :: "api_call \<Rightarrow> nat" where
  "success_status call = (case call of CreateFeatureSet _ \<Rightarrow> 201 | DeleteFeatureSet _ _ \<Rightarrow> 204 | _ \<Rightarrow> 200)"

section \<open>The middleware and the exception handlers\<close>

record 'dt http_response =
  hr_status :: nat
  hr_request_id :: "ustr option"
  hr_body :: "error_body + 'dt reply"

text \<open>
  \<open>fresh\<close> is the value of \<open>str(uuid4())\<close>. The handler of application exceptions runs inside of
  the middleware, the one of unexpected exceptions outside: the exception passes through the
  middleware, whose \<open>finally\<close> clears the logging context, and its response gets no header. The
  result includes the logging context that is left.
\<close>

definition error_reply :: "error_response \<Rightarrow> ustr option \<Rightarrow> 'dt http_response" where
  "error_reply er header = \<lparr>hr_status = er_status er, hr_request_id = header, hr_body = Inl (er_body er)\<rparr>"

definition request_context_middleware :: "('dt, 'w) app \<Rightarrow> ustr \<Rightarrow> http_request \<Rightarrow> log_context \<Rightarrow> 'w
    \<Rightarrow> ('dt http_response \<times> log_context \<times> 'w) option" where
  "request_context_middleware app fresh req ctx w =
     (let request_id = (case ht_request_id req of Some r \<Rightarrow> r | None \<Rightarrow> fresh);
          during = set_log_context (Some request_id) (ht_tenant_id req) ctx;
          scope = \<lparr>sp_request_id = Some request_id, sp_tenant = None, sp_tenant_id = None, sp_log = during\<rparr>
      in case endpoint app req scope w of
           None \<Rightarrow> None
         | Some (r, w1) \<Rightarrow>
           (case r of
              Inr reply \<Rightarrow> Some (\<lparr>hr_status = success_status (ht_call req), hr_request_id = Some request_id,
                  hr_body = Inr reply\<rparr>, clear_log_context during, w1)
            | Inl e \<Rightarrow>
              (case ap_clock app w1 of (now, w2) \<Rightarrow>
               let er = handle_exception (Some request_id) (pl_isoformat (ap_lib app) now) (Some e)
               in Some (error_reply er (case e of AppException _ _ \<Rightarrow> Some request_id | _ \<Rightarrow> None),
                        clear_log_context during, w2))))"

section \<open>The application over a logged table\<close>

text \<open>Only the calls of the table are logged; everything else acts on the world beside the log.\<close>

definition unlogged :: "('w \<Rightarrow> 'a \<times> 'w) \<Rightarrow> 'w \<times> 'l list \<Rightarrow> 'a \<times> ('w \<times> 'l list)" where
  "unlogged f wl = (case f (fst wl) of (r, w') \<Rightarrow> (r, (w', snd wl)))"

definition unlogged_files :: "'w files \<Rightarrow> ('w \<times> 'l list) files" where
  "unlogged_files fl =
     \<lparr>fl_resolve = (\<lambda>p. unlogged (fl_resolve fl p)), fl_is_file = (\<lambda>p. unlogged (fl_is_file fl p)),
      fl_is_dir = (\<lambda>p. unlogged (fl_is_dir fl p)), fl_exists = (\<lambda>p. unlogged (fl_exists fl p)),
      fl_iterdir = (\<lambda>p. unlogged (fl_iterdir fl p)), fl_read_bytes = (\<lambda>p. unlogged (fl_read_bytes fl p)),
      fl_write_bytes = (\<lambda>p b. unlogged (fl_write_bytes fl p b)), fl_mkdir = (\<lambda>p. unlogged (fl_mkdir fl p))\<rparr>"

definition unlogged_client :: "'w inference_client \<Rightarrow> ('w \<times> 'l list) inference_client" where
  "unlogged_client ic =
     \<lparr>ic_predict = (\<lambda>n f k b t. unlogged (ic_predict ic n f k b t)), ic_list_models = unlogged (ic_list_models ic)\<rparr>"

definition logged_app :: "('dt, 'w) app \<Rightarrow> ('dt, 'w \<times> access list) app" where
  "logged_app app =
     \<lparr>ap_lib = ap_lib app, ap_api = logged_api (checked_api (ap_api app)), ap_table_name = ap_table_name app,
      ap_version = ap_version app, ap_clock = logged_clock (ap_clock app),
      ap_perf_counter = unlogged (ap_perf_counter app), ap_files = unlogged_files (ap_files app),
      ap_storage_dir = ap_storage_dir app,
      ap_client = (\<lambda>wl. case unlogged (ap_client app) wl of (Inl e, wl') \<Rightarrow> (Inl e, wl')
         | (Inr ic, wl') \<Rightarrow> (Inr (unlogged_client ic), wl'))\<rparr>"

lemma logged_app_sel [simp]:
  "ap_lib (logged_app app) = ap_lib app" "ap_api (logged_app app) = logged_api (checked_api (ap_api app))"
  "ap_perf_counter (logged_app app) = unlogged (ap_perf_counter app)" "ap_files (logged_app app) = unlogged_files (ap_files app)"
  "ap_storage_dir (logged_app app) = ap_storage_dir app" "ap_clock (logged_app app) = logged_clock (ap_clock app)"
  by (simp_all add: logged_app_def)

lemma ap_store_logged: "ap_store (logged_app app) = dynamo_store (ap_lib app) (logged_api (checked_api (ap_api app))) (logged_clock (ap_clock app))"
  by (simp add: ap_store_def)

lemma touches_visits: "touches P = visits P"
  by (intro ext) (simp add: touches_def visits_def)

lemma unlogged_visits [simp]: "visits P w (snd (unlogged f w))"
  by (simp add: unlogged_def visits_def split: prod.split)

lemma unlogged_visits': "unlogged f w = (r, w') \<Longrightarrow> visits P w w'"
  using unlogged_visits [of P w f] by simp

lemma unlogged_root: "model_storage_root (unlogged_files fl) env = unlogged (model_storage_root fl env)"
  by (intro ext) (simp add: model_storage_root_def unlogged_files_def unlogged_def)

lemma unlogged_files_visits [simp]:
  "visits P w (snd (fl_resolve (unlogged_files fl) p w))" "visits P w (snd (fl_is_file (unlogged_files fl) p w))"
  "visits P w (snd (fl_is_dir (unlogged_files fl) p w))" "visits P w (snd (fl_exists (unlogged_files fl) p w))"
  "visits P w (snd (fl_iterdir (unlogged_files fl) p w))" "visits P w (snd (fl_read_bytes (unlogged_files fl) p w))"
  by (simp_all add: unlogged_files_def)

lemma unlogged_both: "visits P w (snd (both_files (unlogged_files fl) dir w))"
  unfolding both_files_def by (intro visits_thenW visits_if visits_done unlogged_files_visits)

lemma unlogged_load: "visits P w (snd (load_model_artifacts (unlogged_files fl) env t m w))"
  unfolding load_model_artifacts_def Let_def model_storage_root_def
  by (intro visits_thenW visits_if visits_done unlogged_files_visits unlogged_both)

lemma unlogged_names: "visits P w (snd (stored_names (unlogged_files fl) dir names w))"
proof (induction names arbitrary: w)
  case (Cons n ns)
  show ?case unfolding stored_names.simps
    by (intro visits_thenW visits_if visits_done unlogged_files_visits unlogged_both Cons.IH)
qed simp

lemma unlogged_list: "visits P w (snd (list_stored_models (unlogged_files fl) env t w))"
  unfolding list_stored_models_def Let_def model_storage_root_def
  by (intro visits_thenW visits_if visits_done unlogged_files_visits unlogged_names)

lemma unlogged_ic [simp]:
  "visits P w (snd (ic_predict (unlogged_client ic) n f k b t w))" "visits P w (snd (ic_list_models (unlogged_client ic) w))"
  by (simp_all add: unlogged_client_def)

section \<open>Isolation\<close>

fun asked_tenant :: "api_call \<Rightarrow> ustr option" where
  \<comment> \<open>the tenant a call names, if it names one\<close>
  "asked_tenant (CreateFeatureSet payload) = Some (fc_tenant_id payload)"
| "asked_tenant (GetFeatureSet _ (Some (c # s))) = Some (c # s)"
| "asked_tenant (ListFeatureSets (Some (c # s))) = Some (c # s)"
| "asked_tenant (DeleteFeatureSet _ (Some (c # s))) = Some (c # s)"
| "asked_tenant (RunInference payload) = Some (ir_tenant_id payload)"
| "asked_tenant _ = None"

definition within_tenant :: "ustr \<Rightarrow> ustr option \<Rightarrow> 'a res \<Rightarrow> 'w \<times> access list \<Rightarrow> 'w \<times> access list \<Rightarrow> bool" where
  \<comment> \<open>accesses are to the tenant's features; a call for another tenant fails without one\<close>
  "within_tenant own asked r w w' \<longleftrightarrow>
     (case asked of
        Some t \<Rightarrow> if t = own then touches (feature_of own) w w' else snd w' = snd w \<and> (\<exists>e. r = Inl e)
      | None \<Rightarrow> touches (feature_of own) w w')"

lemma confined_within:
  "confined tenant requested r w w' \<Longrightarrow> requested = (case asked of Some t \<Rightarrow> t | None \<Rightarrow> tn_tenant_id tenant) \<Longrightarrow>
   (\<And>e. r = Inl e \<Longrightarrow> \<exists>e'. r' = Inl e') \<Longrightarrow> within_tenant (tn_tenant_id tenant) asked r' w w'"
  by (auto simp: confined_def within_tenant_def split: if_splits option.splits)

lemma requested_asked:
  "requested_or_own q own = (case asked_tenant (GetFeatureSet n q) of Some t \<Rightarrow> t | None \<Rightarrow> own)"
  "requested_or_own q own = (case asked_tenant (ListFeatureSets q) of Some t \<Rightarrow> t | None \<Rightarrow> own)"
  "requested_or_own q own = (case asked_tenant (DeleteFeatureSet n q) of Some t \<Rightarrow> t | None \<Rightarrow> own)"
  by (auto simp: requested_or_own_def split: option.split list.split)

lemma visits_step:
  "visits P w (snd x) \<Longrightarrow> (\<And>a w1. x = (a, w1) \<Longrightarrow> visits P w1 (snd (f a w1))) \<Longrightarrow> visits P w (snd (case x of (a, w1) \<Rightarrow> f a w1))"
  by (cases x) (auto intro: visits_trans)

lemma visits_pair: "(\<And>a b. x = (a, b) \<Longrightarrow> visits P w (snd (f a b w))) \<Longrightarrow> visits P w (snd ((case x of (a, b) \<Rightarrow> f a b) w))"
  by (cases x) simp

lemma create_within:
  assumes "create_feature_set (logged_app app) payload tenant w = (r, w')"
  shows "within_tenant (tn_tenant_id tenant) (asked_tenant (CreateFeatureSet payload)) r w w'"
proof -
  obtain r0 where "svc_create_feature_set (ap_store (logged_app app)) tenant payload w = (r0, w')" "\<And>e. r0 = Inl e \<Longrightarrow> r = Inl e"
    using assms by (auto simp: create_feature_set_def split: prod.splits sum.splits)
  note r0 = this
  show ?thesis
    by (rule confined_within [OF dynamo.create_confined [OF r0(1) [unfolded ap_store_logged]]]) (use r0(2) in auto)
qed

lemma get_within:
  assumes "api_get_feature_set (logged_app app) name tenant q w = (r, w')"
  shows "within_tenant (tn_tenant_id tenant) (asked_tenant (GetFeatureSet name q)) r w w'"
proof -
  obtain r0 where "svc_get_feature_set (ap_store (logged_app app)) tenant name q w = (r0, w')" "\<And>e. r0 = Inl e \<Longrightarrow> r = Inl e"
    using assms by (auto simp: api_get_feature_set_def split: prod.splits sum.splits)
  note r0 = this
  show ?thesis
    by (rule confined_within [OF dynamo.get_confined [OF r0(1) [unfolded ap_store_logged]] requested_asked(1)]) (use r0(2) in auto)
qed

lemma list_within:
  assumes "api_list_feature_sets (logged_app app) tenant q w = Some (r, w')"
  shows "within_tenant (tn_tenant_id tenant) (asked_tenant (ListFeatureSets q)) r w w'"
proof -
  obtain r0 where "svc_list_feature_sets (ap_store (logged_app app)) tenant q w = Some (r0, w')" "\<And>e. r0 = Inl e \<Longrightarrow> r = Inl e"
    using assms by (auto simp: api_list_feature_sets_def split: option.splits prod.splits sum.splits)
  note r0 = this
  show ?thesis
    by (rule confined_within [OF dynamo.list_confined [OF r0(1) [unfolded ap_store_logged]] requested_asked(2)]) (use r0(2) in auto)
qed

lemma delete_within:
  assumes "api_delete_feature_set (logged_app app) name tenant q w = (r, w')"
  shows "within_tenant (tn_tenant_id tenant) (asked_tenant (DeleteFeatureSet name q)) r w w'"
proof -
  obtain r0 where "svc_delete_feature_set (ap_store (logged_app app)) tenant name q w = (r0, w')" "\<And>e. r0 = Inl e \<Longrightarrow> r = Inl e"
    using assms by (auto simp: api_delete_feature_set_def split: prod.splits sum.splits)
  note r0 = this
  show ?thesis
    by (rule confined_within [OF dynamo.delete_confined [OF r0(1) [unfolded ap_store_logged]] requested_asked(3)]) (use r0(2) in auto)
qed

lemma vector_visits:
  assumes "ir_tenant_id payload = tn_tenant_id tenant"
  shows "visits (feature_of (tn_tenant_id tenant)) w (snd (prepare_feature_vector (ap_store (logged_app app)) tenant payload w))"
proof -
  obtain r w' where p: "prepare_feature_vector (ap_store (logged_app app)) tenant payload w = (r, w')"
    by (cases "prepare_feature_vector (ap_store (logged_app app)) tenant payload w")
  from dynamo.vector_confined [OF this [unfolded ap_store_logged]] assms show ?thesis
    by (simp add: p confined_def touches_visits)
qed

lemma run_within:
  assumes "run_inference (logged_app app) payload tenant (unlogged_client ic) w = (r, w')"
  shows "within_tenant (tn_tenant_id tenant) (asked_tenant (RunInference payload)) r w w'"
proof (cases "ir_tenant_id payload = tn_tenant_id tenant")
  case True
  have "visits (feature_of (tn_tenant_id tenant)) w (snd (run_inference (logged_app app) payload tenant (unlogged_client ic) w))"
    unfolding run_inference_def logged_app_sel
    by (intro visits_step visits_thenW visits_pair vector_visits [OF True] unlogged_visits unlogged_load unlogged_ic visits_done)
  with assms True show ?thesis by (simp add: within_tenant_def touches_visits)
next
  case False
  obtain a w1 where p1: "unlogged (ap_perf_counter app) w = (a, w1)" by (cases "unlogged (ap_perf_counter app) w")
  obtain b w2 where p2: "unlogged (ap_perf_counter app) w1 = (b, w2)" by (cases "unlogged (ap_perf_counter app) w1")
  have "r = Inl forbidden" "w' = w2"
    using assms False p1 p2 by (auto simp: run_inference_def prepare_feature_vector_def ensure_tenant_access_def)
  moreover have "snd w2 = snd w" using p1 p2 by (auto simp: unlogged_def split: prod.splits)
  ultimately show ?thesis using False by (simp add: within_tenant_def)
qed

lemma models_within:
  assumes "list_available_models (logged_app app) tenant (unlogged_client ic) w = (r, w')"
  shows "within_tenant (tn_tenant_id tenant) (asked_tenant ListModels) r w w'"
proof -
  have ic: "visits P w (snd (case ic_list_models (unlogged_client ic) w of
       (Inl e, w2) \<Rightarrow> (f e, w2) | (Inr loaded, w2) \<Rightarrow> (g loaded, w2)))" for P w f g
    using unlogged_ic(2) [of P w ic]
    by (cases "ic_list_models (unlogged_client ic) w"; cases "fst (ic_list_models (unlogged_client ic) w)") auto
  have "visits (feature_of (tn_tenant_id tenant)) w (snd (list_available_models (logged_app app) tenant (unlogged_client ic) w))"
    unfolding list_available_models_def logged_app_sel
    by (intro visits_thenW unlogged_list ic)
  with assms show ?thesis by (simp add: within_tenant_def touches_visits)
qed

lemma client_within:
  assumes "with_client (logged_app app) f w = (r, w')"
    and "\<And>ic w1. f (unlogged_client ic) w1 = (r, w') \<Longrightarrow> within_tenant own asked r w1 w'"
  shows "within_tenant own asked r w w'"
proof -
  obtain rc w1 where c: "unlogged (ap_client app) w = (rc, w1)" by (cases "unlogged (ap_client app) w")
  have same: "snd w1 = snd w" using c by (auto simp: unlogged_def split: prod.splits)
  show ?thesis
  proof (cases rc)
    case (Inl e)
    with assms(1) c same show ?thesis
      by (auto simp: with_client_def logged_app_def within_tenant_def touches_def split: option.split)
  next
    case (Inr ic)
    with assms(1) c have "f (unlogged_client ic) w1 = (r, w')" by (simp add: with_client_def logged_app_def)
    from assms(2) [OF this] same show ?thesis by (auto simp: within_tenant_def touches_def split: option.splits if_splits)
  qed
qed

lemma tenant_endpoint_within:
  assumes "tenant_endpoint (logged_app app) call tenant w = Some (r, w')" and "call \<noteq> Health"
  shows "within_tenant (tn_tenant_id tenant) (asked_tenant call) r w w'"
proof (cases call)
  case (CreateFeatureSet payload)
  with assms create_within [of app payload tenant w r w'] show ?thesis by (simp add: tenant_endpoint_def)
next
  case (GetFeatureSet n q)
  with assms get_within [of app n tenant q w r w'] show ?thesis by (simp add: tenant_endpoint_def)
next
  case (ListFeatureSets q)
  with assms list_within [of app tenant q w r w'] show ?thesis by (simp add: tenant_endpoint_def)
next
  case (DeleteFeatureSet n q)
  with assms delete_within [of app n tenant q w r w'] show ?thesis by (simp add: tenant_endpoint_def)
next
  case (RunInference payload)
  with assms(1) have "with_client (logged_app app) (run_inference (logged_app app) payload tenant) w = (r, w')"
    by (simp add: tenant_endpoint_def)
  from client_within [OF this run_within] RunInference show ?thesis by simp
next
  case ListModels
  with assms(1) have "with_client (logged_app app) (list_available_models (logged_app app) tenant) w = (r, w')"
    by (simp add: tenant_endpoint_def)
  from client_within [OF this models_within] ListModels show ?thesis by simp
qed (use assms(2) in simp)

section \<open>Authentication in front of the handlers\<close>

definition keyed :: "(item_key \<Rightarrow> item option) \<Rightarrow> bool" where
  \<comment> \<open>items carry their own key, as DynamoDB makes sure\<close>
  "keyed t \<longleftrightarrow> (\<forall>k item. t k = Some item \<longrightarrow> item_key_of item = Some k)"

lemma api_logged_get: "dy_get_item (logged_api (checked_api api)) key wl =
    (case dy_get_item api key (fst wl) of (r, w') \<Rightarrow> (r, (w', snd wl @ [Access (fst key) (snd key)])))"
  by (simp add: logged_api_def checked_api_def log_call_def)

lemma reads_ok_logged: "reads_ok api tbl \<Longrightarrow> reads_ok (logged_api (checked_api api)) (tbl \<circ> fst)"
  unfolding reads_ok_def api_logged_get comp_def by (clarsimp split: prod.splits)

lemma credentials_tenant:
  assumes "lib_ok lib" and "keyed t" and "credentials lib t hid hkey tenant"
  shows "tn_tenant_id tenant = header_text hid"
proof -
  from assms(3) obtain item where item: "t (header_text hid, tenant_resource_id (header_text hid)) = Some item"
    "item_to_tenant lib item = Inr tenant" by (auto simp: credentials_def)
  with assms(2) have "item_key_of item = Some (header_text hid, tenant_resource_id (header_text hid))"
    unfolding keyed_def by blast
  then have "item_at item ''tenant_id'' = Inr (AStr (header_text hid))"
    by (auto simp: item_key_of_def item_at_def split: option.splits attr.splits)
  with item(2) assms(1) show ?thesis by (auto simp: item_to_tenant_def res_simps str_of_def lib_ok_def)
qed

lemma auth_accesses:
  assumes "get_current_tenant lib (logged_api api) hid hkey sc (w, []) = (r, sc', (w', l))"
  shows "l = [] \<or> l = [Access (header_text hid) (tenant_resource_id (header_text hid))]"
    and "r = Inr tenant \<Longrightarrow> l = [Access (header_text hid) (tenant_resource_id (header_text hid))]"
  using authentication_result [OF assms] tenant_record_touches [of lib api "header_text hid" "(w, [])"]
  by (fastforce split: sum.splits)+

definition refused :: "exn \<Rightarrow> bool" where
  "refused e \<longleftrightarrow> (case e of AppException k _ \<Rightarrow> status_code k \<in> {401, 500} | _ \<Rightarrow> True)"

lemma authentication_errors:
  assumes "lib_ok lib" and "reads_ok api tbl" and "get_current_tenant lib api hid hkey sc w = (Inl e, sc', w')"
  shows "refused e"
proof -
  have "store_failure e' \<Longrightarrow> refused e'" for e' by (cases e') (auto simp: refused_def)
  moreover have "refused (unauthorized m)" for m by (simp add: refused_def unauthorized_def)
  moreover have "refused TypeError" by (simp add: refused_def)
  ultimately show ?thesis
    using authentication_result [OF assms(3)] tenant_record_cases(2) [OF assms(1,2)]
    by (fastforce split: sum.splits if_splits)
qed

text \<open>What a request does, seen from outside: the endpoint's result and the response built from it.\<close>

lemma middleware_result:
  assumes "request_context_middleware app fresh req ctx w = Some (resp, ctx', w')"
  obtains r w1 sc where "endpoint app req sc w = Some (r, w1)" "ctx' = no_context"
    and "case r of
        Inr reply \<Rightarrow> w' = w1 \<and> resp = \<lparr>hr_status = success_status (ht_call req),
          hr_request_id = Some (case ht_request_id req of Some i \<Rightarrow> i | None \<Rightarrow> fresh), hr_body = Inr reply\<rparr>
      | Inl e \<Rightarrow> \<exists>now. ap_clock app w1 = (now, w')
          \<and> hr_request_id resp = (case e of AppException _ _ \<Rightarrow> Some (case ht_request_id req of Some i \<Rightarrow> i | None \<Rightarrow> fresh) | _ \<Rightarrow> None)
          \<and> (let er = handle_exception (Some (case ht_request_id req of Some i \<Rightarrow> i | None \<Rightarrow> fresh)) (pl_isoformat (ap_lib app) now) (Some e)
             in hr_status resp = er_status er \<and> hr_body resp = Inl (er_body er))"
proof -
  let ?rid = "case ht_request_id req of Some i \<Rightarrow> i | None \<Rightarrow> fresh"
  let ?sc = "\<lparr>sp_request_id = Some ?rid, sp_tenant = None, sp_tenant_id = None,
      sp_log = set_log_context (Some ?rid) (ht_tenant_id req) ctx\<rparr>"
  from assms obtain r w1 where e: "endpoint app req ?sc w = Some (r, w1)"
    by (auto simp: request_context_middleware_def Let_def split: option.splits)
  show thesis
  proof (cases r)
    case (Inl x)
    obtain now w2 where c: "ap_clock app w1 = (now, w2)" by (cases "ap_clock app w1")
    with assms e Inl show thesis
      by (intro that [OF e]) (auto simp: request_context_middleware_def Let_def error_reply_def)
  next
    case (Inr x)
    with assms e show thesis by (intro that [OF e]) (auto simp: request_context_middleware_def Let_def)
  qed
qed

lemma clock_log: "logged_clock clock w = (now, w') \<Longrightarrow> snd w' = snd w"
  by (auto simp: logged_clock_def split: prod.splits)

lemma refused_status: "refused e \<Longrightarrow> er_status (handle_exception rid now (Some e)) \<in> {401, 500}"
  by (cases e) (auto simp: refused_def)

lemma health_log: "health (logged_app app) w = (r, w') \<Longrightarrow> snd w' = snd w"
  by (auto simp: health_def check_connectivity_def logged_api_def log_call_def checked_api_def
      split: prod.splits sum.splits)

lemma endpoint_accesses:
  assumes "lib_ok (ap_lib app)" and "reads_ok (ap_api app) tbl" and "keyed (tbl w)" and "ht_call req \<noteq> Health"
    and "endpoint (logged_app app) req sc (w, []) = Some (r, (w', l))"
  shows "(l = [] \<or> l = [Access (header_text (ht_tenant_id req)) (tenant_resource_id (header_text (ht_tenant_id req)))])
      \<and> (\<exists>e. r = Inl e \<and> refused e)
    \<or> (\<exists>tenant rest. credentials (ap_lib app) (tbl w) (ht_tenant_id req) (ht_api_key req) tenant
        \<and> tn_tenant_id tenant = header_text (ht_tenant_id req)
        \<and> l = Access (header_text (ht_tenant_id req)) (tenant_resource_id (header_text (ht_tenant_id req))) # rest
        \<and> within_tenant (tn_tenant_id tenant) (asked_tenant (ht_call req)) r (w, []) (w', rest))"
proof -
  let ?t = "header_text (ht_tenant_id req)"
  obtain ra sc1 w1 l1 where a: "get_current_tenant (ap_lib app) (logged_api (checked_api (ap_api app)))
      (ht_tenant_id req) (ht_api_key req) sc (w, []) = (ra, sc1, (w1, l1))" by (metis surj_pair)
  note acc = auth_accesses [OF a]
  show ?thesis
  proof (cases ra)
    case (Inl e)
    with assms(4,5) a have "r = Inl e" "l = l1" by (auto simp: endpoint_def)
    moreover from a Inl have "refused e"
      using authentication_errors [OF assms(1) reads_ok_logged [OF assms(2)]] by blast
    ultimately show ?thesis using acc(1) by blast
  next
    case (Inr tenant)
    from authentication_passed [OF assms(1) reads_ok_logged [OF assms(2)] a [unfolded Inr]]
    have cred: "credentials (ap_lib app) (tbl w) (ht_tenant_id req) (ht_api_key req) tenant" by simp
    have own: "tn_tenant_id tenant = ?t" by (rule credentials_tenant [OF assms(1,3) cred])
    have l1: "l1 = [Access ?t (tenant_resource_id ?t)]" by (rule acc(2) [OF Inr])
    from assms(4,5) a Inr have "tenant_endpoint (logged_app app) (ht_call req) tenant (w1, l1) = Some (r, (w', l))"
      by (simp add: endpoint_def)
    from tenant_endpoint_within [OF this assms(4)]
    have "\<exists>rest. l = l1 @ rest \<and> within_tenant (tn_tenant_id tenant) (asked_tenant (ht_call req)) r (w, []) (w', rest)"
      by (auto simp: within_tenant_def touches_def split: option.splits if_splits)
    with cred own l1 show ?thesis by auto
  qed
qed

lemma endpoint_isolated:
  assumes "lib_ok (ap_lib app)" and "reads_ok (ap_api app) tbl" and "keyed (tbl w)" and "ht_call req \<noteq> Health"
    and "endpoint (logged_app app) req sc (w, []) = Some (r, (w', l))"
  shows "list_all (\<lambda>a. access_tenant a = Some (header_text (ht_tenant_id req))) l"
    and "(\<exists>tenant. credentials (ap_lib app) (tbl w) (ht_tenant_id req) (ht_api_key req) tenant)
      \<or> list_all (\<lambda>a. \<not> access_feature a) l \<and> (\<exists>x. r = Inl x \<and> refused x)"
    and "case asked_tenant (ht_call req) of
        Some t \<Rightarrow> t = header_text (ht_tenant_id req) \<or> list_all (\<lambda>a. \<not> access_feature a) l \<and> (\<exists>x. r = Inl x) | None \<Rightarrow> True"
proof -
  let ?t = "header_text (ht_tenant_id req)"
  have key: "\<not> access_feature (Access ?t (tenant_resource_id ?t))"
    by (simp add: tenant_resource_id_def TENANT_PREFIX_def FEATURE_PREFIX_def U_def)
  from endpoint_accesses [OF assms] consider
      (denied) "l = [] \<or> l = [Access ?t (tenant_resource_id ?t)]" "\<exists>x. r = Inl x \<and> refused x"
    | (passed) tenant rest where "credentials (ap_lib app) (tbl w) (ht_tenant_id req) (ht_api_key req) tenant"
        "tn_tenant_id tenant = ?t" "l = Access ?t (tenant_resource_id ?t) # rest"
        "within_tenant (tn_tenant_id tenant) (asked_tenant (ht_call req)) r (w, []) (w', rest)"
    by blast
  then have "list_all (\<lambda>a. access_tenant a = Some ?t) l
    \<and> ((\<exists>tenant. credentials (ap_lib app) (tbl w) (ht_tenant_id req) (ht_api_key req) tenant)
      \<or> list_all (\<lambda>a. \<not> access_feature a) l \<and> (\<exists>x. r = Inl x \<and> refused x))
    \<and> (case asked_tenant (ht_call req) of
        Some t \<Rightarrow> t = ?t \<or> list_all (\<lambda>a. \<not> access_feature a) l \<and> (\<exists>x. r = Inl x) | None \<Rightarrow> True)"
  proof cases
    case denied
    then show ?thesis using key by (auto simp: list_all_iff split: option.split)
  next
    case (passed tenant rest)
    then have "list_all (feature_of ?t) rest" by (auto simp: within_tenant_def touches_def split: option.splits if_splits)
    then show ?thesis
      using passed key by (auto simp: within_tenant_def list_all_iff feature_of_def split: option.splits if_splits)
  qed
  then show "list_all (\<lambda>a. access_tenant a = Some ?t) l"
    and "(\<exists>tenant. credentials (ap_lib app) (tbl w) (ht_tenant_id req) (ht_api_key req) tenant)
      \<or> list_all (\<lambda>a. \<not> access_feature a) l \<and> (\<exists>x. r = Inl x \<and> refused x)"
    and "case asked_tenant (ht_call req) of
        Some t \<Rightarrow> t = ?t \<or> list_all (\<lambda>a. \<not> access_feature a) l \<and> (\<exists>x. r = Inl x) | None \<Rightarrow> True"
    by blast+
qed

section \<open>Properties\<close>

text \<open>C1. Tenant isolation, end to end. Whatever a request calls, every access to the table is
  to the partition of the tenant in its header. Without credentials that the table bears out no
  feature set is touched and the response is an error 401 or 500; a call that names another
  tenant gets an error and touches no feature set either. The health check reads no item.\<close>

theorem tenant_isolation:
  assumes "lib_ok (ap_lib app)" and "reads_ok (ap_api app) tbl" and "keyed (tbl w)"
    and "request_context_middleware (logged_app app) fresh req ctx (w, []) = Some (resp, ctx', (w', accesses))"
  shows "if ht_call req = Health then accesses = []
    else list_all (\<lambda>a. access_tenant a = Some (header_text (ht_tenant_id req))) accesses
      \<and> ((\<exists>tenant. credentials (ap_lib app) (tbl w) (ht_tenant_id req) (ht_api_key req) tenant)
         \<or> list_all (\<lambda>a. \<not> access_feature a) accesses \<and> hr_status resp \<in> {401, 500} \<and> (\<exists>b. hr_body resp = Inl b))
      \<and> (case asked_tenant (ht_call req) of
           Some t \<Rightarrow> t = header_text (ht_tenant_id req)
             \<or> list_all (\<lambda>a. \<not> access_feature a) accesses \<and> (\<exists>b. hr_body resp = Inl b)
         | None \<Rightarrow> True)"
proof -
  let ?t = "header_text (ht_tenant_id req)"
  from assms(4) obtain r w1 sc where e: "endpoint (logged_app app) req sc (w, []) = Some (r, w1)"
    and resp: "case r of
        Inr reply \<Rightarrow> (w', accesses) = w1 \<and> resp = \<lparr>hr_status = success_status (ht_call req),
          hr_request_id = Some (case ht_request_id req of Some i \<Rightarrow> i | None \<Rightarrow> fresh), hr_body = Inr reply\<rparr>
      | Inl e \<Rightarrow> \<exists>now. ap_clock (logged_app app) w1 = (now, (w', accesses))
          \<and> hr_request_id resp = (case e of AppException _ _ \<Rightarrow> Some (case ht_request_id req of Some i \<Rightarrow> i | None \<Rightarrow> fresh) | _ \<Rightarrow> None)
          \<and> (let er = handle_exception (Some (case ht_request_id req of Some i \<Rightarrow> i | None \<Rightarrow> fresh)) (pl_isoformat (ap_lib (logged_app app)) now) (Some e)
             in hr_status resp = er_status er \<and> hr_body resp = Inl (er_body er))"
    by (rule middleware_result)
  have log: "snd w1 = accesses"
    using resp clock_log [of "ap_clock app" w1] by (cases r) auto
  have err: "\<exists>b. hr_body resp = Inl b" if "r = Inl x" for x using resp that by (auto simp: Let_def)
  have st: "hr_status resp \<in> {401, 500}" if r: "r = Inl x" and x: "refused x" for x
  proof -
    obtain rid now where "hr_status resp = er_status (handle_exception rid now (Some x))"
      using resp r by (auto simp: Let_def)
    then show ?thesis using refused_status [OF x] by simp
  qed
  show ?thesis
  proof (cases "ht_call req = Health")
    case True
    with e have "health (logged_app app) (w, []) = (r, w1)" by (simp add: endpoint_def)
    from health_log [OF this] log True show ?thesis by simp
  next
    case False
    have "endpoint (logged_app app) req sc (w, []) = Some (r, (fst w1, accesses))" using e log by (cases w1) simp
    note isolated = endpoint_isolated [OF assms(1-3) False this]
    then show ?thesis using False err st by (auto split: option.splits)
  qed
qed

definition no_files :: "'w files" where
  "no_files =
     \<lparr>fl_resolve = (\<lambda>p w. (Inr p, w)), fl_is_file = (\<lambda>p w. (Inr False, w)), fl_is_dir = (\<lambda>p w. (Inr False, w)),
      fl_exists = (\<lambda>p w. (Inr False, w)), fl_iterdir = (\<lambda>p w. (Inl OSError, w)),
      fl_read_bytes = (\<lambda>p w. (Inl OSError, w)), fl_write_bytes = (\<lambda>p b w. (Inl OSError, w)), fl_mkdir = (\<lambda>p w. (Inl OSError, w))\<rparr>"

definition sample_app :: "(nat, (item_key, item) odict) app" where
  \<comment> \<open>an application without models, for the witnesses\<close>
  "sample_app =
     \<lparr>ap_lib = mem_lib, ap_api = mem_api, ap_table_name = U ''table'', ap_version = U ''1'', ap_clock = mem_clock,
      ap_perf_counter = (\<lambda>w. (Fin 0, w)), ap_files = no_files, ap_storage_dir = None,
      ap_client = (\<lambda>w. (Inl (ValueError []), w))\<rparr>"

definition foreign_request :: http_request where
  \<comment> \<open>tenant \<open>t\<close> asks for a feature set of tenant \<open>x\<close>\<close>
  "foreign_request =
     \<lparr>ht_call = GetFeatureSet (U ''f'') (Some (U ''x'')), ht_request_id = None, ht_tenant_id = Some (U ''t''),
      ht_api_key = Some (U ''k'')\<rparr>"

theorem tenant_isolation_witness:
  "\<exists>resp ctx' w' accesses. request_context_middleware (logged_app sample_app) (U ''id'') foreign_request no_context (tenant_table, [])
      = Some (resp, ctx', (w', accesses))
    \<and> list_all (\<lambda>a. access_tenant a = Some (U ''t'')) accesses \<and> list_all (\<lambda>a. \<not> access_feature a) accesses
    \<and> (\<exists>b. hr_body resp = Inl b)"
proof -
  have lib: "lib_ok (ap_lib sample_app)" and reads: "reads_ok (ap_api sample_app) od_get"
    by (simp_all add: sample_app_def mem_lib_ok mem_reads_ok)
  have keys: "keyed (od_get tenant_table)"
    by (auto simp: keyed_def tenant_table_def item_key_of_def od_get_def split: if_splits)
  have "endpoint app foreign_request sc w \<noteq> None" for app :: "(nat, (item_key, item) odict \<times> access list) app" and sc w
    by (auto simp: endpoint_def foreign_request_def tenant_endpoint_def split: prod.splits sum.splits) (metis surj_pair)
  then obtain resp ctx' w' accesses where m: "request_context_middleware (logged_app sample_app) (U ''id'') foreign_request no_context (tenant_table, [])
      = Some (resp, ctx', (w', accesses))"
    by (force simp: request_context_middleware_def Let_def split: prod.splits option.splits sum.splits)
  have h: "header_text (ht_tenant_id foreign_request) = U ''t''" "ht_call foreign_request \<noteq> Health"
    "asked_tenant (ht_call foreign_request) = Some (U ''x'')"
    by (simp_all add: foreign_request_def header_text_def strip_def U_def py_space_def)
  from tenant_isolation [OF lib reads keys m] show ?thesis
    unfolding h if_not_P [OF h(2)] by (simp add: m)
qed



end
