(* ===== verification/Config.thy ===== *)
theory Config
  imports Logging
begin

text \<open>
  \<open>feature_store/config.py\<close>: the settings and their validators. pydantic reads the values from the
  environment and converts the integers and the flag; the field validators run on the results,
  the cross-field validator when none of them has failed.
\<close>

section \<open>Patterns\<close>

definition small_letter :: "nat \<Rightarrow> bool" where
  "small_letter c \<longleftrightarrow> 97 \<le> c \<and> c \<le> 122"

definition capital_letter :: "nat \<Rightarrow> bool" where
  "capital_letter c \<longleftrightarrow> 65 \<le> c \<and> c \<le> 90"

text \<open>\<open>\d\<close> in a \<open>str\<close> pattern: the decimal digits of Unicode 14, by the zeros they count from.\<close>

definition digit_zeros :: "nat list" where
  "digit_zeros = [48, 1632, 1776, 1984, 2406, 2534, 2662, 2790, 2918, 3046, 3174, 3302, 3430, 3558, 3664, 3792, 3872,
     4160, 4240, 6112, 6160, 6470, 6608, 6784, 6800, 6992, 7088, 7232, 7248, 42528, 43216, 43264, 43472, 43504, 43600,
     44016, 65296, 66720, 68912, 69734, 69872, 69942, 70096, 70384, 70736, 70864, 71248, 71360, 71472, 71904, 72016,
     72784, 73040, 73120, 92768, 92864, 93008, 120782, 120792, 120802, 120812, 120822, 123200, 123632, 125264, 130032]"

definition re_digit :: "nat \<Rightarrow> bool" where
  "re_digit c \<longleftrightarrow> list_ex (\<lambda>z. z \<le> c \<and> c < z + 10) digit_zeros"

definition region_middle :: "nat \<Rightarrow> bool" where
  "region_middle c \<longleftrightarrow> small_letter c \<or> digit c \<or> c = 45"

definition aws_region_pattern :: "ustr \<Rightarrow> bool" where
  \<comment> \<open>\<open>^[a-z]{2}-[a-z0-9-]+-\d+$\<close> on a text that does not end in a newline\<close>
  "aws_region_pattern s =
     (case s of
        a # b # c # rest \<Rightarrow>
          small_letter a \<and> small_letter b \<and> c = 45
          \<and> list_ex (\<lambda>k. 0 < k \<and> rest ! k = 45 \<and> list_all region_middle (take k rest)
               \<and> drop (Suc k) rest \<noteq> [] \<and> list_all re_digit (drop (Suc k) rest)) [0 ..< length rest]
      | _ \<Rightarrow> False)"

definition ddb_table_pattern :: "ustr \<Rightarrow> bool" where
  \<comment> \<open>\<open>^[A-Za-z0-9_.-]{3,255}$\<close>\<close>
  "ddb_table_pattern s \<longleftrightarrow> 3 \<le> length s \<and> length s \<le> 255
     \<and> list_all (\<lambda>c. capital_letter c \<or> small_letter c \<or> digit c \<or> c = 95 \<or> c = 46 \<or> c = 45) s"

definition LOG_LEVELS :: "ustr list" where
  "LOG_LEVELS = map U [''DEBUG'', ''INFO'', ''WARNING'', ''ERROR'', ''CRITICAL'']"

section \<open>urlparse\<close>

definition scheme_char :: "nat \<Rightarrow> bool" where
  "scheme_char c \<longleftrightarrow> small_letter c \<or> capital_letter c \<or> digit c \<or> c = 43 \<or> c = 45 \<or> c = 46"

definition url_scheme :: "ustr \<Rightarrow> ustr \<times> ustr" where
  \<comment> \<open>the scheme in lower case and the rest of the URL\<close>
  "url_scheme url =
     (let before = takeWhile (\<lambda>c. c \<noteq> 58) url
      in if length before < length url \<and> before \<noteq> [] \<and> (small_letter (hd before) \<or> capital_letter (hd before))
            \<and> list_all scheme_char before
         then (map (\<lambda>c. if capital_letter c then c + 32 else c) before, drop (Suc (length before)) url)
         else ([], url))"

definition url_netloc :: "ustr \<Rightarrow> ustr" where
  "url_netloc rest = (if take 2 rest = [47, 47] then takeWhile (\<lambda>c. c \<noteq> 47 \<and> c \<noteq> 63 \<and> c \<noteq> 35) (drop 2 rest) else [])"

definition url_parts :: "(ustr \<Rightarrow> bool) \<Rightarrow> ustr \<Rightarrow> (ustr \<times> ustr) res" where
  \<comment> \<open>scheme and netloc; the first argument is the library's check of a bracketed address and of the
     normal form of a netloc that is not ASCII\<close>
  "url_parts netloc_check value =
     (let url = filter (\<lambda>c. c \<noteq> 9 \<and> c \<noteq> 10 \<and> c \<noteq> 13) (dropWhile (\<lambda>c. c \<le> 32) value);
          (scheme, rest) = url_scheme url;
          netloc = url_netloc rest
      in if (91 \<in> set netloc) \<noteq> (93 \<in> set netloc) then Inl (ValueError (U ''Invalid IPv6 URL''))
         else if (91 \<in> set netloc \<or> \<not> ascii netloc) \<and> \<not> netloc_check netloc then Inl (ValueError (U ''Invalid netloc''))
         else Inr (scheme, netloc))"

section \<open>Validators\<close>

definition validate_aws_region :: "ustr \<Rightarrow> ustr res" where
  "validate_aws_region value =
     (let normalized = strip value
      in if normalized = [] then Inl (ValueError (U ''AWS_REGION must not be empty.''))
         else if \<not> aws_region_pattern normalized
         then Inl (ValueError (U ''AWS_REGION must look like '' @ [39] @ U ''us-east-1'' @ [39] @ U ''.''))
         else Inr normalized)"

definition validate_table_name :: "ustr \<Rightarrow> ustr res" where
  "validate_table_name value =
     (let normalized = strip value
      in if \<not> ddb_table_pattern normalized
         then Inl (ValueError (U ''DYNAMODB_TABLE_NAME must be 3-255 characters and contain only letters, numbers, underscores, hyphens, or periods.''))
         else Inr normalized)"

datatype endpoint_value = NoEndpoint | EndpointStr ustr | EndpointOther ustr

definition normalize_dynamodb_endpoint :: "endpoint_value \<Rightarrow> ustr option" where
  \<comment> \<open>the last kind of value is given by its \<open>str\<close>\<close>
  "normalize_dynamodb_endpoint value =
     (case value of
        NoEndpoint \<Rightarrow> None
      | EndpointStr s \<Rightarrow> (let normalized = strip s in if normalized = [] then None else Some normalized)
      | EndpointOther s \<Rightarrow> Some s)"

definition validate_dynamodb_endpoint :: "(ustr \<Rightarrow> bool) \<Rightarrow> ustr option \<Rightarrow> ustr option res" where
  "validate_dynamodb_endpoint netloc_check value =
     (case value of
        None \<Rightarrow> Inr None
      | Some url \<Rightarrow>
        bindR (url_parts netloc_check url) (\<lambda>(scheme, netloc).
          if (scheme \<noteq> U ''http'' \<and> scheme \<noteq> U ''https'') \<or> netloc = []
          then Inl (ValueError (U ''DYNAMODB_ENDPOINT must be a valid http(s) URL.''))
          else Inr (Some url)))"

definition validate_kms_key_id :: "ustr \<Rightarrow> ustr res" where
  "validate_kms_key_id value =
     (let normalized = strip value
      in if normalized = [] then Inl (ValueError (U ''KMS_KEY_ID must not be empty.'')) else Inr normalized)"

definition validate_enclave_cid :: "int \<Rightarrow> int res" where
  "validate_enclave_cid value =
     (if value \<le> 2 then Inl (ValueError (U ''ENCLAVE_CID must be greater than 2.'')) else Inr value)"

definition validate_enclave_port :: "int \<Rightarrow> int res" where
  "validate_enclave_port value =
     (if \<not> (1 \<le> value \<and> value \<le> 65535) then Inl (ValueError (U ''ENCLAVE_PORT must be between 1 and 65535.''))
      else Inr value)"

definition validate_log_level :: "ustr \<Rightarrow> ustr res" where
  "validate_log_level value =
     (let normalized = upper_str (strip value)
      in if normalized \<notin> set LOG_LEVELS
         then Inl (ValueError (U ''LOG_LEVEL must be one of: CRITICAL, DEBUG, ERROR, INFO, WARNING.''))
         else Inr normalized)"

section \<open>Settings\<close>

record settings =
  se_aws_region :: ustr
  se_dynamodb_table_name :: ustr
  se_dynamodb_endpoint :: "ustr option"
  se_kms_key_id :: ustr
  se_enclave_cid :: int
  se_enclave_port :: int
  se_log_level :: ustr
  se_use_mock_enclave :: bool

definition default_settings :: settings where
  "default_settings =
     \<lparr>se_aws_region = U ''us-east-1'', se_dynamodb_table_name = U ''confidential-ml-feature-store'',
      se_dynamodb_endpoint = None,
      se_kms_key_id = U ''arn:aws:kms:us-east-1:749382610573:key/mrk-f3c9e2b741d865a0f4821c3d096e57b8'',
      se_enclave_cid = 16, se_enclave_port = 5005, se_log_level = U ''INFO'', se_use_mock_enclave = False\<rparr>"

definition starts_with :: "ustr \<Rightarrow> ustr \<Rightarrow> bool" where
  "starts_with s p \<longleftrightarrow> take (length p) s = p"

definition validate_local_endpoint_compatibility :: "settings \<Rightarrow> settings res" where
  "validate_local_endpoint_compatibility s =
     (case se_dynamodb_endpoint s of
        Some (c # url) \<Rightarrow>
          if starts_with (c # url) (U ''https://localhost'')
          then Inl (ValueError (U ''DYNAMODB_ENDPOINT should usually use http:// for local development.''))
          else Inr s
      | _ \<Rightarrow> Inr s)"

fun failure :: "'a res \<Rightarrow> exn list" where
  "failure (Inl e) = [e]"
| "failure (Inr _) = []"

definition validate_settings :: "(ustr \<Rightarrow> bool) \<Rightarrow> endpoint_value \<Rightarrow> settings \<Rightarrow> exn list + settings" where
  \<comment> \<open>the given values, the raw endpoint apart; pydantic reports the failures of all fields\<close>
  "validate_settings netloc_check endpoint raw =
     (let region = validate_aws_region (se_aws_region raw);
          table = validate_table_name (se_dynamodb_table_name raw);
          url = validate_dynamodb_endpoint netloc_check (normalize_dynamodb_endpoint endpoint);
          key = validate_kms_key_id (se_kms_key_id raw);
          cid = validate_enclave_cid (se_enclave_cid raw);
          port = validate_enclave_port (se_enclave_port raw);
          level = validate_log_level (se_log_level raw)
      in case (region, table, url, key, cid, port, level) of
           (Inr r, Inr t, Inr u, Inr k, Inr c, Inr p, Inr l) \<Rightarrow>
             (case validate_local_endpoint_compatibility
                 (raw\<lparr>se_aws_region := r, se_dynamodb_table_name := t, se_dynamodb_endpoint := u, se_kms_key_id := k,
                      se_enclave_cid := c, se_enclave_port := p, se_log_level := l\<rparr>) of
                Inl e \<Rightarrow> Inl [e] | Inr s \<Rightarrow> Inr s)
         | _ \<Rightarrow> Inl (failure region @ failure table @ failure url @ failure key @ failure cid @ failure port @ failure level))"

definition get_settings :: "(ustr \<Rightarrow> bool) \<Rightarrow> endpoint_value \<Rightarrow> settings \<Rightarrow> settings option
    \<Rightarrow> (exn list + settings) \<times> settings option" where
  \<comment> \<open>\<open>lru_cache\<close>: the first settings are kept, a failure is not\<close>
  "get_settings netloc_check endpoint raw cached =
     (case cached of
        Some s \<Rightarrow> (Inr s, cached)
      | None \<Rightarrow>
        (case validate_settings netloc_check endpoint raw of
           Inl es \<Rightarrow> (Inl es, None) | Inr s \<Rightarrow> (Inr s, Some s)))"

section \<open>Lemmas\<close>

lemma validators_Inr:
  "validate_aws_region v = Inr r \<longleftrightarrow> r = strip v \<and> r \<noteq> [] \<and> aws_region_pattern r"
  "validate_table_name v = Inr t \<longleftrightarrow> t = strip v \<and> ddb_table_pattern t"
  "validate_kms_key_id v = Inr k \<longleftrightarrow> k = strip v \<and> k \<noteq> []"
  "validate_enclave_cid i = Inr c \<longleftrightarrow> c = i \<and> 2 < i"
  "validate_enclave_port i = Inr p \<longleftrightarrow> p = i \<and> 1 \<le> i \<and> i \<le> 65535"
  "validate_log_level v = Inr l \<longleftrightarrow> l = upper_str (strip v) \<and> l \<in> set LOG_LEVELS"
  "validate_dynamodb_endpoint netloc_check e = Inr u \<longleftrightarrow> u = e \<and> (case e of None \<Rightarrow> True | Some url \<Rightarrow>
     \<exists>scheme netloc. url_parts netloc_check url = Inr (scheme, netloc) \<and> (scheme = U ''http'' \<or> scheme = U ''https'') \<and> netloc \<noteq> [])"
  "validate_local_endpoint_compatibility s = Inr s' \<longleftrightarrow> s' = s \<and> (case se_dynamodb_endpoint s of
     Some (c # url) \<Rightarrow> \<not> starts_with (c # url) (U ''https://localhost'') | _ \<Rightarrow> True)"
  by (auto simp: validate_aws_region_def validate_table_name_def validate_kms_key_id_def validate_enclave_cid_def
      validate_enclave_port_def validate_log_level_def validate_dynamodb_endpoint_def
      validate_local_endpoint_compatibility_def Let_def res_simps split: option.splits list.splits if_splits)

lemma level_normal: "l \<in> set LOG_LEVELS \<Longrightarrow> strip l = l \<and> upper_str l = l \<and> l \<in> set known_levels"
  by (auto simp: LOG_LEVELS_def known_levels_def strip_def upper_str_def upper_char_def U_def py_space_def)

lemma validate_settings_Inr:
  "validate_settings netloc_check endpoint raw = Inr s \<longleftrightarrow>
     (\<exists>r t u k c p l. validate_aws_region (se_aws_region raw) = Inr r \<and> validate_table_name (se_dynamodb_table_name raw) = Inr t
       \<and> validate_dynamodb_endpoint netloc_check (normalize_dynamodb_endpoint endpoint) = Inr u
       \<and> validate_kms_key_id (se_kms_key_id raw) = Inr k \<and> validate_enclave_cid (se_enclave_cid raw) = Inr c
       \<and> validate_enclave_port (se_enclave_port raw) = Inr p \<and> validate_log_level (se_log_level raw) = Inr l
       \<and> validate_local_endpoint_compatibility
           (raw\<lparr>se_aws_region := r, se_dynamodb_table_name := t, se_dynamodb_endpoint := u, se_kms_key_id := k,
                se_enclave_cid := c, se_enclave_port := p, se_log_level := l\<rparr>) = Inr s)"
  by (simp add: validate_settings_def Let_def split: sum.split)

lemma configure_logging_known:
  assumes "upper_str level \<in> set known_levels"
  shows "\<exists>st'. configure_logging level st = Inr st'"
  using assms by (simp add: configure_logging_def configure_named_def set_level_def)

section \<open>Properties\<close>


lemma default_strings:
  "strip (U ''us-east-1'') = U ''us-east-1''" "strip (U ''confidential-ml-feature-store'') = U ''confidential-ml-feature-store''"
  "strip (U ''INFO'') = U ''INFO''" "strip (U '' http://localhost:8000'') = U ''http://localhost:8000''"
  "strip (U ''arn:aws:kms:us-east-1:749382610573:key/mrk-f3c9e2b741d865a0f4821c3d096e57b8'')
    = U ''arn:aws:kms:us-east-1:749382610573:key/mrk-f3c9e2b741d865a0f4821c3d096e57b8''"
  "upper_str (U ''INFO'') = U ''INFO''"
  by (simp_all add: strip_def upper_str_def upper_char_def U_def py_space_def)

lemma default_region: "aws_region_pattern (U ''us-east-1'')"
proof -
  let ?rest = "U ''east-1''"
  have "?rest ! 4 = 45" "list_all region_middle (take 4 ?rest)" "drop (Suc 4) ?rest = [49]" "re_digit 49" "length ?rest = 6"
    by (simp_all add: U_def region_middle_def small_letter_def re_digit_def digit_zeros_def)
  then have "list_ex (\<lambda>k. 0 < k \<and> ?rest ! k = 45 \<and> list_all region_middle (take k ?rest)
      \<and> drop (Suc k) ?rest \<noteq> [] \<and> list_all re_digit (drop (Suc k) ?rest)) [0 ..< length ?rest]"
    unfolding list_ex_iff by (intro bexI [of _ 4]) simp_all
  moreover have "U ''us-east-1'' = 117 # 115 # 45 # ?rest" by (simp add: U_def)
  ultimately show ?thesis by (simp add: aws_region_pattern_def small_letter_def)
qed

lemma default_table: "ddb_table_pattern (U ''confidential-ml-feature-store'')"
  by (simp add: ddb_table_pattern_def) (simp add: U_def small_letter_def)

lemma local_url: "url_parts check (U ''http://localhost:8000'') = Inr (U ''http'', U ''localhost:8000'')"
  by (simp add: url_parts_def url_scheme_def url_netloc_def Let_def U_def small_letter_def capital_letter_def scheme_char_def)


end
