(* ===== verification/Startup.thy ===== *)
theory Startup
  imports Api Config
begin

text \<open>
  The start of the application in \<open>feature_store/main.py\<close>: \<open>create_app\<close>, the lifespan around the
  requests, the construction of the DynamoDB service, and the enclave client that the first
  request creates. The cached settings, the loggers and the application's state are threaded
  through in this order.
\<close>

section \<open>The DynamoDB service\<close>

record 'w dynamo_service =
  ds_api :: "'w dynamo_api"
  ds_table_name :: ustr

definition dynamo_service_init :: "(ustr \<Rightarrow> ustr option \<Rightarrow> (ustr \<Rightarrow> 'w dynamo_api) res) \<Rightarrow> ustr \<Rightarrow> ustr \<Rightarrow> ustr option
    \<Rightarrow> 'w dynamo_service res" where
  \<comment> \<open>the first argument is \<open>boto3.resource("dynamodb", ...)\<close>, whose result makes tables from names\<close>
  "dynamo_service_init resource table_name region_name endpoint_url =
     bindR (resource region_name endpoint_url) (\<lambda>table. Inr \<lparr>ds_api = table table_name, ds_table_name = table_name\<rparr>)"

definition table_name :: "'w dynamo_service \<Rightarrow> ustr" where
  "table_name ds = ds_table_name ds"

section \<open>The application\<close>

text \<open>The environment the process starts in, and the process's state outside of the application.\<close>

record 'w startup_env =
  su_netloc_check :: "ustr \<Rightarrow> bool"
  su_endpoint :: endpoint_value
  su_settings :: settings
  su_resource :: "ustr \<Rightarrow> ustr option \<Rightarrow> (ustr \<Rightarrow> 'w dynamo_api) res"
  su_version :: ustr

record host =
  ho_settings :: "settings option"
  ho_logging :: logging_state

record fastapi_app =
  fa_title :: ustr
  fa_version :: ustr
  fa_allow_origins :: "ustr list"
  fa_allow_credentials :: bool
  fa_allow_methods :: "ustr list"
  fa_allow_headers :: "ustr list"
  fa_expose_headers :: "ustr list"
  fa_middleware :: "ustr list"
  fa_routers :: "ustr list"
  fa_exception_handlers :: "ustr list"

record ('h, 'm, 'w) app_state =
  as_settings :: settings
  as_dynamo_service :: "'w dynamo_service"
  as_enclave_client :: "('h, 'm) any_client option"

definition host_settings :: "'w startup_env \<Rightarrow> host \<Rightarrow> (exn list + settings) \<times> host" where
  \<comment> \<open>\<open>get_settings()\<close>; the exceptions of a refused value are those of its fields\<close>
  "host_settings env ho =
     (case get_settings (su_netloc_check env) (su_endpoint env) (su_settings env) (ho_settings ho) of
        (r, cached) \<Rightarrow> (r, ho\<lparr>ho_settings := cached\<rparr>))"

definition configured_host :: "'w startup_env \<Rightarrow> host \<Rightarrow> (exn list + settings) \<times> host" where
  \<comment> \<open>\<open>settings = get_settings(); configure_logging(settings.log_level)\<close>\<close>
  "configured_host env ho =
     (case host_settings env ho of
        (Inl es, ho1) \<Rightarrow> (Inl es, ho1)
      | (Inr s, ho1) \<Rightarrow>
        (case configure_logging (se_log_level s) (ho_logging ho1) of
           Inl e \<Rightarrow> (Inl [e], ho1)
         | Inr ls \<Rightarrow> (Inr s, ho1\<lparr>ho_logging := ls\<rparr>)))"

definition create_app :: "'w startup_env \<Rightarrow> host \<Rightarrow> (exn list + fastapi_app) \<times> host" where
  \<comment> \<open>the routers are named by their prefixes, the handlers by their exceptions, the middleware by its name\<close>
  "create_app env ho =
     (case configured_host env ho of
        (Inl es, ho1) \<Rightarrow> (Inl es, ho1)
      | (Inr _, ho1) \<Rightarrow>
        (Inr \<lparr>fa_title = U ''Confidential ML Feature Store'', fa_version = su_version env,
              fa_allow_origins = [U ''*''], fa_allow_credentials = True, fa_allow_methods = [U ''*''],
              fa_allow_headers = [U ''*''], fa_expose_headers = [U ''X-Request-ID''],
              fa_middleware = [U ''CORSMiddleware'', U ''request_context_middleware''],
              fa_routers = [U '''', U ''/features'', U ''/inference''],
              fa_exception_handlers = [U ''AppException'', U ''RequestValidationError'', U ''Exception'']\<rparr>, ho1))"

definition lifespan_start :: "'w startup_env \<Rightarrow> host \<Rightarrow> (exn list + ('h, 'm, 'w) app_state) \<times> host" where
  \<comment> \<open>up to \<open>yield\<close>; no enclave client has been made yet\<close>
  "lifespan_start env ho =
     (case configured_host env ho of
        (Inl es, ho1) \<Rightarrow> (Inl es, ho1)
      | (Inr s, ho1) \<Rightarrow>
        (case dynamo_service_init (su_resource env) (se_dynamodb_table_name s) (se_aws_region s) (se_dynamodb_endpoint s) of
           Inl e \<Rightarrow> (Inl [e], ho1)
         | Inr ds \<Rightarrow> (Inr \<lparr>as_settings = s, as_dynamo_service = ds, as_enclave_client = None\<rparr>, ho1)))"

definition lifespan_end :: "log_context \<Rightarrow> log_context" where
  "lifespan_end ctx = clear_log_context ctx"

definition client_settings :: "client_environ \<Rightarrow> settings \<Rightarrow> client_environ" where
  "client_settings ce s = ce\<lparr>ce_use_mock_enclave := se_use_mock_enclave s, ce_enclave_cid := se_enclave_cid s,
     ce_enclave_port := se_enclave_port s\<rparr>"

definition request_client :: "'w startup_env \<Rightarrow> client_environ \<Rightarrow> ('h, 'm, 'w) app_state \<Rightarrow> host
    \<Rightarrow> (exn list + ('h, 'm) any_client) \<times> ('h, 'm, 'w) app_state \<times> host" where
  \<comment> \<open>\<open>get_enclave_client\<close>: the settings are read, and the client kept, when there is none yet\<close>
  "request_client env ce st ho =
     (case as_enclave_client st of
        Some client \<Rightarrow> (Inr client, st, ho)
      | None \<Rightarrow>
        (case host_settings env ho of
           (Inl es, ho1) \<Rightarrow> (Inl es, st, ho1)
         | (Inr s, ho1) \<Rightarrow>
           (case get_enclave_client (client_settings ce s) None of
              Inl e \<Rightarrow> (Inl [e], st, ho1)
            | Inr client \<Rightarrow> (Inr client, st\<lparr>as_enclave_client := Some client\<rparr>, ho1))))"

section \<open>Lemmas\<close>

lemma host_settings_Inr:
  assumes "host_settings env ho = (Inr s, ho1)"
  shows "ho_settings ho1 = Some s" and "ho_logging ho1 = ho_logging ho"
    and "ho_settings ho = None \<Longrightarrow> validate_settings (su_netloc_check env) (su_endpoint env) (su_settings env) = Inr s"
    and "ho_settings ho = Some s' \<Longrightarrow> s' = s"
  using assms by (auto simp: host_settings_def get_settings_def split: option.splits sum.splits prod.splits)

lemma cached_settings: "ho_settings ho = Some s \<Longrightarrow> host_settings env ho = (Inr s, ho)"
  by (simp add: host_settings_def get_settings_def)

lemma configured_host_Inr:
  assumes "configured_host env ho = (Inr s, ho1)"
  shows "\<exists>ho2. host_settings env ho = (Inr s, ho2) \<and> ho_settings ho1 = Some s
    \<and> configure_logging (se_log_level s) (ho_logging ho2) = Inr (ho_logging ho1)"
  using assms host_settings_Inr(1) by (fastforce simp: configured_host_def split: sum.splits prod.splits)

text \<open>A client that \<open>get_enclave_client\<close> makes has the settings' address and starts with an empty pool or engine.\<close>

definition fresh_client :: "settings \<Rightarrow> ('h, 'm) any_client \<Rightarrow> bool" where
  "fresh_client s client \<longleftrightarrow> (case client of
     MockClient en \<Rightarrow> se_use_mock_enclave s \<and> list_loaded_models en = []
   | RealClient cl \<Rightarrow> \<not> se_use_mock_enclave s \<and> ec_cid cl = se_enclave_cid s \<and> ec_port cl = se_enclave_port s \<and> ec_pool cl = [])"

lemma new_client_fresh:
  assumes "get_enclave_client (client_settings ce s) None = Inr client"
  shows "fresh_client s client"
  using assms
  by (auto simp: get_enclave_client_def client_settings_def fresh_client_def enclave_client_init_def engine_init_def
      list_loaded_models_def res_simps split: if_splits sum.splits)

lemma validated_bounds:
  assumes "validate_settings netloc_check url raw = Inr s"
  shows "2 < se_enclave_cid s \<and> 1 \<le> se_enclave_port s \<and> se_enclave_port s \<le> 65535" and "upper_str (se_log_level s) = se_log_level s"
  using assms level_normal by (auto simp: validate_settings_Inr validators_Inr)

section \<open>Properties\<close>

text \<open>C19. An application that starts runs on the settings the environment validates to, the
  same in every part: the loggers have their level and the JSON handler, the DynamoDB service has
  their table, region and endpoint, and the enclave client that the first request makes is the
  mock or a client of their address with an empty pool. All later requests get that client, even
  from a changed environment; when none can be made, the state stays as it was.\<close>

theorem startup_configures:
  assumes "ho_settings ho = None" and "create_app env ho = (Inr a, ho1)" and "lifespan_start env ho1 = (Inr st, ho2)"
  shows "\<exists>s table. validate_settings (su_netloc_check env) (su_endpoint env) (su_settings env) = Inr s
    \<and> ho_settings ho2 = Some s \<and> as_settings st = s
    \<and> lg_level (ls_root (ho_logging ho2)) = se_log_level s \<and> lg_handlers (ls_root (ho_logging ho2)) = [JsonHandler]
    \<and> su_resource env (se_aws_region s) (se_dynamodb_endpoint s) = Inr table
    \<and> ds_api (as_dynamo_service st) = table (se_dynamodb_table_name s)
    \<and> table_name (as_dynamo_service st) = se_dynamodb_table_name s
    \<and> 2 < se_enclave_cid s \<and> 1 \<le> se_enclave_port s \<and> se_enclave_port s \<le> 65535
    \<and> (case request_client env ce st ho2 of (r, st', ho') \<Rightarrow> ho' = ho2 \<and>
        (case r of
           Inl _ \<Rightarrow> st' = st
         | Inr client \<Rightarrow> fresh_client s client \<and> as_enclave_client st' = Some client
             \<and> (\<forall>env' ce' ho'. request_client env' ce' st' ho' = (Inr client, st', ho'))))"
proof -
  obtain s where c1: "configured_host env ho = (Inr s, ho1)"
    using assms(2) by (auto simp: create_app_def split: sum.splits prod.splits)
  from configured_host_Inr [OF this] obtain ho' where h: "host_settings env ho = (Inr s, ho')" "ho_settings ho1 = Some s" by blast
  note v = host_settings_Inr(3) [OF h(1) assms(1)]
  obtain s2 ds where c2: "configured_host env ho1 = (Inr s2, ho2)"
    and ds: "dynamo_service_init (su_resource env) (se_dynamodb_table_name s2) (se_aws_region s2) (se_dynamodb_endpoint s2) = Inr ds"
    and st: "st = \<lparr>as_settings = s2, as_dynamo_service = ds, as_enclave_client = None\<rparr>"
    using assms(3) by (auto simp: lifespan_start_def split: sum.splits prod.splits)
  from configured_host_Inr [OF c2] cached_settings [OF h(2), of env] have s2: "s2 = s" "ho_settings ho2 = Some s"
    and lg: "configure_logging (se_log_level s) (ho_logging ho1) = Inr (ho_logging ho2)" by auto
  note logs = configured(1,2) [OF lg, unfolded validated_bounds(2) [OF v]]
  obtain table where t: "su_resource env (se_aws_region s) (se_dynamodb_endpoint s) = Inr table"
      "ds = \<lparr>ds_api = table (se_dynamodb_table_name s), ds_table_name = se_dynamodb_table_name s\<rparr>"
    using ds by (auto simp: dynamo_service_init_def s2 res_simps)
  have "case request_client env ce st ho2 of (r, st', ho') \<Rightarrow> ho' = ho2 \<and>
      (case r of Inl _ \<Rightarrow> st' = st | Inr client \<Rightarrow> fresh_client s client \<and> as_enclave_client st' = Some client
         \<and> (\<forall>env' ce' ho'. request_client env' ce' st' ho' = (Inr client, st', ho')))"
    using new_client_fresh [of ce s]
    by (auto simp: request_client_def st cached_settings [OF s2(2)] split: sum.split)
  with v s2 st t logs validated_bounds(1) [OF v] show ?thesis by (auto simp: table_name_def)
qed

definition sample_logger :: logger where
  "sample_logger = \<lparr>lg_handlers = [], lg_filters = [], lg_level = U ''WARNING'', lg_propagate = True\<rparr>"

definition sample_host :: host where
  "sample_host = \<lparr>ho_settings = None, ho_logging = \<lparr>ls_root = sample_logger, ls_named = (\<lambda>_. sample_logger), ls_warnings = False\<rparr>\<rparr>"

definition sample_env :: "(item_key, item) odict startup_env" where
  \<comment> \<open>for the witness: the default settings, and one table in memory\<close>
  "sample_env = \<lparr>su_netloc_check = (\<lambda>_. True), su_endpoint = NoEndpoint, su_settings = default_settings,
     su_resource = (\<lambda>region endpoint. Inr (\<lambda>name. mem_api)), su_version = U ''0.1.0''\<rparr>"

lemma sample_settings: "host_settings sample_env sample_host = (Inr default_settings, sample_host\<lparr>ho_settings := Some default_settings\<rparr>)"
proof -
  have "validate_settings (\<lambda>_. True) NoEndpoint default_settings = Inr default_settings"
    unfolding validate_settings_Inr validators_Inr
    by (auto simp: default_settings_def normalize_dynamodb_endpoint_def default_strings default_region default_table LOG_LEVELS_def)
  then show ?thesis by (simp add: host_settings_def get_settings_def sample_env_def sample_host_def)
qed

lemma default_level_logging: "\<exists>ls'. configure_logging (se_log_level default_settings) ls = Inr ls'"
  by (rule configure_logging_known) (simp add: default_settings_def default_strings known_levels_def)

theorem startup_configures_witness:
  "\<exists>a ho1 st ho2. create_app sample_env sample_host = (Inr a, ho1)
    \<and> lifespan_start sample_env ho1 = (Inr (st :: (nat, nat, (item_key, item) odict) app_state), ho2)
    \<and> as_settings st = default_settings \<and> table_name (as_dynamo_service st) = U ''confidential-ml-feature-store''
    \<and> lg_level (ls_root (ho_logging ho2)) = U ''INFO''"
proof -
  obtain ls1 where ls1: "configure_logging (se_log_level default_settings) (ho_logging sample_host) = Inr ls1"
    using default_level_logging by blast
  define ho1 where "ho1 = sample_host\<lparr>ho_settings := Some default_settings, ho_logging := ls1\<rparr>"
  have "configured_host sample_env sample_host = (Inr default_settings, ho1)"
    using ls1 by (simp add: configured_host_def sample_settings ho1_def)
  then obtain a where a: "create_app sample_env sample_host = (Inr a, ho1)" by (simp add: create_app_def)
  obtain ls2 where ls2: "configure_logging (se_log_level default_settings) (ho_logging ho1) = Inr ls2"
    using default_level_logging by blast
  then have "configured_host sample_env ho1 = (Inr default_settings, ho1\<lparr>ho_logging := ls2\<rparr>)"
    by (simp add: configured_host_def cached_settings ho1_def)
  then obtain st :: "(nat, nat, (item_key, item) odict) app_state" where st: "lifespan_start sample_env ho1 = (Inr st, ho1\<lparr>ho_logging := ls2\<rparr>)"
    and s: "as_settings st = default_settings"
    by (simp add: lifespan_start_def dynamo_service_init_def) (simp add: sample_env_def)
  have "ho_settings sample_host = None" by (simp add: sample_host_def)
  from startup_configures [OF this a st] a st s show ?thesis
    by (intro exI [of _ a] exI [of _ ho1] exI [of _ st] exI [of _ "ho1\<lparr>ho_logging := ls2\<rparr>"]) (auto simp: default_settings_def)
qed

end
