(* ===== verification/TrainModel.thy ===== *)
theory TrainModel
  imports Artifacts MockEnclave
begin

text \<open>
  \<open>scripts/train_model.py\<close>: the tool that trains a model, encrypts it under a data key of its
  tenant and writes the two artifacts the host's router finds and the enclave's engine opens.
  The lemmas follow an artifact all that way. scikit-learn, joblib and the cipher are parameters.
\<close>

section \<open>Arguments\<close>

record arguments =
  ar_tenant_id :: ustr
  ar_model_name :: ustr
  ar_output_dir :: ustr
  ar_kms_key_id :: ustr
  ar_aws_region :: ustr
  ar_n_estimators :: int

record command_line =
  cl_tenant_id :: "ustr option"
  cl_model_name :: "ustr option"
  cl_output_dir :: "ustr option"
  cl_kms_key_id :: "ustr option"
  cl_aws_region :: "ustr option"
  cl_n_estimators :: "ustr option"

definition or_default :: "ustr option \<Rightarrow> ustr \<Rightarrow> ustr" where
  "or_default v d = (case v of Some s \<Rightarrow> s | None \<Rightarrow> d)"

definition parse_args :: "(ustr \<Rightarrow> ustr option) \<Rightarrow> command_line \<Rightarrow> arguments res" where
  \<comment> \<open>the first argument is the environment; \<open>argparse\<close> ends the program on an invalid option\<close>
  "parse_args env cl =
     (case cl_tenant_id cl of
        None \<Rightarrow> Inl (OtherError (U ''SystemExit''))
      | Some tenant_id \<Rightarrow>
        (case (case cl_n_estimators cl of None \<Rightarrow> Inr 50 | Some s \<Rightarrow> int_of_str s) of
           Inl _ \<Rightarrow> Inl (OtherError (U ''SystemExit''))
         | Inr n \<Rightarrow> Inr
             \<lparr>ar_tenant_id = tenant_id,
              ar_model_name = or_default (cl_model_name cl) (U ''iris-rf''),
              ar_output_dir = or_default (cl_output_dir cl) (or_default (env (U ''MODEL_STORAGE_DIR'')) (U ''artifacts'')),
              ar_kms_key_id = or_default (cl_kms_key_id cl) (or_default (env (U ''KMS_KEY_ID''))
                (U ''arn:aws:kms:us-east-1:749382610573:key/mrk-f3c9e2b741d865a0f4821c3d096e57b8'')),
              ar_aws_region = or_default (cl_aws_region cl) (or_default (env (U ''AWS_REGION'')) (U ''us-east-1'')),
              ar_n_estimators = n\<rparr>))"

section \<open>Training\<close>

record ('m, 'w) trainer =
  tr_fit :: "int \<Rightarrow> int \<Rightarrow> 'm res"
  tr_dump :: "'m \<Rightarrow> bytes res"
  tr_n_features :: "'m \<Rightarrow> int res option"
  tr_kms_client :: "ustr \<Rightarrow> 'w kms_api res"
  tr_urandom :: "nat \<Rightarrow> 'w \<Rightarrow> bytes \<times> 'w"
  tr_encrypt :: "bytes \<Rightarrow> bytes \<Rightarrow> bytes \<Rightarrow> bytes \<Rightarrow> bytes res"
  tr_now :: "'w \<Rightarrow> ustr \<times> 'w"

text \<open>
  \<open>tr_fit n s\<close> is a random forest of \<open>n\<close> trees and random state \<open>s\<close> fitted to the iris data;
  \<open>tr_encrypt key nonce data aad\<close> is \<open>AESGCM(key).encrypt(nonce, data, aad)\<close>.
\<close>

definition train_forest :: "('m, 'w) trainer \<Rightarrow> int \<Rightarrow> 'm res" where
  "train_forest tr n_estimators = tr_fit tr n_estimators 42"

definition serialize_model :: "('m, 'w) trainer \<Rightarrow> 'm \<Rightarrow> bytes res" where
  "serialize_model tr model = tr_dump tr model"

definition tenant_data_key :: "'w kms_api \<Rightarrow> ustr \<Rightarrow> ustr \<Rightarrow> 'w \<Rightarrow> (bytes \<times> bytes) res \<times> 'w" where
  \<comment> \<open>the response's fields are subscripted: a missing one is a \<open>KeyError\<close>\<close>
  "tenant_data_key kms_client kms_key_id tenant_id w =
     thenW (api_generate_data_key kms_client kms_key_id (U ''AES_256'') [(U ''tenant_id'', tenant_id)] w) (\<lambda>response w'.
       (case (od_get response (U ''Plaintext''), od_get response (U ''CiphertextBlob'')) of
          (Some (RVBytes plaintext), Some (RVBytes blob)) \<Rightarrow> Inr (plaintext, blob)
        | (Some _, Some _) \<Rightarrow> Inl TypeError
        | _ \<Rightarrow> Inl KeyError, w'))"

definition artifact_payload :: "arguments \<Rightarrow> int \<Rightarrow> bytes \<Rightarrow> bytes \<Rightarrow> bytes \<Rightarrow> ustr \<Rightarrow> (ustr, json) odict" where
  "artifact_payload args n nonce ciphertext aad now =
     [(U ''algorithm'', JStr (U ''AESGCM'')),
      (U ''tenant_id'', JStr (ar_tenant_id args)),
      (U ''model_name'', JStr (ar_model_name args)),
      (U ''feature_dimension'', JInt n),
      (U ''nonce_b64'', JStr (b64encode nonce)),
      (U ''ciphertext_b64'', JStr (b64encode ciphertext)),
      (U ''aad_b64'', JStr (b64encode aad)),
      (U ''trained_at'', JStr now),
      (U ''framework'', JStr (U ''scikit-learn'')),
      (U ''serializer'', JStr (U ''joblib''))]"

definition artifact_aad :: "arguments \<Rightarrow> bytes res" where
  \<comment> \<open>\<open>f"{args.tenant_id}:{args.model_name}".encode()\<close>\<close>
  "artifact_aad args = utf8_encode (ar_tenant_id args @ [58] @ ar_model_name args)"

definition reported_dimension :: "('m, 'w) trainer \<Rightarrow> 'm \<Rightarrow> int res" where
  \<comment> \<open>\<open>int(getattr(model, "n_features_in_", 0))\<close>\<close>
  "reported_dimension tr model = (case tr_n_features tr model of None \<Rightarrow> Inr 0 | Some r \<Rightarrow> r)"

definition encrypt_artifact :: "('m, 'w) trainer \<Rightarrow> arguments \<Rightarrow> 'm \<Rightarrow> bytes \<Rightarrow> bytes \<Rightarrow> 'w \<Rightarrow> bytes res \<times> 'w" where
  \<comment> \<open>from the additional data to the text of the artifact\<close>
  "encrypt_artifact tr args model serialized_model plaintext_key w =
     thenW (artifact_aad args, w) (\<lambda>aad w1.
     case tr_urandom tr 12 w1 of (nonce, w2) \<Rightarrow>
     thenW (tr_encrypt tr plaintext_key nonce serialized_model aad, w2) (\<lambda>ciphertext w3.
     thenW (reported_dimension tr model, w3) (\<lambda>n w4.
     case tr_now tr w4 of (now, w5) \<Rightarrow>
       (utf8_encode (dumps (JObj (artifact_payload args n nonce ciphertext aad now))), w5))))"

definition train_main :: "('m, 'w) trainer \<Rightarrow> 'w files \<Rightarrow> arguments \<Rightarrow> 'w \<Rightarrow> unit res \<times> 'w" where
  \<comment> \<open>without the closing messages\<close>
  "train_main tr fl args w =
     thenW (fl_resolve fl (parse_path (ar_output_dir args)) w) (\<lambda>root w1.
     let output_directory = join_path (join_path root (ar_tenant_id args)) (ar_model_name args) in
     thenW (fl_mkdir fl output_directory w1) (\<lambda>_ w2.
     thenW (train_forest tr (ar_n_estimators args), w2) (\<lambda>model w3.
     thenW (serialize_model tr model, w3) (\<lambda>serialized_model w4.
     thenW (tr_kms_client tr (ar_aws_region args), w4) (\<lambda>kms_client w5.
     thenW (tenant_data_key kms_client (ar_kms_key_id args) (ar_tenant_id args) w5) (\<lambda>(plaintext_key, encrypted_key) w6.
     thenW (encrypt_artifact tr args model serialized_model plaintext_key w6) (\<lambda>artifact w7.
     thenW (fl_write_bytes fl (join_path output_directory (U ''encrypted_model.bin'')) artifact w7) (\<lambda>_ w8.
       fl_write_bytes fl (join_path output_directory (U ''encrypted_data_key.bin'')) encrypted_key w8))))))))"

section \<open>The artifact is opened by the engine\<close>

text \<open>What the cipher and the serializer promise: decryption undoes encryption, loading undoes dumping.\<close>

definition undoes :: "('m, 'w) trainer \<Rightarrow> ('m, 'p) model_lib \<Rightarrow> bool" where
  "undoes tr lib \<longleftrightarrow>
     (\<forall>key nonce data aad c. tr_encrypt tr key nonce data aad = Inr c \<longrightarrow> ml_aesgcm lib key nonce c aad = Inr data)
   \<and> (\<forall>model b. tr_dump tr model = Inr b \<longrightarrow> ml_load lib b = Inr model)
   \<and> (\<forall>model. ml_n_features lib model = tr_n_features tr model)"

lemma str_wf_ascii: "ascii s \<Longrightarrow> str_wf s"
  by (rule str_wf_latin) (auto simp: ascii_def)

lemma artifact_payload_wf:
  assumes "str_wf (ar_tenant_id args)" and "str_wf (ar_model_name args)" and "str_wf now"
  shows "json_wf (JObj (artifact_payload args n nonce ciphertext aad now))"
    and "json_depth (JObj (artifact_payload args n nonce ciphertext aad now)) = 2"
  using assms by (simp_all add: artifact_payload_def str_wf_ascii b64encode_ascii)

lemma payload_read:
  assumes "str_wf (ar_tenant_id args)" and "str_wf (ar_model_name args)" and "str_wf now" and "2 \<le> depth"
    and "utf8_encode (dumps (JObj (artifact_payload args n nonce ciphertext aad now))) = Inr b"
  shows "parse_model_payload depth b = Inr (artifact_payload args n nonce ciphertext aad now)"
proof -
  let ?d = "artifact_payload args n nonce ciphertext aad now"
  note wf = artifact_payload_wf [OF assms(1-3), of n nonce ciphertext aad]
  have "b = map byte_of (dumps (JObj ?d))" using dumps_bytes(1) [OF wf(1)] assms(5) by simp
  then have "bindR (utf8_decode b) (loads depth) = Inr (JObj ?d)"
    using dumps_bytes(2) [OF wf(1)] loads_dumps [OF wf(1), of depth] wf(2) assms(4) by simp
  then show ?thesis
    by (simp add: parse_model_payload_def json_object_def)
      (simp add: artifact_payload_def str_field_def od_get_def)
qed

lemma b64encode_nonempty: "bs \<noteq> [] \<Longrightarrow> b64encode bs \<noteq> []"
  by (cases bs rule: b64encode.cases) auto

lemma utf8_char_encode_nonempty: "utf8_encode s = Inr b \<Longrightarrow> s \<noteq> [] \<Longrightarrow> b \<noteq> []"
  by (cases s) (auto simp: utf8_encode_def split: if_splits)

text \<open>The artifact carries its additional data, so that it opens under any name and tenant.\<close>

lemma artifact_opens:
  assumes "undoes tr lib" and "serialize_model tr model = Inr serialized"
    and "encrypt_artifact tr args model serialized data_key w = (Inr artifact, w')"
    and "tr_n_features tr model = Some (Inr n)" and "0 < n"
    and "str_wf (ar_tenant_id args)" and "str_wf (ar_model_name args)" and "\<forall>w. str_wf (fst (tr_now tr w))" and "2 \<le> depth"
  shows "open_model lib depth name tenant_id artifact data_key
    = Inr \<lparr>lm_name = name, lm_model = model, lm_feature_dimension = n\<rparr>"
proof -
  obtain nonce w2 where nonce: "tr_urandom tr 12 w = (nonce, w2)" by (cases "tr_urandom tr 12 w")
  obtain now w3 where now: "tr_now tr w2 = (now, w3)" by (cases "tr_now tr w2")
  from assms(3,4) nonce now obtain aad c where
    aad: "artifact_aad args = Inr aad" and c: "tr_encrypt tr data_key nonce serialized aad = Inr c"
    and b: "utf8_encode (dumps (JObj (artifact_payload args n nonce c aad now))) = Inr artifact"
    by (auto simp: encrypt_artifact_def reported_dimension_def thenW_case simp del: dumps.simps)
  have "str_wf now" using assms(8) now by (metis fst_conv)
  note read = payload_read [OF assms(6,7) this assms(9) b]
  have "aad \<noteq> []" using aad utf8_char_encode_nonempty by (auto simp: artifact_aad_def)
  then have t: "json_truthy (JStr (b64encode aad))" by (simp add: json_truthy_def b64encode_nonempty)
  have fields: "str_field (artifact_payload args n nonce c aad now) ''nonce_b64'' = Some (b64encode nonce)"
    "str_field (artifact_payload args n nonce c aad now) ''ciphertext_b64'' = Some (b64encode c)"
    "od_get (artifact_payload args n nonce c aad now) (U ''aad_b64'') = Some (JStr (b64encode aad))"
    by (simp_all add: artifact_payload_def str_field_def od_get_def)
  have "ml_aesgcm lib data_key nonce c aad = Inr serialized" "ml_load lib serialized = Inr model"
    "ml_n_features lib model = Some (Inr n)"
    using assms(1,2,4) c by (simp_all add: undoes_def serialize_model_def)
  with t assms(5) show ?thesis
    by (simp add: open_model_def read fields build_aad_def extract_feature_dimension_def)
qed

section \<open>The bundle is loaded\<close>

lemma bundle_read:
  assumes "str_wf t" and "str_wf name" and "2 \<le> depth"
  shows "utf8_encode (dumps (JObj (load_bundle t name (b64encode key) (JStr (b64encode blob)))))
      = Inr (map byte_of (dumps (JObj (load_bundle t name (b64encode key) (JStr (b64encode blob))))))"
    and "bundle_inputs depth name (map byte_of (dumps (JObj (load_bundle t name (b64encode key) (JStr (b64encode blob)))))) = Inr (key, blob, t)"
proof -
  let ?d = "load_bundle t name (b64encode key) (JStr (b64encode blob))"
  have wf: "json_wf (JObj ?d)" and dep: "json_depth (JObj ?d) = 2"
    using assms by (simp_all add: load_bundle_def str_wf_ascii b64encode_ascii)
  show "utf8_encode (dumps (JObj ?d)) = Inr (map byte_of (dumps (JObj ?d)))" by (rule dumps_bytes(1) [OF wf])
  have "bindR (utf8_decode (map byte_of (dumps (JObj ?d)))) (loads depth) = Inr (JObj ?d)"
    using dumps_bytes(2) [OF wf] loads_dumps [OF wf, of depth] dep assms(3) by simp
  then have "parse_load_request depth (map byte_of (dumps (JObj ?d))) = Inr ?d"
    unfolding parse_load_request_def json_object_def
    by (simp del: dumps.simps) (simp add: load_bundle_def str_field_def od_get_def required_fields_def)
  then show "bundle_inputs depth name (map byte_of (dumps (JObj ?d))) = Inr (key, blob, t)"
    unfolding bundle_inputs_def by (simp del: dumps.simps) (simp add: load_bundle_def str_field_def od_get_def)
qed

lemma bundle_loads:
  assumes "str_wf t" and "str_wf name" and "2 \<le> depth" and "strip name = name" and "name \<noteq> []"
    and "od_get (en_models en) name = None" and "engine_decrypt_key kms key t w = (Inr data_key, w')"
    and "open_model lib depth name t blob data_key = Inr m"
  shows "load_model lib kms depth name (map byte_of (dumps (JObj (load_bundle t name (b64encode key) (JStr (b64encode blob)))))) en w
    = (Inr (), store_model name m en, w')"
proof -
  have "dumps (JObj (load_bundle t name (b64encode key) (JStr (b64encode blob)))) \<noteq> []" by simp
  then show ?thesis
    unfolding load_model_def Let_def bundle_read(2) [OF assms(1-3)] assms(4)
    using assms(5-8) by (simp del: dumps.simps)
qed

section \<open>The files in between\<close>

text \<open>What the code relies on of the file system: \<open>content w\<close> are the files of a world with their contents.\<close>

definition files_hold :: "'w files \<Rightarrow> ('w \<Rightarrow> pypath \<Rightarrow> bytes option) \<Rightarrow> (pypath \<Rightarrow> pypath) \<Rightarrow> bool" where
  "files_hold fl content base \<longleftrightarrow>
     (\<forall>p w. fl_resolve fl p w = (Inr (base p), w))
   \<and> (\<forall>p w. fl_is_file fl p w = (Inr (content w p \<noteq> None), w))
   \<and> (\<forall>p w b. content w p = Some b \<longrightarrow> fl_read_bytes fl p w = (Inr b, w))
   \<and> (\<forall>p b w w'. fl_write_bytes fl p b w = (Inr (), w') \<longrightarrow> content w' = (content w)(p \<mapsto> b))"

definition model_file :: "(pypath \<Rightarrow> pypath) \<Rightarrow> arguments \<Rightarrow> string \<Rightarrow> pypath" where
  "model_file base args f =
     join_path (join_path (join_path (base (parse_path (ar_output_dir args))) (ar_tenant_id args)) (ar_model_name args)) (U f)"

lemma model_files_differ: "model_file base args ''encrypted_model.bin'' \<noteq> model_file base args ''encrypted_data_key.bin''"
proof
  assume "model_file base args ''encrypted_model.bin'' = model_file base args ''encrypted_data_key.bin''"
  then have "pa_parts (model_file base args ''encrypted_model.bin'') = pa_parts (model_file base args ''encrypted_data_key.bin'')"
    by simp
  then show False by (simp add: model_file_def join_plain artifact_names)
qed

lemma main_writes:
  assumes "files_hold fl content base" and "train_main tr fl args w = (Inr (), w')"
  obtains model serialized kms data_key key artifact w1 w2 w3 where
    "train_forest tr (ar_n_estimators args) = Inr model" "serialize_model tr model = Inr serialized"
    "tr_kms_client tr (ar_aws_region args) = Inr kms"
    "tenant_data_key kms (ar_kms_key_id args) (ar_tenant_id args) w1 = (Inr (data_key, key), w2)"
    "encrypt_artifact tr args model serialized data_key w2 = (Inr artifact, w3)"
    "content w' (model_file base args ''encrypted_model.bin'') = Some artifact"
    "content w' (model_file base args ''encrypted_data_key.bin'') = Some key"
proof -
  have res: "fl_resolve fl p w = (Inr (base p), w)" for p w using assms(1) unfolding files_hold_def by blast
  from assms(2) obtain w1 model serialized kms data_key key w2 artifact w3 w4 where
    m: "train_forest tr (ar_n_estimators args) = Inr model" "serialize_model tr model = Inr serialized"
      "tr_kms_client tr (ar_aws_region args) = Inr kms"
      "tenant_data_key kms (ar_kms_key_id args) (ar_tenant_id args) w1 = (Inr (data_key, key), w2)"
      "encrypt_artifact tr args model serialized data_key w2 = (Inr artifact, w3)"
    and wr: "fl_write_bytes fl (model_file base args ''encrypted_model.bin'') artifact w3 = (Inr (), w4)"
      "fl_write_bytes fl (model_file base args ''encrypted_data_key.bin'') key w4 = (Inr (), w')"
    by (auto simp: train_main_def Let_def res thenW_case model_file_def)
  from assms(1) wr have "content w4 = (content w3)(model_file base args ''encrypted_model.bin'' \<mapsto> artifact)"
    "content w' = (content w4)(model_file base args ''encrypted_data_key.bin'' \<mapsto> key)"
    unfolding files_hold_def by blast+
  with m model_files_differ [of base args] show thesis by (intro that [OF m]) simp_all
qed

lemma artifacts_found:
  assumes "files_hold fl content base"
    and "content w (model_file base args ''encrypted_model.bin'') = Some artifact"
    and "content w (model_file base args ''encrypted_data_key.bin'') = Some key"
    and "artifact \<noteq> []" and "key \<noteq> []"
  shows "load_model_artifacts fl (Some (ar_output_dir args)) (ar_tenant_id args) (ar_model_name args) w = (Inr (artifact, key), w)"
proof -
  let ?dir = "join_path (join_path (base (parse_path (ar_output_dir args))) (ar_tenant_id args)) (ar_model_name args)"
  have "fl_resolve fl (parse_path (ar_output_dir args)) w = (Inr (base (parse_path (ar_output_dir args))), w)"
    "fl_is_file fl (join_path ?dir (U ''encrypted_model.bin'')) w = (Inr True, w)"
    "fl_is_file fl (join_path ?dir (U ''encrypted_data_key.bin'')) w = (Inr True, w)"
    "fl_read_bytes fl (join_path ?dir (U ''encrypted_model.bin'')) w = (Inr artifact, w)"
    "fl_read_bytes fl (join_path ?dir (U ''encrypted_data_key.bin'')) w = (Inr key, w)"
    using assms(1-3) unfolding files_hold_def model_file_def by simp_all
  with assms(4,5) show ?thesis
    by (simp add: load_model_artifacts_def model_storage_root_def both_files_def Let_def)
qed

lemma encrypt_artifact_nonempty:
  assumes "encrypt_artifact tr args model serialized data_key w = (Inr artifact, w')"
  shows "artifact \<noteq> []"
proof -
  obtain nonce w2 where nonce: "tr_urandom tr 12 w = (nonce, w2)" by (cases "tr_urandom tr 12 w")
  obtain now w3 where now: "tr_now tr w2 = (now, w3)" by (cases "tr_now tr w2")
  from assms nonce now obtain v where "utf8_encode (dumps (JObj v)) = Inr artifact"
    by (auto simp: encrypt_artifact_def thenW_case simp del: dumps.simps)
  then show ?thesis by (rule utf8_char_encode_nonempty) simp
qed

section \<open>Properties\<close>

definition key_service :: "('m, 'w) trainer \<Rightarrow> 'v kms_methods \<Rightarrow> bool" where
  \<comment> \<open>the engine's KMS client unwraps what the trainer's KMS wrapped for the same tenant\<close>
  "key_service tr kms_methods \<longleftrightarrow>
     (\<forall>region kms key_id t w data_key key w'. tr_kms_client tr region = Inr kms \<longrightarrow>
        tenant_data_key kms key_id t w = (Inr (data_key, key), w') \<longrightarrow>
        key \<noteq> [] \<and> (\<forall>v. \<exists>v'. engine_decrypt_key kms_methods key t v = (Inr data_key, v')))"

lemma predict_request_fields:
  assumes "request = od_set (predict_payload name features key (Some blob) (Some t)) (U ''action'') (JStr (U ''predict''))"
  shows "str_field request ''model_name'' = Some name" "str_field request ''tenant_id'' = Some t"
    "od_get request (U ''features'') = Some (JList (map JFloat features))"
    "od_get request (U ''encrypted_model_blob'') = Some (JStr (b64encode blob))"
    "str_field request ''encrypted_model_key'' = Some (b64encode key)"
    "od_get request (U ''action'') = Some (JStr (U ''predict''))"
  by (simp_all add: assms str_field_def od_get_set) (simp_all add: predict_payload_def od_get_def)

lemma json_floats: "mapR json_float (map JFloat fs) = Inr fs"
  by (induction fs) (simp_all add: json_float_def)

text \<open>A request with a bundle is answered by the model that is there once the bundle has been loaded.\<close>

lemma dispatch_bundle:
  assumes request: "request = od_set (predict_payload name features key (Some blob) (Some t)) (U ''action'') (JStr (U ''predict''))"
    and names: "str_wf t" "str_wf name" "strip name = name" "name \<noteq> []" "strip t \<noteq> []" and "2 \<le> sv_depth sv" and "key \<noteq> []"
    and load: "load_model (sv_lib sv) (sv_kms sv) (sv_depth sv) name
        (map byte_of (dumps (JObj (load_bundle t name (b64encode key) (JStr (b64encode blob)))))) en v = (Inr (), en1, v1)"
    and stored: "od_get (en_models en1) name = Some m"
    and fs: "features \<noteq> []" "int (length features) = lm_feature_dimension m"
  shows "dispatch sv request en v = (case run_model (sv_lib sv) (sv_perf_counter sv) m features v1 of (r, v2) \<Rightarrow>
      (case r of Inr p \<Rightarrow> prediction_message p False | Inl e \<Rightarrow> predict_failure e, touch_model name en1, v2))"
proof -
  note f = predict_request_fields [OF request]
  note b = bundle_read(1) [OF names(1,2) \<open>2 \<le> sv_depth sv\<close>, of key blob]
  obtain c cs where c: "b64encode key = c # cs" using b64encode_nonempty [OF \<open>key \<noteq> []\<close>] by (cases "b64encode key") auto
  have p: "engine_predict (sv_lib sv) (sv_perf_counter sv) name features en1 v1
      = (case run_model (sv_lib sv) (sv_perf_counter sv) m features v1 of (r, v2) \<Rightarrow> (r, touch_model name en1, v2))"
    unfolding engine_predict_def Let_def names(3) stored using names(4) fs
    by (simp add: validate_features_def)
  have "dispatch sv request en v = load_and_predict sv name (load_bundle t name (b64encode key) (JStr (b64encode blob))) (map JFloat features) en v"
    using names(3-5)
    by (simp add: dispatch_def handle_predict_def f c Let_def)
  also have "\<dots> = predict_loaded sv name (map JFloat features) False en1 v1"
    unfolding load_and_predict_def b by (simp add: load del: dumps.simps)
  also have "\<dots> = (case run_model (sv_lib sv) (sv_perf_counter sv) m features v1 of (r, v2) \<Rightarrow>
      (case r of Inr p \<Rightarrow> prediction_message p False | Inl e \<Rightarrow> predict_failure e, touch_model name en1, v2))"
    by (simp add: predict_loaded_def json_floats p split: prod.split sum.split)
  finally show ?thesis .
qed

text \<open>What the deployment of a trained model takes of the tool, the enclave and the names.\<close>

definition deployable :: "('m, 'w) trainer \<Rightarrow> arguments \<Rightarrow> ('m, 'p, 'v) server \<Rightarrow> pyfloat list \<Rightarrow> bool" where
  "deployable tr args sv features \<longleftrightarrow>
     undoes tr (sv_lib sv) \<and> key_service tr (sv_kms sv)
   \<and> (\<forall>w. str_wf (fst (tr_now tr w))) \<and> (\<forall>model. tr_n_features tr model = Some (Inr (int (length features))))
   \<and> features \<noteq> [] \<and> 2 \<le> sv_depth sv
   \<and> str_wf (ar_tenant_id args) \<and> str_wf (ar_model_name args)
   \<and> strip (ar_tenant_id args) \<noteq> [] \<and> strip (ar_model_name args) = ar_model_name args \<and> ar_model_name args \<noteq> []"

definition trained_model :: "arguments \<Rightarrow> pyfloat list \<Rightarrow> 'm \<Rightarrow> 'm loaded_model" where
  "trained_model args features model =
     \<lparr>lm_name = ar_model_name args, lm_model = model, lm_feature_dimension = int (length features)\<rparr>"

definition engine_ready :: "arguments \<Rightarrow> 'm loaded_model \<Rightarrow> 'm engine \<Rightarrow> bool" where
  \<comment> \<open>the engine holds no other model under the name\<close>
  "engine_ready args m en \<longleftrightarrow> engine_inv en \<and> od_get (en_models en) (ar_model_name args) \<in> {None, Some m}"

definition predict_request :: "arguments \<Rightarrow> pyfloat list \<Rightarrow> bytes \<Rightarrow> bytes \<Rightarrow> message" where
  \<comment> \<open>the request the client makes from the files the router has found\<close>
  "predict_request args features key artifact =
     od_set (predict_payload (ar_model_name args) features key (Some artifact) (Some (ar_tenant_id args)))
       (U ''action'') (JStr (U ''predict''))"

definition answers_as :: "('m, 'p, 'v) server \<Rightarrow> arguments \<Rightarrow> pyfloat list \<Rightarrow> bytes \<Rightarrow> bytes \<Rightarrow> 'm loaded_model \<Rightarrow> 'm engine \<Rightarrow> 'v \<Rightarrow> bool" where
  \<comment> \<open>the request is answered with what the model computes, and the model is there from then on\<close>
  "answers_as sv args features key artifact m en v \<longleftrightarrow>
     (\<exists>en' v1. engine_inv en' \<and> od_get (en_models en') (ar_model_name args) = Some m
       \<and> dispatch sv (predict_request args features key artifact) en v
         = (case run_model (sv_lib sv) (sv_perf_counter sv) m features v1 of (r, v2) \<Rightarrow>
             (case r of Inr p \<Rightarrow> prediction_message p False | Inl e \<Rightarrow> predict_failure e, en', v2)))"

text \<open>Loading the bundle: the engine opens it, or keeps the model it has.\<close>

lemma ready_loads:
  assumes "engine_ready args m en" and "str_wf (ar_tenant_id args)" and "str_wf (ar_model_name args)" and "2 \<le> depth"
    and "strip (ar_model_name args) = ar_model_name args" and "ar_model_name args \<noteq> []"
    and "engine_decrypt_key kms key (ar_tenant_id args) v = (Inr data_key, v1)"
    and "open_model lib depth (ar_model_name args) (ar_tenant_id args) artifact data_key = Inr m"
  shows "\<exists>en1 v1. load_model lib kms depth (ar_model_name args)
        (map byte_of (dumps (JObj (load_bundle (ar_tenant_id args) (ar_model_name args) (b64encode key) (JStr (b64encode artifact)))))) en v
      = (Inr (), en1, v1) \<and> engine_inv en1 \<and> od_get (en_models en1) (ar_model_name args) = Some m"
proof (cases "od_get (en_models en) (ar_model_name args)")
  case None
  let ?en1 = "store_model (ar_model_name args) m en"
  have "engine_step lib depth en (Loaded (ar_model_name args) m) ?en1" by (rule engine_step.loaded) (rule assms)
  then have "engine_inv ?en1" using assms(1) engine_step_inv unfolding engine_ready_def by blast
  moreover have "od_get (en_models ?en1) (ar_model_name args) = Some m"
    using assms(1) by (simp add: engine_ready_def engine_inv_def od_get_store_same)
  ultimately show ?thesis using bundle_loads [OF assms(2-6) None assms(7,8)] by blast
next
  case (Some m')
  let ?en1 = "touch_model (ar_model_name args) en"
  have "engine_step lib depth en (Found (ar_model_name args) (od_get (en_models en) (ar_model_name args))) ?en1" by (rule engine_step.found)
  then have "engine_inv ?en1" using assms(1) engine_step_inv unfolding engine_ready_def by blast
  moreover have "od_get (en_models ?en1) (ar_model_name args) = Some m"
    using assms(1) Some by (simp add: engine_ready_def touch_model_def with_models_def od_get_move)
  moreover have "is_model_loaded (strip (ar_model_name args)) en" "strip (ar_model_name args) \<noteq> []"
    using Some assms(5,6) by (simp_all add: is_model_loaded_def)
  ultimately show ?thesis using cached_model_skips_bundle [of "ar_model_name args" en] assms(5) by fastforce
qed

lemma trained_serves:
  assumes "files_hold fl content base" and "deployable tr args sv features" and "train_main tr fl args w = (Inr (), w')"
  obtains model artifact key where "train_forest tr (ar_n_estimators args) = Inr model"
    and "content w' (model_file base args ''encrypted_model.bin'') = Some artifact"
    and "content w' (model_file base args ''encrypted_data_key.bin'') = Some key" and "artifact \<noteq> []" and "key \<noteq> []"
    and "\<forall>en v. engine_ready args (trained_model args features model) en \<longrightarrow>
      answers_as sv args features key artifact (trained_model args features model) en v"
proof -
  obtain model serialized kms data_key key artifact w1 w2 w3 where
    main: "train_forest tr (ar_n_estimators args) = Inr model" "serialize_model tr model = Inr serialized"
      "tr_kms_client tr (ar_aws_region args) = Inr kms"
      "tenant_data_key kms (ar_kms_key_id args) (ar_tenant_id args) w1 = (Inr (data_key, key), w2)"
      "encrypt_artifact tr args model serialized data_key w2 = (Inr artifact, w3)"
    and content: "content w' (model_file base args ''encrypted_model.bin'') = Some artifact"
      "content w' (model_file base args ''encrypted_data_key.bin'') = Some key"
    by (rule main_writes [OF assms(1,3)])
  note d = assms(2) [unfolded deployable_def]
  have key: "key \<noteq> []" and k: "\<exists>v1. engine_decrypt_key (sv_kms sv) key (ar_tenant_id args) v = (Inr data_key, v1)" for v
    using d main(3,4) unfolding key_service_def by blast+
  let ?m = "trained_model args features model"
  have n: "tr_n_features tr model = Some (Inr (int (length features)))" "0 < int (length features)"
    using d by simp_all
  have opened: "open_model (sv_lib sv) (sv_depth sv) (ar_model_name args) (ar_tenant_id args) artifact data_key = Inr ?m"
    unfolding trained_model_def by (rule artifact_opens) (use d main n in blast)+
  have "answers_as sv args features key artifact ?m en v" if ready: "engine_ready args ?m en" for en v
  proof -
    obtain v1 where v1: "engine_decrypt_key (sv_kms sv) key (ar_tenant_id args) v = (Inr data_key, v1)" using k by blast
    have "str_wf (ar_tenant_id args)" "str_wf (ar_model_name args)" "2 \<le> sv_depth sv"
      "strip (ar_model_name args) = ar_model_name args" "ar_model_name args \<noteq> []" using d by simp_all
    from ready_loads [OF ready this v1 opened] obtain en1 v1' where
      l: "load_model (sv_lib sv) (sv_kms sv) (sv_depth sv) (ar_model_name args) (map byte_of (dumps (JObj
          (load_bundle (ar_tenant_id args) (ar_model_name args) (b64encode key) (JStr (b64encode artifact)))))) en v = (Inr (), en1, v1')"
      and en1: "engine_inv en1" "od_get (en_models en1) (ar_model_name args) = Some ?m" by blast
    have "engine_inv (touch_model (ar_model_name args) en1)" using engine_step_inv [OF engine_step.found en1(1)] by blast
    moreover have "od_get (en_models (touch_model (ar_model_name args) en1)) (ar_model_name args) = Some ?m"
      using en1(2) by (simp add: od_get_move)
    moreover have "dispatch sv (predict_request args features key artifact) en v
       = (case run_model (sv_lib sv) (sv_perf_counter sv) ?m features v1' of (r, v2) \<Rightarrow>
           (case r of Inr p \<Rightarrow> prediction_message p False | Inl e \<Rightarrow> predict_failure e, touch_model (ar_model_name args) en1, v2))"
      by (rule dispatch_bundle [OF predict_request_def _ _ _ _ _ _ key l en1(2)]) (use d in \<open>simp_all add: trained_model_def\<close>)
    ultimately show ?thesis unfolding answers_as_def by blast
  qed
  then show thesis by (intro that [OF main(1) content encrypt_artifact_nonempty [OF main(5)] key]) simp
qed


definition sample_trainer :: "(bytes, (pypath, bytes) odict) trainer" where
  \<comment> \<open>a trainer whose model is its own text, for the witness\<close>
  "sample_trainer =
     \<lparr>tr_fit = (\<lambda>n s. Inr [1, 2]), tr_dump = Inr, tr_n_features = (\<lambda>m. Some (Inr 2)),
      tr_kms_client = (\<lambda>region. Inr \<lparr>api_encrypt = (\<lambda>k b c w. (Inl BotoCoreError, w)), api_decrypt = (\<lambda>k b c w. (Inl BotoCoreError, w)),
        api_generate_data_key = (\<lambda>k spec c w. (Inr [(U ''Plaintext'', RVBytes [7]), (U ''CiphertextBlob'', RVBytes [8])], w))\<rparr>),
      tr_urandom = (\<lambda>n w. (replicate n 0, w)), tr_encrypt = (\<lambda>key nonce data aad. Inr data), tr_now = (\<lambda>w. (U ''now'', w))\<rparr>"

definition sample_arguments :: arguments where
  "sample_arguments = \<lparr>ar_tenant_id = U ''t'', ar_model_name = U ''m'', ar_output_dir = U ''artifacts'', ar_kms_key_id = U ''k'',
     ar_aws_region = U ''r'', ar_n_estimators = 5\<rparr>"

definition trained_server :: "(bytes, nat, unit) server" where
  "trained_server = sample_server\<lparr>sv_lib := sample_lib\<lparr>ml_n_features := (\<lambda>m. Some (Inr 2))\<rparr>,
     sv_kms := DecryptDataKey (\<lambda>c t w. (Inr [7], w))\<rparr>"

definition mem_base :: "pypath \<Rightarrow> pypath" where
  "mem_base p = (if pa_root p = [] then \<lparr>pa_root = [47], pa_parts = pa_parts p\<rparr> else p)"

lemma mem_files_hold: "files_hold mem_files od_get mem_base"
  by (auto simp: files_hold_def mem_files_def mem_base_def od_get_set fun_eq_iff)

definition sample_payload :: "(ustr, json) odict" where
  "sample_payload = artifact_payload sample_arguments 2 (replicate 12 0) [1, 2] (map byte_of (U ''t:m'')) (U ''now'')"

definition sample_disk :: "(pypath, bytes) odict" where
  \<comment> \<open>what the tool writes\<close>
  "sample_disk = od_set (od_set [] (model_file mem_base sample_arguments ''encrypted_model.bin'') (map byte_of (dumps (JObj sample_payload))))
     (model_file mem_base sample_arguments ''encrypted_data_key.bin'') [8]"

lemma sample_training: "train_main sample_trainer mem_files sample_arguments [] = (Inr (), sample_disk)"
proof -
  have aad: "artifact_aad sample_arguments = Inr (map byte_of (U ''t:m''))"
    using utf8_encode_ascii [of "U ''t:m''"] by (simp add: artifact_aad_def sample_arguments_def) (simp add: U_def)
  have "utf8_encode (dumps (JObj sample_payload)) = Inr (map byte_of (dumps (JObj sample_payload)))"
    unfolding sample_payload_def by (rule dumps_bytes(1) [OF artifact_payload_wf(1)]) (simp_all add: sample_arguments_def)
  then have "encrypt_artifact sample_trainer sample_arguments [1, 2] [1, 2] [7] [] = (Inr (map byte_of (dumps (JObj sample_payload))), [])"
    by (simp add: encrypt_artifact_def aad reported_dimension_def sample_trainer_def sample_payload_def del: dumps.simps)
  then show ?thesis
    by (simp add: train_main_def Let_def train_forest_def serialize_model_def tenant_data_key_def sample_disk_def model_file_def del: dumps.simps)
      (simp add: sample_trainer_def mem_files_def mem_base_def od_get_def del: dumps.simps)
qed

lemma sample_deployable: "deployable sample_trainer sample_arguments trained_server [Fin 1, Fin 2]"
proof -
  have "undoes sample_trainer (sv_lib trained_server)"
    by (simp add: undoes_def sample_trainer_def trained_server_def sample_lib_def)
  moreover have "key_service sample_trainer (sv_kms trained_server)"
    by (auto simp: key_service_def sample_trainer_def trained_server_def tenant_data_key_def engine_decrypt_key_def od_get_def)
  moreover have "\<forall>w. str_wf (fst (tr_now sample_trainer w))" "\<forall>model. tr_n_features sample_trainer model = Some (Inr (int (length [Fin 1, Fin 2])))"
    by (simp_all add: sample_trainer_def)
  moreover have "2 \<le> sv_depth trained_server" by (simp add: trained_server_def sample_server_def)
  moreover have "str_wf (ar_tenant_id sample_arguments)" "str_wf (ar_model_name sample_arguments)"
    "strip (ar_tenant_id sample_arguments) \<noteq> []" "strip (ar_model_name sample_arguments) = ar_model_name sample_arguments"
    "ar_model_name sample_arguments \<noteq> []"
    by (simp_all add: sample_arguments_def) (simp_all add: strip_def U_def py_space_def)
  ultimately show ?thesis by (simp add: deployable_def)
qed

lemma sample_ready: "engine_ready sample_arguments m sample_engine"
  by (simp add: engine_ready_def engine_inv_def sample_engine_def)

lemma sample_forest: "train_forest sample_trainer (ar_n_estimators sample_arguments) = Inr m \<longleftrightarrow> m = [1, 2]"
  by (auto simp: train_forest_def sample_trainer_def sample_arguments_def)


end
