(* ===== verification/EndToEnd.thy ===== *)
theory EndToEnd
  imports Api TrainModel
begin

text \<open>
  A deployment: the application of \<open>Api\<close> on its host, holding the client of \<open>EnclaveClient\<close>,
  connected to the server of \<open>EnclaveServer\<close>, with artifacts of the tool of \<open>TrainModel\<close> on its
  disk. A request for a prediction is followed through all of them.
\<close>

section \<open>The deployment\<close>

text \<open>
  The state of a deployment: DynamoDB, the host's disk, clocks and client, and the enclave (the
  engine, the world of its libraries, what the connection has to deliver).
\<close>

record ('t, 'f, 'c, 'm, 'v) deployment =
  de_table :: 't
  de_disk :: 'f
  de_clock :: 'c
  de_client :: "unit enclave_client"
  de_enclave :: "'m engine \<times> 'v \<times> bytes"

record ('dt, 't, 'f, 'c, 'm, 'p, 'v) parts =
  pt_lib :: "'dt py_lib"
  pt_api :: "'t dynamo_api"
  pt_table_name :: ustr
  pt_version :: ustr
  pt_files :: "'f files"
  pt_storage_dir :: "ustr option"
  pt_clock :: "'c \<Rightarrow> 'dt \<times> 'c"
  pt_perf_counter :: "'c \<Rightarrow> pyfloat \<times> 'c"
  pt_server :: "('m, 'p, 'v) server"
  pt_depth :: nat
  pt_str :: "json \<Rightarrow> ustr"
  pt_chunk :: nat

definition on_table :: "('t \<Rightarrow> 'a \<times> 't) \<Rightarrow> ('t, 'f, 'c, 'm, 'v) deployment \<Rightarrow> 'a \<times> ('t, 'f, 'c, 'm, 'v) deployment" where
  "on_table f s = (case f (de_table s) of (r, x) \<Rightarrow> (r, s\<lparr>de_table := x\<rparr>))"

definition on_disk :: "('f \<Rightarrow> 'a \<times> 'f) \<Rightarrow> ('t, 'f, 'c, 'm, 'v) deployment \<Rightarrow> 'a \<times> ('t, 'f, 'c, 'm, 'v) deployment" where
  "on_disk f s = (case f (de_disk s) of (r, x) \<Rightarrow> (r, s\<lparr>de_disk := x\<rparr>))"

definition on_clock :: "('c \<Rightarrow> 'a \<times> 'c) \<Rightarrow> ('t, 'f, 'c, 'm, 'v) deployment \<Rightarrow> 'a \<times> ('t, 'f, 'c, 'm, 'v) deployment" where
  "on_clock f s = (case f (de_clock s) of (r, x) \<Rightarrow> (r, s\<lparr>de_clock := x\<rparr>))"

definition on_enclave :: "(unit enclave_client \<times> 'm engine \<times> 'v \<times> bytes \<Rightarrow> 'a \<times> unit enclave_client \<times> 'm engine \<times> 'v \<times> bytes)
    \<Rightarrow> ('t, 'f, 'c, 'm, 'v) deployment \<Rightarrow> 'a \<times> ('t, 'f, 'c, 'm, 'v) deployment" where
  "on_enclave f s = (case f (de_client s, de_enclave s) of (r, cl, c) \<Rightarrow> (r, s\<lparr>de_client := cl, de_enclave := c\<rparr>))"

definition deployed_api :: "'t dynamo_api \<Rightarrow> ('t, 'f, 'c, 'm, 'v) deployment dynamo_api" where
  "deployed_api api =
     \<lparr>dy_load = on_table (dy_load api), dy_put_item = (\<lambda>item c. on_table (dy_put_item api item c)),
      dy_get_item = (\<lambda>k. on_table (dy_get_item api k)), dy_delete_item = (\<lambda>k c. on_table (dy_delete_item api k c)),
      dy_query = (\<lambda>t p k. on_table (dy_query api t p k)), dy_batch_get = (\<lambda>ks. on_table (dy_batch_get api ks))\<rparr>"

definition deployed_files :: "'f files \<Rightarrow> ('t, 'f, 'c, 'm, 'v) deployment files" where
  "deployed_files fl =
     \<lparr>fl_resolve = (\<lambda>p. on_disk (fl_resolve fl p)), fl_is_file = (\<lambda>p. on_disk (fl_is_file fl p)),
      fl_is_dir = (\<lambda>p. on_disk (fl_is_dir fl p)), fl_exists = (\<lambda>p. on_disk (fl_exists fl p)),
      fl_iterdir = (\<lambda>p. on_disk (fl_iterdir fl p)), fl_read_bytes = (\<lambda>p. on_disk (fl_read_bytes fl p)),
      fl_write_bytes = (\<lambda>p b. on_disk (fl_write_bytes fl p b)), fl_mkdir = (\<lambda>p. on_disk (fl_mkdir fl p))\<rparr>"

definition deployed_client :: "('dt, 't, 'f, 'c, 'm, 'p, 'v) parts \<Rightarrow> ('t, 'f, 'c, 'm, 'v) deployment inference_client" where
  \<comment> \<open>the client is kept in the application's state\<close>
  "deployed_client pt = (let ic = real_inference_client (loopback (pt_chunk pt) (pt_server pt)) (pt_depth pt) (pt_str pt) in
     \<lparr>ic_predict = (\<lambda>n f k b t. on_enclave (ic_predict ic n f k b t)), ic_list_models = on_enclave (ic_list_models ic)\<rparr>)"

definition deployed :: "('dt, 't, 'f, 'c, 'm, 'p, 'v) parts \<Rightarrow> ('dt, ('t, 'f, 'c, 'm, 'v) deployment) app" where
  "deployed pt =
     \<lparr>ap_lib = pt_lib pt, ap_api = deployed_api (pt_api pt), ap_table_name = pt_table_name pt, ap_version = pt_version pt,
      ap_clock = on_clock (pt_clock pt), ap_perf_counter = on_clock (pt_perf_counter pt),
      ap_files = deployed_files (pt_files pt), ap_storage_dir = pt_storage_dir pt,
      ap_client = (\<lambda>s. (Inr (deployed_client pt), s))\<rparr>"

lemma deployed_sel [simp]:
  "ap_lib (deployed pt) = pt_lib pt" "ap_api (deployed pt) = deployed_api (pt_api pt)"
  "ap_clock (deployed pt) = on_clock (pt_clock pt)" "ap_perf_counter (deployed pt) = on_clock (pt_perf_counter pt)"
  "ap_files (deployed pt) = deployed_files (pt_files pt)" "ap_storage_dir (deployed pt) = pt_storage_dir pt"
  "ap_client (deployed pt) s = (Inr (deployed_client pt), s)"
  by (simp_all add: deployed_def)

section \<open>The stages of a request\<close>

text \<open>A table that answers every read.\<close>

definition answering :: "'t dynamo_api \<Rightarrow> 't table \<Rightarrow> bool" where
  "answering api tbl \<longleftrightarrow> (\<forall>k w. \<exists>w'. dy_get_item api k w = (Inr (tbl w k), w') \<and> tbl w' = tbl w)"

lemma deployed_get:
  assumes "answering api tbl"
  obtains x where "dy_get_item (deployed_api api) k s = (Inr (tbl (de_table s) k), s\<lparr>de_table := x\<rparr>)" "tbl x = tbl (de_table s)"
proof -
  obtain x where "dy_get_item api k (de_table s) = (Inr (tbl (de_table s) k), x)" "tbl x = tbl (de_table s)"
    using assms unfolding answering_def by blast
  then show thesis by (intro that [of x]) (simp_all add: deployed_api_def on_table_def)
qed

lemma authenticated:
  assumes "answering api tbl" and "credentials lib (tbl (de_table s)) hid hkey tenant" and "ascii (header_text hkey)"
  shows "\<exists>x sc'. get_current_tenant lib (deployed_api api) hid hkey sc s = (Inr tenant, sc', s\<lparr>de_table := x\<rparr>) \<and> tbl x = tbl (de_table s)"
proof -
  let ?t = "header_text hid"
  obtain item where item: "tbl (de_table s) (?t, tenant_resource_id ?t) = Some item"
      "od_get item (U ''entity_type'') = Some (AStr (U ''TENANT''))" "item_to_tenant lib item = Inr tenant"
    using assms(2) unfolding credentials_def by blast
  then have "item \<noteq> []" by (auto simp: od_get_def)
  then obtain a it where c: "item = a # it" by (cases item) auto
  obtain x where g: "dy_get_item (deployed_api api) (?t, tenant_resource_id ?t) s = (Inr (Some item), s\<lparr>de_table := x\<rparr>)"
      "tbl x = tbl (de_table s)"
    using deployed_get [OF assms(1), of "(?t, tenant_resource_id ?t)" s] item(1) by metis
  then have "get_tenant_record lib (deployed_api api) ?t s = (Inr tenant, s\<lparr>de_table := x\<rparr>)"
    using item(2,3) by (simp add: get_tenant_record_def c)
  with g(2) assms(2,3) show ?thesis
    by (intro exI [of _ x]) (auto simp: get_current_tenant_def Let_def credentials_def compare_digest_def)
qed

lemma vector_prepared:
  assumes "answering api tbl" and "abs_store lib (tbl (de_table s)) (tn_tenant_id tenant) (ir_feature_set_name payload) = Some fs"
    and "fs_features fs \<noteq> []" and "ir_tenant_id payload = tn_tenant_id tenant"
  shows "\<exists>x. prepare_feature_vector (dynamo_store lib (deployed_api api) clock) tenant payload s
      = (Inr (sorted_values (fs_features fs)), s\<lparr>de_table := x\<rparr>) \<and> tbl x = tbl (de_table s)"
proof -
  let ?k = "(tn_tenant_id tenant, feature_resource_id (ir_feature_set_name payload))"
  obtain item where item: "tbl (de_table s) ?k = Some item"
      "od_get item (U ''entity_type'') = Some (AStr (U ''FEATURE_SET''))" "item_to_feature_response lib item = Inr fs"
    using assms(2) by (auto simp: abs_store_def split: option.splits if_splits sum.splits)
  then have "item \<noteq> []" by (auto simp: od_get_def)
  then obtain a it where c: "item = a # it" by (cases item) auto
  obtain x where g: "dy_get_item (deployed_api api) ?k s = (Inr (Some item), s\<lparr>de_table := x\<rparr>)" "tbl x = tbl (de_table s)"
    using deployed_get [OF assms(1), of ?k s] item(1) by metis
  then have "get_feature_set lib (deployed_api api) (tn_tenant_id tenant) (ir_feature_set_name payload) s = (Inr fs, s\<lparr>de_table := x\<rparr>)"
    using item(2,3) by (simp add: get_feature_set_def c)
  with g(2) assms(3,4) show ?thesis
    by (intro exI [of _ x]) (simp add: prepare_feature_vector_def ensure_tenant_access_def dynamo_store_def)
qed

lemma deployed_files_hold:
  assumes "files_hold fl content base"
  shows "files_hold (deployed_files fl) (\<lambda>s. content (de_disk s)) base"
  using assms by (auto simp: files_hold_def deployed_files_def on_disk_def split: prod.splits)

lemma wire_predicts:
  assumes "request = od_set (predict_payload name features key (Some blob) (Some t)) (U ''action'') (JStr (U ''predict''))"
    and "message_wf (sv_depth sv) request" and "0 < ec_max_retries (de_client s)" and "de_enclave s = (en, v, [])"
    and "pt_server pt = sv" and "dispatch sv request en v = (prediction_message p served, en', v')"
    and "message_wf (pt_depth pt) (prediction_message p served)"
  shows "\<exists>cl. ec_max_retries cl = ec_max_retries (de_client s) \<and> ic_predict (deployed_client pt) name features key (Some blob) (Some t) s
    = (Inr (p\<lparr>pr_served_from_cache := served\<rparr>), s\<lparr>de_client := cl, de_enclave := (en', v', [])\<rparr>)"
proof -
  obtain cl where "send_request (loopback (pt_chunk pt) sv) (pt_depth pt) (U ''predict'')
      (predict_payload name features key (Some blob) (Some t)) (de_client s) (en, v, []) = (Inr (prediction_message p served), cl, (en', v', []))"
    "ec_max_retries cl = ec_max_retries (de_client s)"
    using loopback_request [of sv _ "U ''predict''"] assms(1-3,6,7) by metis
  then show ?thesis
    by (intro exI [of _ cl])
      (simp add: deployed_client_def real_inference_client_def on_enclave_def client_predict_def normalize_prediction assms(4,5))
qed

text \<open>The counter changes the clocks alone.\<close>

lemma counted: "\<exists>t c. on_clock f s = (t, s\<lparr>de_clock := c\<rparr>)"
  by (auto simp: on_clock_def split: prod.split)

lemma inference_runs:
  fixes s :: "('t, 'f, 'c, 'm, 'v) deployment"
  assumes "answering (pt_api pt) tbl" and "abs_store (pt_lib pt) (tbl (de_table s)) (tn_tenant_id tenant) (ir_feature_set_name payload) = Some fs"
    and "fs_features fs \<noteq> []" and "ir_tenant_id payload = tn_tenant_id tenant"
    and found: "\<forall>s' :: ('t, 'f, 'c, 'm, 'v) deployment. de_disk s' = de_disk s \<longrightarrow> load_model_artifacts (deployed_files (pt_files pt)) (pt_storage_dir pt)
        (tn_tenant_id tenant) (ir_model_name payload) s' = (Inr (artifact, key), s')"
    and predicted: "\<forall>s'. de_client s' = de_client s \<longrightarrow> de_enclave s' = de_enclave s \<longrightarrow>
        (\<exists>cl. P cl \<and> ic_predict (deployed_client pt) (ir_model_name payload) (sorted_values (fs_features fs)) key (Some artifact)
          (Some (tn_tenant_id tenant)) s' = (Inr p, s'\<lparr>de_client := cl, de_enclave := e\<rparr>))"
  shows "\<exists>latency x c cl. run_inference (deployed pt) payload tenant (deployed_client pt) s
      = (Inr (InferenceReply \<lparr>in_prediction = pr_prediction p, in_confidence = pr_confidence p, in_latency_ms = latency,
            in_served_from_cache = pr_served_from_cache p\<rparr>),
         s\<lparr>de_table := x, de_client := cl, de_enclave := e, de_clock := c\<rparr>) \<and> tbl x = tbl (de_table s) \<and> P cl"
proof -
  let ?count = "on_clock (pt_perf_counter pt)"
  obtain t1 c1 where c1: "?count s = (t1, s\<lparr>de_clock := c1\<rparr>)"
    using counted [of "pt_perf_counter pt" s] by auto
  obtain t2 c2 where c2: "?count (s\<lparr>de_clock := c1\<rparr>) = (t2, s\<lparr>de_clock := c2\<rparr>)"
    using counted [of "pt_perf_counter pt" "s\<lparr>de_clock := c1\<rparr>"] by auto
  obtain x where x: "prepare_feature_vector (ap_store (deployed pt)) tenant payload (s\<lparr>de_clock := c2\<rparr>)
      = (Inr (sorted_values (fs_features fs)), s\<lparr>de_clock := c2, de_table := x\<rparr>)" "tbl x = tbl (de_table s)"
    using vector_prepared [OF assms(1), of "pt_lib pt" "s\<lparr>de_clock := c2\<rparr>" tenant payload fs] assms(2-4)
    by (auto simp: ap_store_def)
  obtain t3 c3 where c3: "?count (s\<lparr>de_clock := c2, de_table := x\<rparr>) = (t3, s\<lparr>de_table := x, de_clock := c3\<rparr>)"
    using counted [of "pt_perf_counter pt" "s\<lparr>de_clock := c2, de_table := x\<rparr>"] by auto
  obtain t4 c4 where c4: "?count (s\<lparr>de_table := x, de_clock := c3\<rparr>) = (t4, s\<lparr>de_table := x, de_clock := c4\<rparr>)"
    using counted [of "pt_perf_counter pt" "s\<lparr>de_table := x, de_clock := c3\<rparr>"] by auto
  obtain cl where P: "P cl" and cl: "ic_predict (deployed_client pt) (ir_model_name payload) (sorted_values (fs_features fs)) key (Some artifact)
      (Some (tn_tenant_id tenant)) (s\<lparr>de_table := x, de_clock := c4\<rparr>)
      = (Inr p, s\<lparr>de_table := x, de_clock := c4, de_client := cl, de_enclave := e\<rparr>)"
    using predicted [rule_format, of "s\<lparr>de_table := x, de_clock := c4\<rparr>"] by auto
  obtain t5 c5 where c5: "?count (s\<lparr>de_table := x, de_clock := c4, de_client := cl, de_enclave := e\<rparr>)
      = (t5, s\<lparr>de_table := x, de_client := cl, de_enclave := e, de_clock := c5\<rparr>)"
    using counted [of "pt_perf_counter pt" "s\<lparr>de_table := x, de_clock := c4, de_client := cl, de_enclave := e\<rparr>"] by auto
  obtain t6 c6 where c6: "?count (s\<lparr>de_table := x, de_client := cl, de_enclave := e, de_clock := c5\<rparr>)
      = (t6, s\<lparr>de_table := x, de_client := cl, de_enclave := e, de_clock := c6\<rparr>)"
    using counted [of "pt_perf_counter pt" "s\<lparr>de_table := x, de_client := cl, de_enclave := e, de_clock := c5\<rparr>"] by auto
  from c1 c2 x c3 found [rule_format, of "s\<lparr>de_table := x, de_clock := c3\<rparr>"] c4 cl P c5 c6 show ?thesis
    by (intro exI [of _ "elapsed_ms t6 t1"] exI [of _ x] exI [of _ c6] exI [of _ cl]) (simp add: run_inference_def)
qed

text \<open>
  What the model computes for a vector, that the messages about it fit the frames, and the state
  of a deployment in which the request can be answered: the table has the tenant and the feature
  set, the disk what the tool wrote, and the engine no other model of the name.
\<close>

definition computes :: "('m, 'p) model_lib \<Rightarrow> 'm \<Rightarrow> pyfloat list \<Rightarrow> pyfloat \<Rightarrow> pyfloat \<Rightarrow> bool" where
  "computes lib model features score confidence \<longleftrightarrow>
     (\<exists>raw. ml_predict lib model features = Inr raw \<and> ml_first lib raw = Inr score) \<and> compute_confidence lib model features = Inr confidence"

definition messages_fit :: "('dt, 't, 'f, 'c, 'm, 'p, 'v) parts \<Rightarrow> arguments \<Rightarrow> pyfloat list \<Rightarrow> 'm \<Rightarrow> bytes \<Rightarrow> bytes \<Rightarrow> bool" where
  "messages_fit pt args features model key artifact \<longleftrightarrow>
     message_wf (sv_depth (pt_server pt)) (predict_request args features key artifact)
   \<and> (\<forall>v p v'. run_model (sv_lib (pt_server pt)) (sv_perf_counter (pt_server pt)) (trained_model args features model) features v = (Inr p, v')
        \<longrightarrow> message_wf (pt_depth pt) (prediction_message p False))"

definition ready :: "('dt, 't, 'f, 'c, 'm, 'p, 'v) parts \<Rightarrow> 't table \<Rightarrow> ustr option \<Rightarrow> ustr option \<Rightarrow> 'dt tenant \<Rightarrow> arguments \<Rightarrow> ustr
    \<Rightarrow> 'dt feature_set \<Rightarrow> 'f \<Rightarrow> 'm \<Rightarrow> ('t, 'f, 'c, 'm, 'v) deployment \<Rightarrow> bool" where
  "ready pt tbl hid hkey tenant args name fs disk model s \<longleftrightarrow>
     credentials (pt_lib pt) (tbl (de_table s)) hid hkey tenant
   \<and> abs_store (pt_lib pt) (tbl (de_table s)) (ar_tenant_id args) name = Some fs
   \<and> de_disk s = disk \<and> 0 < ec_max_retries (de_client s)
   \<and> (\<exists>en v. de_enclave s = (en, v, []) \<and> engine_ready args (trained_model args (sorted_values (fs_features fs)) model) en)"

lemma run_computes:
  assumes "computes lib model features score confidence"
  shows "\<exists>p v'. run_model lib perf_counter (trained_model args features model) features v = (Inr p, v')
    \<and> pr_prediction p = score \<and> pr_confidence p = confidence"
  using assms by (auto simp: computes_def run_model_def trained_model_def split: prod.split)

lemma deployed_prediction:
  fixes s :: "('t, 'f, 'c, 'm, 'v) deployment"
  assumes "answers_as (pt_server pt) args features key artifact (trained_model args features model) en v"
    and "computes (sv_lib (pt_server pt)) model features score confidence" and "messages_fit pt args features model key artifact"
    and "0 < ec_max_retries (de_client s)" and "de_enclave s = (en, v, [])"
  obtains p en' v' where "pr_prediction p = score" and "pr_confidence p = confidence" and "pr_served_from_cache p = False"
    and "engine_ready args (trained_model args features model) en'"
    and "\<forall>s' :: ('t, 'f, 'c, 'm, 'v) deployment. de_client s' = de_client s \<longrightarrow> de_enclave s' = de_enclave s \<longrightarrow>
      (\<exists>cl. ec_max_retries cl = ec_max_retries (de_client s)
        \<and> ic_predict (deployed_client pt) (ar_model_name args) features key (Some artifact) (Some (ar_tenant_id args)) s'
          = (Inr p, s'\<lparr>de_client := cl, de_enclave := (en', v', [])\<rparr>))"
proof -
  let ?sv = "pt_server pt" and ?m = "trained_model args features model"
  obtain en' v1 where a: "engine_inv en'" "od_get (en_models en') (ar_model_name args) = Some ?m"
      "dispatch ?sv (predict_request args features key artifact) en v = (case run_model (sv_lib ?sv) (sv_perf_counter ?sv) ?m features v1
        of (r, v2) \<Rightarrow> (case r of Inr p \<Rightarrow> prediction_message p False | Inl e \<Rightarrow> predict_failure e, en', v2))"
    using assms(1) unfolding answers_as_def by blast
  obtain p v' where p: "run_model (sv_lib ?sv) (sv_perf_counter ?sv) ?m features v1 = (Inr p, v')"
      "pr_prediction p = score" "pr_confidence p = confidence"
    using run_computes [OF assms(2), where perf_counter = "sv_perf_counter ?sv" and args = args and v = v1] by blast
  note fit = assms(3) [unfolded messages_fit_def]
  have wf: "message_wf (pt_depth pt) (prediction_message p False)" using fit p(1) by blast
  have "\<exists>cl. ec_max_retries cl = ec_max_retries (de_client s)
      \<and> ic_predict (deployed_client pt) (ar_model_name args) features key (Some artifact) (Some (ar_tenant_id args)) s'
        = (Inr (p\<lparr>pr_served_from_cache := False\<rparr>), s'\<lparr>de_client := cl, de_enclave := (en', v', [])\<rparr>)"
    if "de_client s' = de_client s" "de_enclave s' = de_enclave s" for s' :: "('t, 'f, 'c, 'm, 'v) deployment"
    unfolding that(1) [symmetric]
    by (rule wire_predicts [OF predict_request_def conjunct1 [OF fit] _ _ refl _ wf]) (use that assms(4,5) a(3) p(1) in simp_all)
  with a(1,2) p(2,3) show thesis
    by (intro that [of "p\<lparr>pr_served_from_cache := False\<rparr>" en' v']) (simp_all add: engine_ready_def)
qed

section \<open>Properties\<close>


section \<open>A deployment in memory\<close>

text \<open>For the witness: tenant \<open>t\<close> with a feature set of two features and the model of \<open>sample_trainer\<close>.\<close>

lemma float_repr_digit:
  assumes "0 < n" and "n < 10"
  shows "float_repr (Fin (of_nat n)) = [48 + n, 46, 48]"
proof -
  have q: "quotient_of (of_nat n) = (int n, 1)" using quotient_of_int [of "int n"] by simp
  have "str_nat n = [48 + n]" "str_nat 1 = [49]" using assms by (simp_all add: str_nat.simps)
  with q have i: "ilog10 (of_nat n) = 0" using assms by (simp add: ilog10_def Let_def)
  have "round_float (of_int (int n)) = Fin (of_int (int n))" using assms by (intro round_float_int) simp
  then have "decimal_digits (of_nat n) 1 = Some (n, 0)" by (simp add: decimal_digits_def i)
  moreover have "[1..<18] = 1 # [2..<18]" by (simp add: upt_conv_Cons)
  ultimately have "shortest_digits (of_nat n) = (n, 0)" by (simp add: shortest_digits_def)
  with \<open>str_nat n = [48 + n]\<close> assms show ?thesis
    by (simp add: repr_pos_def strip_zeros_def layout_digits_def) (simp add: U_def)
qed

lemma small_floats:
  "dump_float (Fin 0) = [48, 46, 48]" "dump_float (Fin 1) = [49, 46, 48]" "dump_float (Fin 2) = [50, 46, 48]"
  "is_float 0" "is_float 1" "is_float 2"
  using float_repr_digit [of 1] float_repr_digit [of 2] round_float_int [of 0] round_float_int [of 1] round_float_int [of 2]
  by (simp_all add: is_float_def del: float_repr.simps) (simp add: U_def)

lemma length_b64encode: "length (b64encode bs) \<le> 4 * length bs"
  by (induction bs rule: b64encode.induct) simp_all

lemma length_dump_str: "length (dump_str s) \<le> 12 * length s + 2"
proof -
  have "length (escape_char c) \<le> 12" for c by (simp add: escape_char_def u_escape_def hex4_def Let_def)
  then have "length (concat (map escape_char s)) \<le> 12 * length s" by (induction s) (auto intro: add_mono)
  then show ?thesis by (simp add: dump_str_def)
qed

definition pair_set :: feature_set_create where
  "pair_set = \<lparr>fc_tenant_id = U ''t'', fc_feature_set_name = U ''f'', fc_features = [(U ''y'', Fin 2), (U ''x'', Fin 1)]\<rparr>"

definition sample_parts :: "(nat, (item_key, item) odict, (pypath, bytes) odict, unit, bytes, nat, unit) parts" where
  "sample_parts =
     \<lparr>pt_lib = mem_lib, pt_api = mem_api, pt_table_name = U ''table'', pt_version = U ''1'', pt_files = mem_files,
      pt_storage_dir = Some (U ''artifacts''), pt_clock = (\<lambda>c. (0, c)), pt_perf_counter = (\<lambda>c. (Fin 0, c)),
      pt_server = trained_server, pt_depth = 5, pt_str = (\<lambda>_. []), pt_chunk = 3\<rparr>"

definition sample_deployment :: "((item_key, item) odict, (pypath, bytes) odict, unit, bytes, unit) deployment" where
  "sample_deployment =
     \<lparr>de_table = od_set tenant_table (U ''t'', feature_resource_id (U ''f'')) (stored_item (feature_item mem_lib 0 pair_set)),
      de_disk = sample_disk, de_clock = (), de_client = enclave_client_init 16 5000 (Fin 30) 3 4,
      de_enclave = (sample_engine, (), [])\<rparr>"

lemma sample_tbl: "od_get (de_table sample_deployment) = (od_get tenant_table)
    ((U ''t'', feature_resource_id (U ''f'')) \<mapsto> stored_item (feature_item mem_lib 0 pair_set))"
  by (intro ext) (simp add: sample_deployment_def od_get_set)

lemma sample_headers: "header_text (Some (U ''t'')) = U ''t''" "header_text (Some (U ''k'')) = U ''k''"
  by (simp_all add: header_text_def strip_def U_def py_space_def)

lemma sample_credentials: "credentials mem_lib (od_get (de_table sample_deployment)) (Some (U ''t'')) (Some (U ''k'')) sample_tenant"
proof -
  have "tenant_resource_id (U ''t'') \<noteq> feature_resource_id (U ''f'')"
    by (simp add: tenant_resource_id_def feature_resource_id_def FEATURE_PREFIX_def U_def)
  with tenant_record_cases(2) [OF mem_lib_ok mem_reads_ok tenant_table_record] show ?thesis
    by (auto simp: credentials_def sample_headers sample_tbl) (simp_all add: sample_tenant_def)
qed

lemma sample_stored: "abs_store mem_lib (od_get (de_table sample_deployment)) (U ''t'') (U ''f'') = Some (created 0 pair_set)"
proof -
  have "list_all (\<lambda>(k, v). float_ok v) (fc_features pair_set)" by (simp add: pair_set_def float_ok_def small_floats)
  from abs_store_update [OF mem_lib_ok this, of "od_get tenant_table" 0 "U ''t''" "U ''f''"] show ?thesis
    by (simp add: sample_tbl pair_set_def)
qed

lemma sample_vector: "[Fin 1, Fin 2] = sorted_values (fs_features (created 0 pair_set))"
  by (simp add: sorted_values_def created_def pair_set_def) (simp add: U_def)

lemma length_dump_b64: "length (dump_str (b64encode bs)) \<le> 48 * length bs + 2"
  using length_dump_str [of "b64encode bs"] length_b64encode [of bs] by linarith

lemma sample_artifact_length: "length (dumps (JObj sample_payload)) < 4000"
proof -
  let ?l = "\<lambda>bs. length (dump_str (b64encode bs))"
  have "?l (replicate 12 0) \<le> 600" "?l [1, 2] \<le> 100" "?l (map byte_of (U ''t:m'')) \<le> 200"
    using length_dump_b64 [of "replicate 12 0"] length_dump_b64 [of "[1, 2]"] length_dump_b64 [of "map byte_of (U ''t:m'')"]
    by (simp_all add: U_def)
  moreover have "length (str_int 2) = 1" by (simp add: str_int_def str_nat.simps)
  moreover have "length (dumps (JObj sample_payload)) < 1000 + ?l (replicate 12 0) + ?l [1, 2] + ?l (map byte_of (U ''t:m'')) + length (str_int 2)"
    by (simp add: sample_payload_def artifact_payload_def sample_arguments_def del: b64encode.simps)
      (simp add: dump_str_def U_def escape_char_def del: b64encode.simps)
  ultimately show ?thesis by linarith
qed

lemma sample_request_fits:
  assumes "length artifact < 4000"
  shows "message_wf 5 (predict_request sample_arguments [Fin 1, Fin 2] [8] artifact)"
proof -
  let ?request = "predict_request sample_arguments [Fin 1, Fin 2] [8] artifact"
    and ?l = "\<lambda>bs. length (dump_str (b64encode bs))"
  have "?l artifact < 200000" "?l [8] < 100"
    using length_dump_b64 [of artifact] length_dump_b64 [of "[8]"] assms by simp_all
  moreover have "length (dumps (JObj ?request)) < 1000 + ?l artifact + ?l [8]"
    by (simp add: predict_request_def predict_payload_def od_set_def sample_arguments_def small_floats
        del: float_repr.simps dump_float.simps(4) b64encode.simps)
      (simp add: dump_str_def U_def escape_char_def del: b64encode.simps)
  ultimately have "length (dumps (JObj ?request)) < 4294967296" by linarith
  moreover have "json_wf (JObj ?request)" "json_depth (JObj ?request) \<le> 5"
    by (simp_all add: predict_request_def predict_payload_def od_set_def sample_arguments_def small_floats str_wf_ascii b64encode_ascii
        del: float_repr.simps dump_float.simps(4) b64encode.simps)
  ultimately show ?thesis by (simp add: message_wf_def del: json_wf.simps json_depth.simps dumps.simps)
qed

lemma sample_prediction:
  "run_model (sv_lib trained_server) (sv_perf_counter trained_server) (trained_model sample_arguments [Fin 1, Fin 2] [1, 2]) [Fin 1, Fin 2] v
    = (Inr \<lparr>pr_prediction = Fin 2, pr_confidence = Fin 1, pr_latency_ms = Fin 0, pr_served_from_cache = True\<rparr>, v)"
proof -
  have "fmul (fsub (Fin 0) (Fin 0)) (Fin 1000) = Fin 0"
    using round_float_int [of 0] by (simp add: fmul_def fsub_def)
  then show ?thesis
    by (simp add: run_model_def trained_server_def sample_server_def sample_lib_def trained_model_def compute_confidence_def)
qed

lemma sample_server_part: "pt_server sample_parts = trained_server" "pt_depth sample_parts = 5" "sv_depth trained_server = 5"
  by (simp_all add: sample_parts_def trained_server_def sample_server_def)

lemma sample_fit:
  assumes "od_get sample_disk (model_file mem_base sample_arguments ''encrypted_model.bin'') = Some artifact"
    and "od_get sample_disk (model_file mem_base sample_arguments ''encrypted_data_key.bin'') = Some key"
  shows "messages_fit sample_parts sample_arguments [Fin 1, Fin 2] [1, 2] key artifact"
proof -
  have "artifact = map byte_of (dumps (JObj sample_payload))" "key = [8]"
    using assms model_files_differ [of mem_base sample_arguments] by (simp_all add: sample_disk_def od_get_set del: dumps.simps)
  with sample_artifact_length sample_request_fits [of artifact] have "message_wf 5 (predict_request sample_arguments [Fin 1, Fin 2] key artifact)"
    by (simp del: dumps.simps)
  moreover have "message_wf 5 (prediction_message \<lparr>pr_prediction = Fin 2, pr_confidence = Fin 1, pr_latency_ms = Fin 0, pr_served_from_cache = True\<rparr> False)"
    by (simp add: message_wf_def prediction_message_def small_floats del: float_repr.simps dump_float.simps(4))
      (simp add: dump_str_def U_def escape_char_def)
  ultimately show ?thesis
    by (simp add: messages_fit_def sample_server_part sample_prediction)
qed

lemma sample_computes: "computes (sv_lib trained_server) [1, 2] [Fin 1, Fin 2] (Fin 2) (Fin 1)"
  by (simp add: computes_def trained_server_def sample_lib_def compute_confidence_def)


end
