(* ===== verification/Spec2Isabelle.thy ===== *)
theory Spec2Isabelle
  imports Attestation EnclaveProcess Startup EndToEnd
begin

text \<open>
  A verification library for the confidential ML feature store.

  \<^bold>\<open>The program.\<close> Tenants store named sets of float features in a host service
  (\<open>feature_store/\<close>, a FastAPI application over DynamoDB) and ask it for predictions. The models
  are encrypted under per-tenant data keys wrapped by AWS KMS and run in a Nitro enclave
  (\<open>enclave/\<close>), which the host reaches over a vsock connection with length-prefixed JSON frames
  and which obtains plaintext keys through an attested KMS proxy. \<open>scripts/train_model.py\<close> makes
  the encrypted artifacts.

  A request for a prediction passes the request-context middleware, the tenant authentication
  (tenant record in DynamoDB), the feature service (the feature vector), the artifact files, the
  enclave client (pool, retries, frames), and then in the enclave the server's loop, dispatch, the
  inference engine and its KMS client; exceptions come back as error codes, then as HTTP errors.

  \<^bold>\<open>Theories\<close> (each names its source file and has its lemmas after its definitions):

  \<^item> \<open>Prelude\<close>: bytes (8-bit words), strings (\<open>ustr\<close>: lists of code points), results
    (\<open>exn + 'a\<close>), insertion-ordered dictionaries; the interfaces \<open>bounded_store\<close> and \<open>codec\<close>.
  \<^item> \<open>Errors\<close>: the exceptions and \<open>feature_store/utils/exceptions.py\<close>.
  \<^item> \<open>Text\<close>, \<open>Base64\<close>, \<open>Sha256\<close>, \<open>Floats\<close>, \<open>FloatRepr\<close>, \<open>Json\<close>, \<open>JsonText\<close>: what the code uses
    of Python's standard library (\<open>strip\<close>, UTF-8, hexadecimal, \<open>int()\<close>, base64, SHA-256, IEEE
    doubles with correct rounding, \<open>float()\<close> and \<open>repr\<close>, \<open>json.dumps\<close> and \<open>json.loads\<close>).
  \<^item> \<open>Cbor\<close>, \<open>Attestation\<close>: \<open>enclave/attestation.py\<close>.
  \<^item> \<open>KmsService\<close>: \<open>feature_store/services/kms_service.py\<close>.
  \<^item> \<open>KmsClient\<close>: \<open>enclave/kms_client.py\<close>; its cache is a step relation \<open>cache_step\<close>.
  \<^item> \<open>Dynamo\<close>, \<open>FeatureService\<close>: \<open>dynamo_service.py\<close>, \<open>feature_service.py\<close> and the models.
  \<^item> \<open>InferenceEngine\<close>: \<open>enclave/inference_engine.py\<close>; its cache is a step relation \<open>engine_step\<close>.
  \<^item> \<open>Frames\<close>: the frames of both ends; \<open>EnclaveServer\<close>: the requests and connections of
    \<open>enclave/server.py\<close>; \<open>EnclaveClient\<close>, \<open>MockEnclave\<close>: \<open>services/enclave_client.py\<close>.
  \<^item> \<open>Logging\<close>: \<open>utils/logger.py\<close>; \<open>Auth\<close>: \<open>middleware/tenant_auth.py\<close>; \<open>Artifacts\<close>: the files of
    \<open>routers/inference.py\<close>; \<open>Api\<close>: the routers, \<open>request_context_middleware\<close> and handlers.
  \<^item> \<open>TrainModel\<close>: \<open>scripts/train_model.py\<close>; \<open>Config\<close>: \<open>feature_store/config.py\<close>.
  \<^item> \<open>EnclaveProcess\<close>: the process of \<open>enclave/server.py\<close> (its log, the accept loop with the signal
    handler as a step relation \<open>serve_run\<close>, \<open>stop\<close>, \<open>main\<close>); \<open>Startup\<close>: \<open>create_app\<close> and the lifespan
    of \<open>feature_store/main.py\<close>, the constructor of the DynamoDB service, the one enclave client.
  \<^item> \<open>EndToEnd\<close>: a deployment, the composition of host, connection and enclave with the tool's files.

  \<^bold>\<open>How code becomes definitions.\<close> An object is a record of its attributes (\<open>engine\<close>,
  \<open>kms_client\<close>, \<open>enclave_client\<close>, \<open>log_context\<close>), a method a function that returns the new record.
  Every exception the code raises or catches is a value of \<open>exn\<close>, and \<open>except\<close> clauses are case
  distinctions in their order. What lies outside the repository acts on an abstract world \<open>'w\<close> that
  is threaded through in the order of the calls: the KMS API (\<open>kms_api\<close>), the KMS proxy
  (\<open>kms_env\<close>), the NSM device, DynamoDB (\<open>dynamo_api\<close>), sockets (\<open>conn\<close>, \<open>net\<close>), files (\<open>files\<close>),
  clocks, and the model library (\<open>model_lib\<close>). Dictionaries keep their insertion order, because
  eviction and the text of JSON depend on it. A section under a lock is one step; interleavings of
  threads are sequences of steps.

  \<^bold>\<open>Interfaces.\<close> \<open>bounded_store\<close> (a map of bounded size in which a lookup returns the last store
  unless evicted) is interpreted by the key cache and by the model cache; \<open>codec\<close> (decoding undoes
  encoding) by CBOR, base64, hexadecimal, UTF-8, JSON and frames; \<open>tenant_store\<close> (every operation
  of the data layer stays in the partition it is called with) by the DynamoDB service, and the
  feature service and the API rest on it; \<open>key_decryptor\<close> (at most one key request, for the
  tenant asked for) by the enclave's KMS client and by the mock's resolver.

  \<^bold>\<open>What is shown.\<close> End to end: tenant isolation of every HTTP request (\<open>Api\<close>); that a model the
  training tool writes is found, opened and served with the trained model's own answers
  (\<open>TrainModel\<close>); and that a request with valid credentials gets the model's prediction on the
  stored features, through every part above (\<open>EndToEnd\<close>). Soundness and completeness of authentication (\<open>Auth\<close>). Caches: bounds, freshness
  and eviction order in all reachable states (\<open>KmsClient\<close>, \<open>InferenceEngine\<close>). Protocol: frames
  and JSON round trips for every chunking, the server's loop ends and refines a fold of \<open>dispatch\<close>,
  the client's retries are bounded and no connection is lost, the mock agrees with the server
  (\<open>Frames\<close>, \<open>EnclaveServer\<close>, \<open>EnclaveClient\<close>, \<open>MockEnclave\<close>). Storage: create, read, list, delete
  and batch reads refine a map from tenant and name to feature sets (\<open>Dynamo\<close>, \<open>FeatureService\<close>).
  Attestation and CBOR: round trips, sound parsing, errors (\<open>Cbor\<close>, \<open>Attestation\<close>). Every KMS call
  is bound to its tenant (\<open>KmsService\<close>, \<open>KmsClient\<close>). Configuration and logs are well-formed
  (\<open>Config\<close>, \<open>Logging\<close>), and the parts of a started application share them (\<open>Startup\<close>). The accept
  loop shuts down cleanly wherever signals interrupt it (\<open>EnclaveProcess\<close>). Some lemmas record where the code falls short of its documentation:
  \<open>server_cannot_start\<close>, \<open>cached_model_skips_bundle\<close>, \<open>cache_hit_not_reported\<close>,
  \<open>artifact_opens\<close>, \<open>traversal\<close>, \<open>absolute_name_replaces\<close>, \<open>cut_frame_accepted\<close>,
  \<open>bad_base64_escapes\<close>, \<open>mock_accepts_blank_names\<close>, \<open>deep_response_leaks\<close>,
  \<open>malformed_number_escapes\<close>, \<open>nan_ttl_accepted\<close>, \<open>nul_tenant_shares_key\<close>,
  \<open>shutdown_drops_connection\<close>.

  \<^bold>\<open>Bounds.\<close> The decoders of CBOR and JSON take the depth at which Python raises \<open>RecursionError\<close>
  as an argument; the theorems hold for every depth that covers the data. Loops that need not
  end (\<open>query_pages\<close>, \<open>serve_loop\<close>) are partial functions with value \<open>None\<close> for not returning, and
  the properties prove that they return under stated behaviour of the other side. Retry loops
  count down the attempts that the code allows (\<open>BATCH_RETRY_LIMIT\<close>, \<open>max_retries\<close>); all other
  recursions have a termination proof.

  \<^bold>\<open>Not modelled.\<close> What lies behind the parameters: vsock sockets, the threads of the executor and
  of FastAPI, boto3, FastAPI's routing and CORS (\<open>create_app\<close> gives what it registers as data);
  FastAPI's and pydantic's parsing of requests and of the environment (the models start from their
  results); what log calls print, apart from the formatters; shell scripts and tests. Of Python:
  negative zero, the limit on digits of \<open>int()\<close>, digits outside ASCII in \<open>int()\<close> and \<open>float()\<close>,
  and a \<open>RecursionError\<close> of \<open>json.dumps\<close>.
\<close>

end
